(* ===== verification/Prelude.thy ===== *)
theory Prelude
  imports Main "HOL-Library.Word" "HOL-Library.Multiset"
begin

text \<open>
  Shared vocabulary of the development: bytes and Rust strings, the result type of the
  crate's functions and its error values, the plumbing of the question-mark operator, the
  parts of the Rust standard library the crate relies on (array conversion, UTF-8 checking,
  \<open>i32\<close> addition, \<open>Instant::elapsed\<close>), and the lemmas and automation the components share.
\<close>

section \<open>Bytes and strings\<close>

type_synonym byte = "8 word"
type_synonym bytes = "byte list"
type_synonym i32 = "32 word"
type_synonym frost_id = "16 word"

text \<open>
  A Rust \<open>String\<close> is a sequence of UTF-8 bytes; it is modelled by the HOL \<open>string\<close> with one
  character per byte, so that \<open>length\<close> counts what \<open>len()\<close> counts.
\<close>

definition byte_of_char :: "char \<Rightarrow> byte" where
  "byte_of_char c = word_of_nat (of_char c)"

definition char_of_byte :: "byte \<Rightarrow> char" where
  "char_of_byte b = char_of (unat b)"

definition as_bytes :: "string \<Rightarrow> bytes" where
  "as_bytes s = map byte_of_char s"

definition string_of_bytes :: "bytes \<Rightarrow> string" where
  "string_of_bytes bs = map char_of_byte bs"

named_theorems codec_simps \<open>rewriting through encoders and decoders\<close>

lemma char_of_byte_of_char [simp]: "char_of_byte (byte_of_char c) = c"
  by (simp add: char_of_byte_def byte_of_char_def unat_of_nat)

lemma byte_of_char_of_byte [simp]: "byte_of_char (char_of_byte b) = b"
proof -
  have "unat b < 256"
    by (rule order_less_le_trans [OF unsigned_less]) simp
  then show ?thesis
    by (simp add: char_of_byte_def byte_of_char_def)
qed

lemma string_of_as_bytes [simp]: "string_of_bytes (as_bytes s) = s"
  by (simp add: as_bytes_def string_of_bytes_def comp_def)

lemma as_bytes_of_string [simp]: "as_bytes (string_of_bytes bs) = bs"
  by (simp add: as_bytes_def string_of_bytes_def comp_def)

lemma length_as_bytes [simp]: "length (as_bytes s) = length s"
  by (simp add: as_bytes_def)

lemma as_bytes_inject [simp]: "as_bytes s = as_bytes t \<longleftrightarrow> s = t"
  by (metis string_of_as_bytes)

section \<open>Results and errors\<close>

text \<open>
  Every fallible function of the crate returns \<open>Result<T, String>\<close>, where the string is a
  fixed text or a \<open>format!\<close> of one. An error value keeps the text and its arguments apart:
  \<open>Wrap ctx e\<close> is the format with a crate's message at the end, \<open>NotFound\<close>, \<open>Expired\<close> and
  \<open>Consumed\<close> name the session table and the session id. \<open>Panicked\<close> is a Rust panic, which
  unwinds out of the call.
\<close>

datatype serde_error =
    Syntax string
  | MissingField string
  | DuplicateField string
  | InvalidType string
  | InvalidLength

datatype error =
    Msg string
  | Wrap string string
  | SerdeError string serde_error
  | NotFound string string
  | Expired string string
  | Consumed string string
  | UnsupportedCurve string
  | BadFromId byte
  | BadRound string i32
  | BadLength string nat
  | Round1Failed "string + bytes"
  | Panicked string

type_synonym 'a res = "error + 'a"

text \<open>\<open>r.map_err(|e| format!("ctx: {e}"))\<close> for a crate whose error displays as a string.\<close>

definition wrap_err :: "string \<Rightarrow> string + 'a \<Rightarrow> 'a res" where
  "wrap_err ctx r = (case r of Inl e \<Rightarrow> Inl (Wrap ctx e) | Inr v \<Rightarrow> Inr v)"

definition serde_err :: "string \<Rightarrow> serde_error + 'a \<Rightarrow> 'a res" where
  "serde_err ctx r = (case r of Inl e \<Rightarrow> Inl (SerdeError ctx e) | Inr v \<Rightarrow> Inr v)"

text \<open>\<open>o.ok_or(e)\<close>.\<close>

definition ok_or :: "'a option \<Rightarrow> error \<Rightarrow> 'a res" where
  "ok_or x e = (case x of None \<Rightarrow> Inl e | Some v \<Rightarrow> Inr v)"

text \<open>The \<open>?\<close> operator: \<open>andThen\<close> in a pure function, \<open>question\<close> in a handler that has
  reached the state \<open>st\<close>, which an early return leaves as it is.\<close>

definition andThen :: "'e + 'a \<Rightarrow> ('a \<Rightarrow> 'e + 'b) \<Rightarrow> 'e + 'b" where
  "andThen r k = (case r of Inl e \<Rightarrow> Inl e | Inr v \<Rightarrow> k v)"

definition question :: "'e + 'a \<Rightarrow> 's \<Rightarrow> ('a \<Rightarrow> ('e + 'b) \<times> 's) \<Rightarrow> ('e + 'b) \<times> 's" where
  "question r st k = (case r of Inl e \<Rightarrow> (Inl e, st) | Inr v \<Rightarrow> k v)"

text \<open>The same in a handler that drives a protocol task, where \<open>None\<close> stands for a call that has
  not returned.\<close>

definition attempt ::
  "'e + 'a \<Rightarrow> 's \<Rightarrow> ('a \<Rightarrow> (('e + 'b) \<times> 's) option) \<Rightarrow> (('e + 'b) \<times> 's) option" where
  "attempt r st k = (case r of Inl e \<Rightarrow> Some (Inl e, st) | Inr v \<Rightarrow> k v)"

text \<open>\<open>iter().map(f).collect::<Result<Vec<_>, _>>()\<close>: the first error wins.\<close>

fun collect_results :: "('a \<Rightarrow> 'e + 'b) \<Rightarrow> 'a list \<Rightarrow> 'e + 'b list" where
  "collect_results f [] = Inr []"
| "collect_results f (x # xs) =
     (case f x of
        Inl e \<Rightarrow> Inl e
      | Inr y \<Rightarrow> (case collect_results f xs of Inl e \<Rightarrow> Inl e | Inr ys \<Rightarrow> Inr (y # ys)))"

lemma wrap_err_simps [simp]:
  "wrap_err ctx (Inl e) = Inl (Wrap ctx e)"
  "wrap_err ctx (Inr v) = Inr v"
  "wrap_err ctx r = Inr w \<longleftrightarrow> r = Inr w"
  by (simp_all add: wrap_err_def split: sum.split)

lemma serde_err_simps [simp]:
  "serde_err ctx (Inl s) = Inl (SerdeError ctx s)"
  "serde_err ctx (Inr v) = Inr v"
  "serde_err ctx r = Inr w \<longleftrightarrow> r = Inr w"
  by (simp_all add: serde_err_def split: sum.split)

lemma ok_or_simps [simp]:
  "ok_or None e = Inl e"
  "ok_or (Some v) e = Inr v"
  "ok_or x e = Inr w \<longleftrightarrow> x = Some w"
  by (simp_all add: ok_or_def split: option.split)

lemma andThen_simps [simp]:
  "andThen (Inl e) k = Inl e"
  "andThen (Inr v) k = k v"
  by (simp_all add: andThen_def)

lemma andThen_Inr_iff [simp]: "andThen r k = Inr w \<longleftrightarrow> (\<exists>v. r = Inr v \<and> k v = Inr w)"
  by (cases r) simp_all

lemma question_simps [simp]:
  "question (Inl e) st k = (Inl e, st)"
  "question (Inr v) st k = k v"
  by (simp_all add: question_def)

lemma question_split:
  "P (question r st k) \<longleftrightarrow>
     (\<forall>e. r = Inl e \<longrightarrow> P (Inl e, st)) \<and> (\<forall>v. r = Inr v \<longrightarrow> P (k v))"
  by (cases r) simp_all

lemma question_split_asm:
  "P (question r st k) \<longleftrightarrow>
     \<not> ((\<exists>e. r = Inl e \<and> \<not> P (Inl e, st)) \<or> (\<exists>v. r = Inr v \<and> \<not> P (k v)))"
  by (cases r) simp_all

lemma attempt_simps [simp]:
  "attempt (Inl e) st k = Some (Inl e, st)"
  "attempt (Inr v) st k = k v"
  by (simp_all add: attempt_def)

lemma attempt_eq_Some:
  "attempt r st k = Some (res, st') \<longleftrightarrow>
     (\<exists>e. r = Inl e \<and> res = Inl e \<and> st' = st) \<or> (\<exists>v. r = Inr v \<and> k v = Some (res, st'))"
  by (cases r) auto

lemma attempt_eq_None: "attempt r st k = None \<longleftrightarrow> (\<exists>v. r = Inr v \<and> k v = None)"
  by (cases r) auto

lemmas question_splits = question_split question_split_asm

lemma snd_question:
  "R st \<Longrightarrow> (\<And>v. r = Inr v \<Longrightarrow> R (snd (k v))) \<Longrightarrow> R (snd (question r st k))"
  by (cases r) simp_all

lemma question_Inr_iff:
  "question r st k = (Inr w, st') \<longleftrightarrow> (\<exists>v. r = Inr v \<and> k v = (Inr w, st'))"
  by (cases r) simp_all

lemma collect_results_map:
  assumes "\<And>x. x \<in> set xs \<Longrightarrow> f (g x) = Inr x"
  shows "collect_results f (map g xs) = Inr xs"
  using assms by (induction xs) simp_all

lemma collect_results_Inr_length: "collect_results f xs = Inr ys \<Longrightarrow> length ys = length xs"
  by (induction xs arbitrary: ys) (auto split: sum.splits)

lemma collect_results_Inr_iff:
  "collect_results f xs = Inr ys \<longleftrightarrow> list_all2 (\<lambda>x y. f x = Inr y) xs ys"
proof (induction xs arbitrary: ys)
  case Nil
  then show ?case by auto
next
  case (Cons x xs)
  show ?case
  proof (cases "collect_results f xs")
    case (Inl e)
    with Cons.IH have "\<not> list_all2 (\<lambda>x y. f x = Inr y) xs zs" for zs
      by (metis Inl_Inr_False)
    with Inl show ?thesis
      by (cases ys) (auto split: sum.split)
  next
    case (Inr zs)
    with Cons.IH have "list_all2 (\<lambda>x y. f x = Inr y) xs us \<longleftrightarrow> zs = us" for us
      by (metis sum.inject(2))
    with Inr show ?thesis
      by (cases ys) (auto split: sum.split)
  qed
qed

section \<open>Rust standard library\<close>

text \<open>\<open>TryFrom<Vec<u8>> for [u8; N]\<close>: the conversion succeeds on exactly \<open>N\<close> bytes.\<close>

definition try_into_array :: "nat \<Rightarrow> bytes \<Rightarrow> bytes option" where
  "try_into_array n bs = (if length bs = n then Some bs else None)"

lemma try_into_array_Some [simp]:
  "try_into_array n bs = Some a \<longleftrightarrow> length bs = n \<and> a = bs"
  by (auto simp: try_into_array_def)

text \<open>
  \<open>+\<close> on \<open>i32\<close>: with overflow checks (the debug profile) it panics on overflow, without
  them (the release profile) it wraps.
\<close>

definition add_i32 :: "bool \<Rightarrow> i32 \<Rightarrow> i32 \<Rightarrow> i32 res" where
  "add_i32 checks a b =
     (if checks \<and> sint (a + b) \<noteq> sint a + sint b
      then Inl (Panicked ''attempt to add with overflow'') else Inr (a + b))"

text \<open>\<open>Instant::elapsed\<close> in nanoseconds; it is zero when the clock reads an earlier time.\<close>

definition elapsed :: "nat \<Rightarrow> nat \<Rightarrow> nat" where
  "elapsed now created = now - created"

text \<open>\<open>u8::is_ascii_lowercase\<close> and \<open>char::to_ascii_uppercase\<close>.\<close>

definition to_ascii_uppercase :: "char \<Rightarrow> char" where
  "to_ascii_uppercase c =
     (if 97 \<le> (of_char c :: nat) \<and> (of_char c :: nat) \<le> 122
      then char_of ((of_char c :: nat) - 32) else c)"

text \<open>
  \<open>String::from_utf8\<close> accepts the well-formed sequences of the Unicode standard (table 3-7):
  shortest forms only, no surrogates, nothing above U+10FFFF.
\<close>

definition utf8_cont :: "byte \<Rightarrow> bool" where
  "utf8_cont b \<longleftrightarrow> 0x80 \<le> b \<and> b \<le> 0xBF"

definition utf8_second3 :: "byte \<Rightarrow> byte \<Rightarrow> bool" where
  "utf8_second3 a b \<longleftrightarrow>
     (if a = 0xE0 then 0xA0 \<le> b \<and> b \<le> 0xBF
      else if a = 0xED then 0x80 \<le> b \<and> b \<le> 0x9F else utf8_cont b)"

definition utf8_second4 :: "byte \<Rightarrow> byte \<Rightarrow> bool" where
  "utf8_second4 a b \<longleftrightarrow>
     (if a = 0xF0 then 0x90 \<le> b \<and> b \<le> 0xBF
      else if a = 0xF4 then 0x80 \<le> b \<and> b \<le> 0x8F else utf8_cont b)"

fun utf8_valid :: "bytes \<Rightarrow> bool" where
  "utf8_valid [] = True"
| "utf8_valid (a # bs) =
     (if a < 0x80 then utf8_valid bs
      else if 0xC2 \<le> a \<and> a \<le> 0xDF then
        (case bs of b # r \<Rightarrow> utf8_cont b \<and> utf8_valid r | _ \<Rightarrow> False)
      else if 0xE0 \<le> a \<and> a \<le> 0xEF then
        (case bs of b # c # r \<Rightarrow> utf8_second3 a b \<and> utf8_cont c \<and> utf8_valid r | _ \<Rightarrow> False)
      else if 0xF0 \<le> a \<and> a \<le> 0xF4 then
        (case bs of b # c # d # r \<Rightarrow>
             utf8_second4 a b \<and> utf8_cont c \<and> utf8_cont d \<and> utf8_valid r
         | _ \<Rightarrow> False)
      else False)"

definition from_utf8 :: "bytes \<Rightarrow> string option" where
  "from_utf8 bs = (if utf8_valid bs then Some (string_of_bytes bs) else None)"

lemma from_utf8_as_bytes: "utf8_valid (as_bytes s) \<Longrightarrow> from_utf8 (as_bytes s) = Some s"
  by (simp add: from_utf8_def)

lemma utf8_valid_ascii: "(\<forall>b \<in> set bs. b < 0x80) \<Longrightarrow> utf8_valid bs"
  by (induction bs) simp_all

lemma add_i32_exact:
  assumes "sint a < 2 ^ 31 - 1"
  shows "add_i32 checks a 1 = Inr (a + 1)" and "sint (a + 1) = sint a + 1"
proof -
  have "- (2 ^ 31) \<le> sint a"
    using sint_greater_eq [of a] by simp
  with assms show "sint (a + 1) = sint a + 1"
    by (simp add: sint_word_ariths signed_take_bit_int_eq_self)
  then show "add_i32 checks a 1 = Inr (a + 1)"
    by (simp add: add_i32_def)
qed

lemma add_i32_one:
  "add_i32 checks a 1 =
     (if checks \<and> a = 0x7FFFFFFF then Inl (Panicked ''attempt to add with overflow'') else Inr (a + 1))"
proof (cases "sint a < 2 ^ 31 - 1")
  case True
  then have "a \<noteq> 0x7FFFFFFF" by auto
  with add_i32_exact(1) [OF True] show ?thesis by simp
next
  case False
  with sint_less [of a] have "sint a = 2 ^ 31 - 1" by simp
  moreover have "a = word_of_int (sint a)" by simp
  ultimately have "a = 0x7FFFFFFF" by simp
  then show ?thesis by (simp add: add_i32_def)
qed

section \<open>What a map holds\<close>

text \<open>Every entry of a table holds one token; these are the tokens of the table.\<close>

definition tokens_in :: "('s \<Rightarrow> 'n) \<Rightarrow> (string \<rightharpoonup> 's) \<Rightarrow> 'n multiset" where
  "tokens_in token m = image_mset (\<lambda>sid. token (the (m sid))) (mset_set (dom m))"

lemma tokens_in_empty [simp]: "tokens_in token (\<lambda>_. None) = {#}"
  by (simp add: tokens_in_def)

lemma tokens_remove_some:
  assumes "finite (dom m)" and "m sid = Some s"
  shows "add_mset (token s) (tokens_in token (m(sid := None))) = tokens_in token m"
proof -
  have "sid \<in> dom m" using assms(2) by auto
  then have D: "mset_set (dom m) = add_mset sid (mset_set (dom m - {sid}))"
    using assms(1) by (simp add: mset_set.remove)
  have "image_mset (\<lambda>k. token (the ((m(sid := None)) k))) (mset_set (dom m - {sid}))
      = image_mset (\<lambda>k. token (the (m k))) (mset_set (dom m - {sid}))"
    using assms(1) by (intro image_mset_cong) auto
  then show ?thesis using assms(2) D by (simp add: tokens_in_def)
qed

lemma tokens_remove_le:
  assumes "finite (dom m)"
  shows "tokens_in token (m(sid := None)) \<subseteq># tokens_in token m"
proof (cases "m sid")
  case None
  then have "m(sid := None) = m" by auto
  then show ?thesis by simp
next
  case (Some s)
  show ?thesis by (simp flip: tokens_remove_some [OF assms Some])
qed

lemma tokens_insert_le:
  assumes "finite (dom m)"
  shows "tokens_in token (m(sid \<mapsto> s)) \<subseteq># add_mset (token s) (tokens_in token m)"
proof -
  have "finite (dom (m(sid \<mapsto> s)))" using assms by simp
  from tokens_remove_some [OF this, of sid s token]
  have "tokens_in token (m(sid \<mapsto> s)) = add_mset (token s) (tokens_in token (m(sid := None)))"
    by simp
  with tokens_remove_le [OF assms] show ?thesis by simp
qed

end
