(* ===== verification/Codecs.thy ===== *)
theory Codecs
  imports Prelude
begin

text \<open>
  The text codecs the crate calls. The crates base64, hex, bs58, tiny-keccak and serde_json are
  not part of the repository: they are the fields of the record \<open>codecs\<close>, a parameter of every
  definition that uses them, and what the crate relies on is stated by the predicates
  \<open>b64_law\<close>, \<open>hex_law\<close>, \<open>keccak_law\<close> and \<open>json_law\<close>, hypotheses of the theorems that need them.
  The serde attributes (\<open>rename_all\<close>, \<open>skip_serializing_if\<close>, \<open>default\<close>) stand on
  the structs of the repository, so the (de)serialisers they select are definitions over the
  JSON value \<open>json\<close>; the helpers for them are here, the structs in \<open>Api_Types\<close>.
\<close>

section \<open>JSON values\<close>

text \<open>
  A JSON text as its tree of tokens: \<open>JNum\<close> is a number written as an integer, \<open>JReal\<close> any
  other number (no field of the crate accepts one). Object members keep their order and
  their duplicates.
\<close>

datatype json =
    JNull
  | JBool bool
  | JNum int
  | JReal string
  | JStr string
  | JArr "json list"
  | JObj "(string \<times> json) list"

fun json_plain :: "json \<Rightarrow> bool" where
  "json_plain (JReal _) = False"
| "json_plain (JArr js) = (\<forall>j \<in> set js. json_plain j)"
| "json_plain (JObj kvs) = (\<forall>kv \<in> set kvs. json_plain (snd kv))"
| "json_plain _ = True"

section \<open>The crates behind the codecs\<close>

record codecs =
  b64_encode :: "bytes \<Rightarrow> string"
  b64_decode :: "string \<Rightarrow> string + bytes"
  hex_encode :: "bytes \<Rightarrow> string"
  hex_decode :: "string \<Rightarrow> string + bytes"
  bs58_encode :: "bytes \<Rightarrow> string"
  keccak256 :: "bytes \<Rightarrow> bytes"
  json_print :: "json \<Rightarrow> string + string"
  json_parse :: "bytes \<Rightarrow> serde_error + json"

definition b64_law :: "codecs \<Rightarrow> bool" where
  "b64_law C \<longleftrightarrow> (\<forall>bs. b64_decode C (b64_encode C bs) = Inr bs)"

definition lower_hex_digit :: "char \<Rightarrow> bool" where
  "lower_hex_digit c \<longleftrightarrow> c \<in> set ''0123456789abcdef''"

definition hex_law :: "codecs \<Rightarrow> bool" where
  "hex_law C \<longleftrightarrow>
     (\<forall>bs. hex_decode C (hex_encode C bs) = Inr bs
         \<and> length (hex_encode C bs) = 2 * length bs
         \<and> list_all lower_hex_digit (hex_encode C bs))"

definition keccak_law :: "codecs \<Rightarrow> bool" where
  "keccak_law C \<longleftrightarrow> (\<forall>bs. length (keccak256 C bs) = 32)"

text \<open>
  The JSON law asks for the round trip of every plain value. serde_json gives it for what Rust can
  print: its strings are UTF-8 and its parser stops at a nesting of 128. A HOL value may be deeper
  or hold other strings, so that there the law asks for more than is documented; the values the
  code prints nest two deep.
\<close>

definition json_law :: "codecs \<Rightarrow> bool" where
  "json_law C \<longleftrightarrow>
     (\<forall>j. json_plain j \<longrightarrow>
        (\<exists>s. json_print C j = Inr s \<and> json_parse C (as_bytes s) = Inr j))"

lemma b64_decode_encode [codec_simps]: "b64_law C \<Longrightarrow> b64_decode C (b64_encode C bs) = Inr bs"
  by (simp add: b64_law_def)

lemma hex_decode_encode [codec_simps]: "hex_law C \<Longrightarrow> hex_decode C (hex_encode C bs) = Inr bs"
  by (simp add: hex_law_def)

lemma length_hex_encode [codec_simps]: "hex_law C \<Longrightarrow> length (hex_encode C bs) = 2 * length bs"
  by (simp add: hex_law_def)

lemma hex_encode_digits: "hex_law C \<Longrightarrow> c \<in> set (hex_encode C bs) \<Longrightarrow> lower_hex_digit c"
  by (simp add: hex_law_def list_all_iff)

lemma hex_encode_inject [codec_simps]:
  "hex_law C \<Longrightarrow> hex_encode C xs = hex_encode C ys \<longleftrightarrow> xs = ys"
  by (metis hex_decode_encode sum.inject(2))

lemma json_lawE:
  assumes "json_law C" and "json_plain j"
  obtains s where "json_print C j = Inr s" and "json_parse C (as_bytes s) = Inr j"
  using assms by (auto simp: json_law_def)

section \<open>serde\<close>

text \<open>\<open>serde_json::from_slice\<close>, \<open>from_str\<close> and \<open>to_string\<close> for a type with the given
  deserialiser or serialiser.\<close>

definition from_slice :: "codecs \<Rightarrow> (json \<Rightarrow> serde_error + 'a) \<Rightarrow> bytes \<Rightarrow> serde_error + 'a" where
  "from_slice C dec bs = andThen (json_parse C bs) dec"

definition from_str :: "codecs \<Rightarrow> (json \<Rightarrow> serde_error + 'a) \<Rightarrow> string \<Rightarrow> serde_error + 'a" where
  "from_str C dec s = from_slice C dec (as_bytes s)"

text \<open>\<open>serde_json::to_string(..).map_err(|e| e.to_string())\<close>.\<close>

definition to_json_string :: "codecs \<Rightarrow> json \<Rightarrow> string res" where
  "to_json_string C j = (case json_print C j of Inl e \<Rightarrow> Inl (Msg e) | Inr s \<Rightarrow> Inr s)"

text \<open>
  What \<open>derive(Deserialize)\<close> makes of a struct: from an object, each field by its name, a
  repeated known name being an error and unknown names ignored; from an array, the fields by
  position.
\<close>

definition obj_field :: "(string \<times> json) list \<Rightarrow> string \<Rightarrow> serde_error + json option" where
  "obj_field kvs k =
     (case map snd (filter (\<lambda>kv. fst kv = k) kvs) of
        [] \<Rightarrow> Inr None
      | [v] \<Rightarrow> Inr (Some v)
      | _ \<Rightarrow> Inl (DuplicateField k))"

definition struct_fields :: "string list \<Rightarrow> json \<Rightarrow> serde_error + json option list" where
  "struct_fields names j =
     (case j of
        JObj kvs \<Rightarrow> collect_results (obj_field kvs) names
      | JArr vs \<Rightarrow>
          (if length vs = length names then Inr (map Some vs) else Inl InvalidLength)
      | _ \<Rightarrow> Inl (InvalidType ''struct''))"

definition required :: "string \<Rightarrow> (json \<Rightarrow> serde_error + 'a) \<Rightarrow> json option \<Rightarrow> serde_error + 'a" where
  "required k dec v = (case v of None \<Rightarrow> Inl (MissingField k) | Some j \<Rightarrow> dec j)"

text \<open>An \<open>Option\<close> field: absent or \<open>null\<close> is \<open>None\<close>.\<close>

definition optional :: "(json \<Rightarrow> serde_error + 'a) \<Rightarrow> json option \<Rightarrow> serde_error + 'a option" where
  "optional dec v =
     (case v of
        None \<Rightarrow> Inr None
      | Some JNull \<Rightarrow> Inr None
      | Some j \<Rightarrow> (case dec j of Inl e \<Rightarrow> Inl e | Inr x \<Rightarrow> Inr (Some x)))"

fun dec_string :: "json \<Rightarrow> serde_error + string" where
  "dec_string (JStr s) = Inr s"
| "dec_string _ = Inl (InvalidType ''string'')"

fun dec_u8 :: "json \<Rightarrow> serde_error + byte" where
  "dec_u8 (JNum i) =
     (if 0 \<le> i \<and> i \<le> 255 then Inr (word_of_int i) else Inl (InvalidType ''u8''))"
| "dec_u8 _ = Inl (InvalidType ''u8'')"

fun dec_string_list :: "json \<Rightarrow> serde_error + string list" where
  "dec_string_list (JArr js) = collect_results dec_string js"
| "dec_string_list _ = Inl (InvalidType ''sequence'')"

text \<open>Serialisers of the field types, and of a field under \<open>skip_serializing_if\<close>.\<close>

definition json_u8 :: "byte \<Rightarrow> json" where
  "json_u8 b = JNum (uint b)"

definition json_i32 :: "i32 \<Rightarrow> json" where
  "json_i32 i = JNum (sint i)"

definition json_option :: "('a \<Rightarrow> json) \<Rightarrow> 'a option \<Rightarrow> json" where
  "json_option enc v = (case v of None \<Rightarrow> JNull | Some x \<Rightarrow> enc x)"

definition skip_none :: "string \<Rightarrow> ('a \<Rightarrow> json) \<Rightarrow> 'a option \<Rightarrow> (string \<times> json) list" where
  "skip_none k enc v = (case v of None \<Rightarrow> [] | Some x \<Rightarrow> [(k, enc x)])"

lemma dec_u8_json [simp]: "dec_u8 (json_u8 b) = Inr b"
proof -
  have "uint b < 256"
    by (rule order_less_le_trans [OF unsigned_less]) simp
  then show ?thesis
    by (simp add: json_u8_def)
qed

lemma json_plain_fields [simp]:
  "json_plain (json_u8 b)"
  "json_plain (json_option JStr v)"
  "json_plain (json_option json_u8 w)"
  by (simp_all add: json_u8_def json_option_def split: option.split)

lemma dec_string_list_map [simp]: "dec_string_list (JArr (map JStr ss)) = Inr ss"
  by (simp add: collect_results_map)

lemma json_option_neq:
  "json_option JStr v = JNull \<longleftrightarrow> v = None"
  "json_option json_u8 w = JNull \<longleftrightarrow> w = None"
  by (simp_all add: json_option_def json_u8_def split: option.split)

lemma optional_simps [simp]:
  "optional dec None = Inr None"
  "optional dec (Some JNull) = Inr None"
  "optional dec_string (Some (JStr s)) = Inr (Some s)"
  "optional dec_u8 (Some (json_u8 b)) = Inr (Some b)"
  "optional dec_string_list (Some (JArr (map JStr ss))) = Inr (Some ss)"
  using dec_u8_json [of b]
  by (simp_all add: optional_def json_u8_def collect_results_map)

lemma required_simps [simp]:
  "required k dec None = Inl (MissingField k)"
  "required k dec (Some j) = dec j"
  by (simp_all add: required_def)

lemma optional_json_option [simp]:
  "optional dec_string (Some (json_option JStr v)) = Inr v"
  "optional dec_u8 (Some (json_option json_u8 w)) = Inr w"
  by (simp_all add: json_option_def split: option.split)

lemma skip_none_simps [simp]:
  "skip_none k enc None = []"
  "skip_none k enc (Some x) = [(k, enc x)]"
  by (simp_all add: skip_none_def)

lemma from_str_print:
  assumes "json_print C j = Inr s" and "json_parse C (as_bytes s) = Inr j"
  shows "to_json_string C j = Inr s" and "from_str C dec s = dec j"
    and "from_slice C dec (as_bytes s) = dec j"
  using assms by (simp_all add: to_json_string_def from_str_def from_slice_def)

text \<open>
  The interface of a type that is both serialised and deserialised: its JSON value decodes
  to it. What a text round trip gives for every such type is proved once here.
\<close>

locale serde_type =
  fixes enc :: "'a \<Rightarrow> json" and dec :: "json \<Rightarrow> serde_error + 'a"
  assumes dec_enc: "dec (enc x) = Inr x"
    and enc_plain: "json_plain (enc x)"
begin

lemma text_roundtrip:
  assumes "json_law C"
  shows "\<exists>s. to_json_string C (enc x) = Inr s \<and> from_str C dec s = Inr x
           \<and> from_slice C dec (as_bytes s) = Inr x"
proof -
  from assms enc_plain obtain s
    where "json_print C (enc x) = Inr s" and "json_parse C (as_bytes s) = Inr (enc x)"
    by (rule json_lawE)
  then show ?thesis
    by (auto simp: from_str_print dec_enc)
qed

lemma from_str_inverts:
  assumes "json_law C" and "to_json_string C (enc x) = Inr s"
  shows "from_str C dec s = Inr x" and "from_slice C dec (as_bytes s) = Inr x"
  using text_roundtrip [OF assms(1), of x] assms(2) by auto

lemma to_string_total:
  assumes "json_law C"
  obtains s where "to_json_string C (enc x) = Inr s"
  using text_roundtrip [OF assms, of x] by blast

end

end
