(* ===== verification/Example_Codecs.thy ===== *)
theory Example_Codecs
  imports Codecs
begin

text \<open>
  Concrete codecs for which the laws of \<open>Codecs\<close> are proved, at which the theorems with such
  hypotheses are applied: lower case hex, a tagged prefix format for JSON values, the
  identity in the place of base64 and base58, and a padding in the place of the hash.
\<close>

section \<open>Hex\<close>

definition hex_digit :: "nat \<Rightarrow> char" where
  "hex_digit n = char_of (if n < 10 then n + 48 else n + 87)"

definition hex_value :: "char \<Rightarrow> nat option" where
  "hex_value c =
     (let n = of_char c :: nat
      in if 48 \<le> n \<and> n \<le> 57 then Some (n - 48)
         else if 97 \<le> n \<and> n \<le> 102 then Some (n - 87) else None)"

fun ex_hex_encode :: "bytes \<Rightarrow> string" where
  "ex_hex_encode [] = []"
| "ex_hex_encode (b # bs) = hex_digit (unat b div 16) # hex_digit (unat b mod 16) # ex_hex_encode bs"

fun ex_hex_decode :: "string \<Rightarrow> string + bytes" where
  "ex_hex_decode [] = Inr []"
| "ex_hex_decode [c] = Inl ''odd number of digits''"
| "ex_hex_decode (c # d # s) =
     (case (hex_value c, hex_value d) of
        (Some m, Some n) \<Rightarrow>
          (case ex_hex_decode s of Inl e \<Rightarrow> Inl e | Inr bs \<Rightarrow> Inr (word_of_nat (16 * m + n) # bs))
      | _ \<Rightarrow> Inl ''invalid character'')"

lemma of_char_hex_digit: "n < 16 \<Longrightarrow> of_char (hex_digit n) = (if n < 10 then n + 48 else n + 87 :: nat)"
  by (simp add: hex_digit_def)

lemma hex_value_digit: "n < 16 \<Longrightarrow> hex_value (hex_digit n) = Some n"
  by (simp add: hex_value_def of_char_hex_digit)

lemma lower_hex_digit_digit: "n < 16 \<Longrightarrow> lower_hex_digit (hex_digit n)"
proof -
  assume "n < 16"
  then have "n \<in> set [0..<16]" by simp
  moreover have "list_all (\<lambda>n. lower_hex_digit (hex_digit n)) [0..<16]"
    by code_simp
  ultimately show ?thesis by (simp only: list_all_iff)
qed

lemma ex_hex_bytes:
  "ex_hex_decode (ex_hex_encode bs) = Inr bs \<and> length (ex_hex_encode bs) = 2 * length bs
   \<and> list_all lower_hex_digit (ex_hex_encode bs)"
proof (induction bs)
  case (Cons b bs)
  have "unat b < 256"
    by (rule order_less_le_trans [OF unsigned_less]) simp
  with Cons show ?case
    by (simp add: hex_value_digit lower_hex_digit_digit less_mult_imp_div_less)
qed simp

section \<open>JSON\<close>

fun put_str :: "string \<Rightarrow> string" where
  "put_str [] = ''.''"
| "put_str (c # cs) = CHR ''c'' # c # put_str cs"

fun get_str :: "string \<Rightarrow> (string \<times> string) option" where
  "get_str (t # r) =
     (if t = CHR ''.'' then Some ([], r)
      else case r of
        c # r' \<Rightarrow> (case get_str r' of Some (s, r'') \<Rightarrow> Some (c # s, r'') | None \<Rightarrow> None)
      | [] \<Rightarrow> None)"
| "get_str [] = None"

fun put_nat :: "nat \<Rightarrow> string" where
  "put_nat 0 = ''.''"
| "put_nat (Suc n) = CHR ''1'' # put_nat n"

fun get_nat :: "string \<Rightarrow> (nat \<times> string) option" where
  "get_nat (t # r) =
     (if t = CHR ''.'' then Some (0, r)
      else case get_nat r of Some (n, r') \<Rightarrow> Some (Suc n, r') | None \<Rightarrow> None)"
| "get_nat [] = None"

fun put_json :: "json \<Rightarrow> string" where
  "put_json JNull = ''n''"
| "put_json (JBool b) = (if b then ''t'' else ''f'')"
| "put_json (JNum i) = (if i < 0 then CHR ''-'' else CHR ''+'') # put_nat (nat \<bar>i\<bar>)"
| "put_json (JReal s) = CHR ''r'' # put_str s"
| "put_json (JStr s) = CHR ''s'' # put_str s"
| "put_json (JArr js) = CHR ''a'' # concat (map (\<lambda>j. CHR ''e'' # put_json j) js) @ ''.''"
| "put_json (JObj kvs) =
     CHR ''o'' # concat (map (\<lambda>kv. CHR ''m'' # put_str (fst kv) @ put_json (snd kv)) kvs) @ ''.''"

definition map_fst :: "('a \<Rightarrow> 'b) \<Rightarrow> ('a \<times> 'c) option \<Rightarrow> ('b \<times> 'c) option" where
  "map_fst f v = map_option (map_prod f id) v"

lemma map_fst_simps [simp]:
  "map_fst f None = None"
  "map_fst f (Some (a, r)) = Some (f a, r)"
  by (simp_all add: map_fst_def)

fun get_json :: "nat \<Rightarrow> string \<Rightarrow> (json \<times> string) option"
  and get_list :: "nat \<Rightarrow> string \<Rightarrow> (json list \<times> string) option"
  and get_members :: "nat \<Rightarrow> string \<Rightarrow> ((string \<times> json) list \<times> string) option" where
  "get_json (Suc n) (t # r) =
     (if t = CHR ''n'' then Some (JNull, r)
      else if t = CHR ''t'' then Some (JBool True, r)
      else if t = CHR ''f'' then Some (JBool False, r)
      else if t = CHR ''+'' then map_fst (\<lambda>k. JNum (int k)) (get_nat r)
      else if t = CHR ''-'' then map_fst (\<lambda>k. JNum (- int k)) (get_nat r)
      else if t = CHR ''r'' then map_fst JReal (get_str r)
      else if t = CHR ''s'' then map_fst JStr (get_str r)
      else if t = CHR ''a'' then map_fst JArr (get_list n r)
      else if t = CHR ''o'' then map_fst JObj (get_members n r)
      else None)"
| "get_json _ _ = None"
| "get_list (Suc n) (t # r) =
     (if t = CHR ''.'' then Some ([], r)
      else case get_json n r of
        Some (j, r') \<Rightarrow> map_fst (\<lambda>js. j # js) (get_list n r')
      | None \<Rightarrow> None)"
| "get_list _ _ = None"
| "get_members (Suc n) (t # r) =
     (if t = CHR ''.'' then Some ([], r)
      else case get_str r of
        Some (k, r') \<Rightarrow>
          (case get_json n r' of
             Some (j, r'') \<Rightarrow> map_fst (\<lambda>kvs. (k, j) # kvs) (get_members n r'')
           | None \<Rightarrow> None)
      | None \<Rightarrow> None)"
| "get_members _ _ = None"

lemma get_put_str [simp]: "get_str (put_str s @ r) = Some (s, r)"
  by (induction s) simp_all

lemma get_put_nat [simp]: "get_nat (put_nat n @ r) = Some (n, r)"
  by (induction n) simp_all

lemma get_put_list:
  assumes "\<And>j n r. j \<in> set js \<Longrightarrow> length (put_json j) \<le> n \<Longrightarrow> get_json n (put_json j @ r) = Some (j, r)"
    and "length (concat (map (\<lambda>j. CHR ''e'' # put_json j) js)) < n"
  shows "get_list n (concat (map (\<lambda>j. CHR ''e'' # put_json j) js) @ CHR ''.'' # r) = Some (js, r)"
  using assms
proof (induction js arbitrary: n)
  case Nil
  then show ?case by (cases n) simp_all
next
  case (Cons j js)
  obtain m where n: "n = Suc m" using Cons.prems(2) by (cases n) auto
  have "get_json m (put_json j @ rest) = Some (j, rest)" for rest
    using Cons.prems n by simp
  moreover have "get_list m (concat (map (\<lambda>j. CHR ''e'' # put_json j) js) @ CHR ''.'' # r) = Some (js, r)"
    using Cons.prems n by (intro Cons.IH) simp_all
  ultimately show ?case
    by (simp add: n)
qed

lemma get_put_members:
  assumes "\<And>k j n r. (k, j) \<in> set kvs \<Longrightarrow> length (put_json j) \<le> n \<Longrightarrow>
             get_json n (put_json j @ r) = Some (j, r)"
    and "length (concat (map (\<lambda>kv. CHR ''m'' # put_str (fst kv) @ put_json (snd kv)) kvs)) < n"
  shows "get_members n
           (concat (map (\<lambda>kv. CHR ''m'' # put_str (fst kv) @ put_json (snd kv)) kvs) @ CHR ''.'' # r) =
         Some (kvs, r)"
  using assms
proof (induction kvs arbitrary: n)
  case Nil
  then show ?case by (cases n) simp_all
next
  case (Cons kv kvs)
  obtain k j where kv: "kv = (k, j)" by (cases kv)
  obtain m where n: "n = Suc m" using Cons.prems(2) by (cases n) auto
  have "get_json m (put_json j @ rest) = Some (j, rest)" for rest
    by (rule Cons.prems(1) [of k]) (use Cons.prems(2) kv n in simp_all)
  moreover have "get_members m
      (concat (map (\<lambda>kv. CHR ''m'' # put_str (fst kv) @ put_json (snd kv)) kvs) @ CHR ''.'' # r) =
      Some (kvs, r)"
  proof (rule Cons.IH)
    show "get_json u (put_json i @ s) = Some (i, s)"
      if "(h, i) \<in> set kvs" "length (put_json i) \<le> u" for h i u s
      by (rule Cons.prems(1) [of h]) (use that in simp_all)
  qed (use Cons.prems(2) kv n in simp)
  ultimately show ?case
    by (simp add: kv n)
qed

lemma get_put_json: "length (put_json j) \<le> n \<Longrightarrow> get_json n (put_json j @ r) = Some (j, r)"
proof (induction j arbitrary: n r)
  case (JArr js)
  then show ?case
    using get_put_list [of js] by (cases n) simp_all
next
  case (JObj kvs)
  have "get_json m (put_json j @ s) = Some (j, s)"
    if "(k, j) \<in> set kvs" "length (put_json j) \<le> m" for k j m s
    using JObj.IH [of "(k, j)" j] that by simp
  with JObj.prems get_put_members [of kvs] show ?case
    by (cases n) simp_all
next
  case JNull
  then show ?case by (cases n) simp_all
next
  case (JBool b)
  then show ?case by (cases n) (simp_all split: if_splits)
next
  case (JNum i)
  then show ?case by (cases n) simp_all
next
  case (JReal s)
  then show ?case by (cases n) simp_all
next
  case (JStr s)
  then show ?case by (cases n) simp_all
qed

section \<open>The codecs\<close>

definition ex_json_parse :: "bytes \<Rightarrow> serde_error + json" where
  "ex_json_parse bs =
     (case get_json (length bs) (string_of_bytes bs) of
        Some (j, []) \<Rightarrow> Inr j
      | _ \<Rightarrow> Inl (Syntax ''expected value''))"

definition ex_codecs :: codecs where
  "ex_codecs =
     \<lparr>b64_encode = string_of_bytes, b64_decode = (\<lambda>s. Inr (as_bytes s)),
      hex_encode = ex_hex_encode, hex_decode = ex_hex_decode,
      bs58_encode = string_of_bytes,
      keccak256 = (\<lambda>bs. take 32 (bs @ replicate 32 0)),
      json_print = (\<lambda>j. Inr (put_json j)), json_parse = ex_json_parse\<rparr>"

lemma ex_b64_law: "b64_law ex_codecs"
  by (simp add: b64_law_def ex_codecs_def)

lemma ex_hex_law: "hex_law ex_codecs"
  by (simp add: hex_law_def ex_codecs_def ex_hex_bytes)

lemma ex_keccak_law: "keccak_law ex_codecs"
  by (auto simp: keccak_law_def ex_codecs_def min_def)

lemma ex_json_law: "json_law ex_codecs"
  using get_put_json [where r = "[]"]
  by (simp add: json_law_def ex_codecs_def ex_json_parse_def)

lemmas ex_laws = ex_b64_law ex_hex_law ex_keccak_law ex_json_law

end
