(* ===== verification/Api_Types.thy ===== *)
theory Api_Types
  imports Codecs Example_Codecs
begin

text \<open>
  The shared types of \<open>rust/src/api/types.rs\<close>: the curve tag, the keyshare envelope, the wire
  envelope, the result payloads and the message digest, with their constructors, their serde
  forms and the operations on them.
\<close>

section \<open>Curve\<close>

datatype curve = Secp256k1 | Ed25519

fun curve_as_str :: "curve \<Rightarrow> string" where
  "curve_as_str Secp256k1 = ''secp256k1''"
| "curve_as_str Ed25519 = ''ed25519''"

definition curve_parse :: "string \<Rightarrow> curve res" where
  "curve_parse s =
     (if s = ''secp256k1'' \<or> s = '''' then Inr Secp256k1
      else if s = ''ed25519'' then Inr Ed25519
      else Inl (UnsupportedCurve s))"

lemma curve_parse_as_str [simp]: "curve_parse (curve_as_str c) = Inr c"
  by (cases c) (simp_all add: curve_parse_def)

lemma curve_parse_cases:
  "curve_parse s = Inr Ed25519 \<longleftrightarrow> s = ''ed25519''"
  "curve_parse s = Inr Secp256k1 \<longleftrightarrow> s = ''secp256k1'' \<or> s = ''''"
  by (auto simp: curve_parse_def)

section \<open>ShareEnvelope\<close>

record share_envelope =
  se_v :: byte
  se_curve :: string
  se_share :: string

definition share_envelope_json :: "share_envelope \<Rightarrow> json" where
  "share_envelope_json e =
     JObj [(''v'', json_u8 (se_v e)), (''curve'', JStr (se_curve e)), (''share'', JStr (se_share e))]"

definition dec_share_envelope :: "json \<Rightarrow> serde_error + share_envelope" where
  "dec_share_envelope j =
     andThen (struct_fields [''v'', ''curve'', ''share''] j) (\<lambda>fs.
     andThen (required ''v'' dec_u8 (fs ! 0)) (\<lambda>v.
     andThen (required ''curve'' dec_string (fs ! 1)) (\<lambda>c.
     andThen (required ''share'' dec_string (fs ! 2)) (\<lambda>s.
       Inr \<lparr>se_v = v, se_curve = c, se_share = s\<rparr>))))"

definition share_envelope_new :: "codecs \<Rightarrow> curve \<Rightarrow> bytes \<Rightarrow> share_envelope" where
  "share_envelope_new C c share_bytes =
     \<lparr>se_v = 2, se_curve = curve_as_str c, se_share = b64_encode C share_bytes\<rparr>"

definition share_envelope_encode :: "codecs \<Rightarrow> share_envelope \<Rightarrow> string res" where
  "share_envelope_encode C e =
     andThen (to_json_string C (share_envelope_json e)) (\<lambda>js. Inr (b64_encode C (as_bytes js)))"

definition share_envelope_decode :: "codecs \<Rightarrow> string \<Rightarrow> (curve \<times> bytes) res" where
  "share_envelope_decode C s =
     andThen (wrap_err ''base64 decode keyshare'' (b64_decode C s)) (\<lambda>raw.
       case from_slice C dec_share_envelope raw of
         Inr env \<Rightarrow>
           andThen (curve_parse (se_curve env)) (\<lambda>c.
           andThen (wrap_err ''base64 decode envelope.share'' (b64_decode C (se_share env)))
             (\<lambda>share_bytes. Inr (c, share_bytes)))
       | Inl _ \<Rightarrow> Inr (Secp256k1, raw))"

interpretation share_envelope: serde_type share_envelope_json dec_share_envelope
  by unfold_locales
     (simp_all add: dec_share_envelope_def share_envelope_json_def struct_fields_def obj_field_def)

section \<open>Result payloads\<close>

record mpc_round_result =
  mr_status :: string
  mr_round :: i32
  mr_client_payload :: "string option"
  mr_error_message :: "string option"

definition mpc_round_result_json :: "mpc_round_result \<Rightarrow> json" where
  "mpc_round_result_json r =
     JObj [(''status'', JStr (mr_status r)), (''round'', json_i32 (mr_round r)),
           (''client_payload'', json_option JStr (mr_client_payload r)),
           (''error_message'', json_option JStr (mr_error_message r))]"

record backup_envelope =
  be_version :: string
  be_algorithm :: string
  be_created_at :: string
  be_payload :: string

definition backup_envelope_json :: "backup_envelope \<Rightarrow> json" where
  "backup_envelope_json e =
     JObj [(''version'', JStr (be_version e)), (''algorithm'', JStr (be_algorithm e)),
           (''created_at'', JStr (be_created_at e)), (''payload'', JStr (be_payload e))]"

definition dec_backup_envelope :: "json \<Rightarrow> serde_error + backup_envelope" where
  "dec_backup_envelope j =
     andThen (struct_fields [''version'', ''algorithm'', ''created_at'', ''payload''] j) (\<lambda>fs.
     andThen (required ''version'' dec_string (fs ! 0)) (\<lambda>v.
     andThen (required ''algorithm'' dec_string (fs ! 1)) (\<lambda>a.
     andThen (required ''created_at'' dec_string (fs ! 2)) (\<lambda>c.
     andThen (required ''payload'' dec_string (fs ! 3)) (\<lambda>p.
       Inr \<lparr>be_version = v, be_algorithm = a, be_created_at = c, be_payload = p\<rparr>)))))"

interpretation backup_envelope: serde_type backup_envelope_json dec_backup_envelope
  by unfold_locales
     (simp_all add: dec_backup_envelope_def backup_envelope_json_def struct_fields_def obj_field_def)

record decrypt_backup_result =
  dr_device_backup_share :: string

definition decrypt_backup_result_json :: "decrypt_backup_result \<Rightarrow> json" where
  "decrypt_backup_result_json r = JObj [(''device_backup_share'', JStr (dr_device_backup_share r))]"

record keygen_completed_payload =
  kc_mpc_key_id :: string
  kc_address :: string
  kc_public_key :: string
  kc_curve :: string
  kc_threshold :: i32
  kc_key_ref :: string
  kc_backup_state :: string
  kc_rotation_version :: i32
  kc_local_encrypted_share :: string

definition keygen_completed_json :: "keygen_completed_payload \<Rightarrow> json" where
  "keygen_completed_json p =
     JObj [(''mpc_key_id'', JStr (kc_mpc_key_id p)), (''address'', JStr (kc_address p)),
           (''public_key'', JStr (kc_public_key p)), (''curve'', JStr (kc_curve p)),
           (''threshold'', json_i32 (kc_threshold p)), (''key_ref'', JStr (kc_key_ref p)),
           (''backup_state'', JStr (kc_backup_state p)),
           (''rotation_version'', json_i32 (kc_rotation_version p)),
           (''local_encrypted_share'', JStr (kc_local_encrypted_share p))]"

record recovery_completed_payload =
  rc_mpc_key_id :: string
  rc_address :: string
  rc_public_key :: string
  rc_rotation_version :: i32
  rc_local_encrypted_share :: string

definition recovery_completed_json :: "recovery_completed_payload \<Rightarrow> json" where
  "recovery_completed_json p =
     JObj [(''mpc_key_id'', JStr (rc_mpc_key_id p)), (''address'', JStr (rc_address p)),
           (''public_key'', JStr (rc_public_key p)),
           (''rotation_version'', json_i32 (rc_rotation_version p)),
           (''local_encrypted_share'', JStr (rc_local_encrypted_share p))]"

record sign_completed_payload =
  sc_r :: string
  sc_s :: string
  sc_recid :: "byte option"
  sc_curve :: string

definition default_curve_secp :: string where
  "default_curve_secp = ''secp256k1''"

definition sign_completed_json :: "sign_completed_payload \<Rightarrow> json" where
  "sign_completed_json p =
     JObj ([(''r'', JStr (sc_r p)), (''s'', JStr (sc_s p))]
           @ skip_none ''recid'' json_u8 (sc_recid p)
           @ [(''curve'', JStr (sc_curve p))])"

text \<open>
  The deserialiser of the same struct: \<open>curve\<close> has a default, which an object may use by
  leaving the member out and an array by being one element short.
\<close>

definition dec_sign_completed :: "json \<Rightarrow> serde_error + sign_completed_payload" where
  "dec_sign_completed j =
     andThen (struct_fields [''r'', ''s'', ''recid'', ''curve'']
                (case j of JArr vs \<Rightarrow>
                   (if length vs = 3 then JArr (vs @ [JStr default_curve_secp]) else j) | _ \<Rightarrow> j)) (\<lambda>fs.
     andThen (required ''r'' dec_string (fs ! 0)) (\<lambda>r.
     andThen (required ''s'' dec_string (fs ! 1)) (\<lambda>s.
     andThen (optional dec_u8 (fs ! 2)) (\<lambda>recid.
     andThen (case fs ! 3 of None \<Rightarrow> Inr default_curve_secp | Some v \<Rightarrow> dec_string v) (\<lambda>c.
       Inr \<lparr>sc_r = r, sc_s = s, sc_recid = recid, sc_curve = c\<rparr>)))))"

interpretation sign_completed: serde_type sign_completed_json dec_sign_completed
proof
  fix p :: sign_completed_payload
  show "dec_sign_completed (sign_completed_json p) = Inr p"
    by (cases "sc_recid p")
       (simp_all add: dec_sign_completed_def sign_completed_json_def struct_fields_def obj_field_def)
  show "json_plain (sign_completed_json p)"
    by (cases "sc_recid p") (simp_all add: sign_completed_json_def)
qed

record export_result =
  er_private_key :: string
  er_address :: string
  er_exported :: bool

definition export_result_json :: "export_result \<Rightarrow> json" where
  "export_result_json r =
     JObj [(''private_key'', JStr (er_private_key r)), (''address'', JStr (er_address r)),
           (''exported'', JBool (er_exported r))]"

lemma payload_json_plain [simp]:
  "json_plain (mpc_round_result_json r)"
  "json_plain (decrypt_backup_result_json d)"
  "json_plain (keygen_completed_json k)"
  "json_plain (recovery_completed_json c)"
  "json_plain (export_result_json x)"
  by (simp_all add: mpc_round_result_json_def decrypt_backup_result_json_def
        keygen_completed_json_def recovery_completed_json_def export_result_json_def
        json_i32_def)

section \<open>WireEnvelope\<close>

datatype protocol_type = Dkg | Dsg | Rotation

fun protocol_str :: "protocol_type \<Rightarrow> string" where
  "protocol_str Dkg = ''dkg''"
| "protocol_str Dsg = ''dsg''"
| "protocol_str Rotation = ''rotation''"

definition protocol_of_str :: "string \<Rightarrow> serde_error + protocol_type" where
  "protocol_of_str s =
     (if s = ''dkg'' then Inr Dkg else if s = ''dsg'' then Inr Dsg
      else if s = ''rotation'' then Inr Rotation else Inl (InvalidType ''variant''))"

text \<open>serde writes a unit variant as its name and reads the name, or the name with \<open>null\<close>.\<close>

fun dec_protocol :: "json \<Rightarrow> serde_error + protocol_type" where
  "dec_protocol (JStr s) = protocol_of_str s"
| "dec_protocol (JObj [(s, JNull)]) = protocol_of_str s"
| "dec_protocol _ = Inl (InvalidType ''variant'')"

record wire_envelope =
  we_session_id :: string
  we_protocol :: protocol_type
  we_round :: byte
  we_from_id :: byte
  we_to_id :: "byte option"
  we_payload_encoding :: string
  we_payload :: string
  we_step :: "string option"
  we_payloads :: "string list option"
  we_curve :: "string option"

definition wire_envelope_json :: "wire_envelope \<Rightarrow> json" where
  "wire_envelope_json e =
     JObj ([(''session_id'', JStr (we_session_id e)),
            (''protocol'', JStr (protocol_str (we_protocol e))),
            (''round'', json_u8 (we_round e)),
            (''from_id'', json_u8 (we_from_id e)),
            (''to_id'', json_option json_u8 (we_to_id e)),
            (''payload_encoding'', JStr (we_payload_encoding e)),
            (''payload'', JStr (we_payload e))]
           @ skip_none ''step'' JStr (we_step e)
           @ skip_none ''payloads'' (\<lambda>ps. JArr (map JStr ps)) (we_payloads e)
           @ skip_none ''curve'' JStr (we_curve e))"

definition dec_wire_envelope :: "json \<Rightarrow> serde_error + wire_envelope" where
  "dec_wire_envelope j =
     andThen (struct_fields [''session_id'', ''protocol'', ''round'', ''from_id'', ''to_id'',
                ''payload_encoding'', ''payload'', ''step'', ''payloads'', ''curve''] j) (\<lambda>fs.
     andThen (required ''session_id'' dec_string (fs ! 0)) (\<lambda>sid.
     andThen (required ''protocol'' dec_protocol (fs ! 1)) (\<lambda>prot.
     andThen (required ''round'' dec_u8 (fs ! 2)) (\<lambda>rnd.
     andThen (required ''from_id'' dec_u8 (fs ! 3)) (\<lambda>from_id.
     andThen (optional dec_u8 (fs ! 4)) (\<lambda>to_id.
     andThen (required ''payload_encoding'' dec_string (fs ! 5)) (\<lambda>penc.
     andThen (required ''payload'' dec_string (fs ! 6)) (\<lambda>payload.
     andThen (optional dec_string (fs ! 7)) (\<lambda>step.
     andThen (optional dec_string_list (fs ! 8)) (\<lambda>payloads.
     andThen (optional dec_string (fs ! 9)) (\<lambda>crv.
       Inr \<lparr>we_session_id = sid, we_protocol = prot, we_round = rnd, we_from_id = from_id,
            we_to_id = to_id, we_payload_encoding = penc, we_payload = payload, we_step = step,
            we_payloads = payloads, we_curve = crv\<rparr>)))))))))))"

definition wire_envelope_new ::
  "string \<Rightarrow> protocol_type \<Rightarrow> byte \<Rightarrow> byte \<Rightarrow> byte option \<Rightarrow> string \<Rightarrow> string option
   \<Rightarrow> wire_envelope" where
  "wire_envelope_new session_id protocol rnd from_id to_id payload step =
     \<lparr>we_session_id = session_id, we_protocol = protocol, we_round = rnd, we_from_id = from_id,
      we_to_id = to_id, we_payload_encoding = ''cbor_base64'', we_payload = payload,
      we_step = step, we_payloads = None, we_curve = None\<rparr>"

definition wire_envelope_new_batch ::
  "string \<Rightarrow> protocol_type \<Rightarrow> byte \<Rightarrow> byte \<Rightarrow> byte option \<Rightarrow> string list \<Rightarrow> string option
   \<Rightarrow> wire_envelope" where
  "wire_envelope_new_batch session_id protocol rnd from_id to_id payloads step =
     \<lparr>we_session_id = session_id, we_protocol = protocol, we_round = rnd, we_from_id = from_id,
      we_to_id = to_id, we_payload_encoding = ''cbor_base64'', we_payload = '''',
      we_step = step, we_payloads = Some payloads, we_curve = None\<rparr>"

definition curve_or_default :: "wire_envelope \<Rightarrow> curve" where
  "curve_or_default e =
     (case we_curve e of
        None \<Rightarrow> Secp256k1
      | Some s \<Rightarrow> (case curve_parse s of Inr c \<Rightarrow> c | Inl _ \<Rightarrow> Secp256k1))"

definition decode_all_payloads :: "codecs \<Rightarrow> wire_envelope \<Rightarrow> bytes list res" where
  "decode_all_payloads C e =
     (case we_payloads e of
        Some ps \<Rightarrow> collect_results (\<lambda>p. wrap_err ''base64 decode failed'' (b64_decode C p)) ps
      | None \<Rightarrow>
          andThen (wrap_err ''base64 decode failed'' (b64_decode C (we_payload e)))
            (\<lambda>bs. Inr [bs]))"

interpretation wire_envelope: serde_type wire_envelope_json dec_wire_envelope
proof
  fix e :: wire_envelope
  have "protocol_of_str (protocol_str (we_protocol e)) = Inr (we_protocol e)"
    by (cases "we_protocol e") (simp_all add: protocol_of_str_def)
  then show "dec_wire_envelope (wire_envelope_json e) = Inr e"
    by (cases "we_step e"; cases "we_payloads e"; cases "we_curve e")
       (simp_all add: dec_wire_envelope_def wire_envelope_json_def struct_fields_def obj_field_def
          del: dec_string_list.simps)
  show "json_plain (wire_envelope_json e)"
    by (cases "we_step e"; cases "we_payloads e"; cases "we_curve e")
       (auto simp: wire_envelope_json_def)
qed

section \<open>MessageDigest\<close>

text \<open>The newtype over \<open>[u8; 32]\<close>; its representation has 32 bytes by construction.\<close>

datatype message_digest = MessageDigest (into_bytes: bytes)

definition message_digest_new :: "bytes \<Rightarrow> message_digest" where
  "message_digest_new arr = MessageDigest arr"

definition message_digest_from_hex :: "codecs \<Rightarrow> string \<Rightarrow> message_digest res" where
  "message_digest_from_hex C s =
     andThen (wrap_err ''hex decode failed'' (hex_decode C s)) (\<lambda>bs.
     andThen (ok_or (try_into_array 32 bs) (Msg ''message digest must be exactly 32 bytes''))
       (\<lambda>arr. Inr (message_digest_new arr)))"

section \<open>What a caller reads\<close>

text \<open>
  The two kinds of reply, from the reader's side: a text that parses as a round result whose
  payload is, in turn, the text of a wire envelope or of a completed payload.
\<close>

definition is_continue :: "codecs \<Rightarrow> byte \<Rightarrow> wire_envelope \<Rightarrow> string \<Rightarrow> bool" where
  "is_continue C rnd env s \<longleftrightarrow>
     (\<exists>env_json. json_parse C (as_bytes s) = Inr (mpc_round_result_json
           \<lparr>mr_status = ''continue'', mr_round = ucast rnd, mr_client_payload = Some env_json,
            mr_error_message = None\<rparr>)
        \<and> from_str C dec_wire_envelope env_json = Inr env)"

definition is_completed :: "codecs \<Rightarrow> byte \<Rightarrow> json \<Rightarrow> string \<Rightarrow> bool" where
  "is_completed C rnd payload s \<longleftrightarrow>
     (\<exists>p. json_parse C (as_bytes s) = Inr (mpc_round_result_json
           \<lparr>mr_status = ''completed'', mr_round = ucast rnd, mr_client_payload = Some p,
            mr_error_message = None\<rparr>)
        \<and> json_parse C (as_bytes p) = Inr payload)"

lemma to_json_reads:
  assumes "json_law C" and "json_plain j"
  shows "\<exists>s. to_json_string C j = Inr s \<and> json_parse C (as_bytes s) = Inr j"
  using json_lawE [OF assms] by (metis from_str_print(1))

lemma continue_reads:
  assumes "json_law C"
  shows "\<exists>s. andThen (to_json_string C (wire_envelope_json env)) (\<lambda>env_json.
           to_json_string C (mpc_round_result_json
             \<lparr>mr_status = ''continue'', mr_round = ucast rnd, mr_client_payload = Some env_json,
              mr_error_message = None\<rparr>)) = Inr s \<and> is_continue C rnd env s"
proof -
  obtain e where e: "to_json_string C (wire_envelope_json env) = Inr e"
    "from_str C dec_wire_envelope e = Inr env"
    using wire_envelope.text_roundtrip [OF assms] by blast
  let ?r = "\<lparr>mr_status = ''continue'', mr_round = ucast rnd, mr_client_payload = Some e,
              mr_error_message = None\<rparr>"
  obtain s where "to_json_string C (mpc_round_result_json ?r) = Inr s"
    "json_parse C (as_bytes s) = Inr (mpc_round_result_json ?r)"
    using to_json_reads [OF assms payload_json_plain(1)] by blast
  with e show ?thesis
    by (intro exI [of _ s]) (auto simp: is_continue_def)
qed

lemma completed_reads:
  assumes "json_law C" and "json_plain j"
  shows "\<exists>s. andThen (to_json_string C j) (\<lambda>p. to_json_string C (mpc_round_result_json
             \<lparr>mr_status = ''completed'', mr_round = ucast rnd, mr_client_payload = Some p,
              mr_error_message = None\<rparr>)) = Inr s \<and> is_completed C rnd j s"
proof -
  obtain p where p: "to_json_string C j = Inr p" "json_parse C (as_bytes p) = Inr j"
    using to_json_reads [OF assms] by blast
  let ?r = "\<lparr>mr_status = ''completed'', mr_round = ucast rnd, mr_client_payload = Some p,
              mr_error_message = None\<rparr>"
  obtain s where "to_json_string C (mpc_round_result_json ?r) = Inr s"
    "json_parse C (as_bytes s) = Inr (mpc_round_result_json ?r)"
    using to_json_reads [OF assms(1) payload_json_plain(1)] by blast
  with p show ?thesis
    by (intro exI [of _ s]) (auto simp: is_completed_def)
qed

section \<open>Properties\<close>

text \<open>
  Property C39: a keyshare put into an envelope and encoded decodes to the same curve and
  bytes, and no text decodes as an ed25519 share unless it is an envelope that says so.
\<close>

theorem share_envelope_roundtrip:
  assumes "b64_law C" and "json_law C"
  shows "(\<exists>s. share_envelope_encode C (share_envelope_new C c share_bytes) = Inr s
            \<and> share_envelope_decode C s = Inr (c, share_bytes))
         \<and> (share_envelope_decode C t = Inr (Ed25519, bs) \<longleftrightarrow>
              (\<exists>raw env. b64_decode C t = Inr raw \<and> from_slice C dec_share_envelope raw = Inr env
                 \<and> se_curve env = ''ed25519'' \<and> b64_decode C (se_share env) = Inr bs))"
proof (rule conjI)
  obtain s where "to_json_string C (share_envelope_json (share_envelope_new C c share_bytes)) = Inr s"
    and "from_slice C dec_share_envelope (as_bytes s) = Inr (share_envelope_new C c share_bytes)"
    using share_envelope.text_roundtrip [OF assms(2)] by blast
  with assms(1) show "\<exists>s. share_envelope_encode C (share_envelope_new C c share_bytes) = Inr s
            \<and> share_envelope_decode C s = Inr (c, share_bytes)"
    by (simp add: share_envelope_encode_def share_envelope_decode_def codec_simps)
       (simp add: share_envelope_new_def codec_simps)
  show "share_envelope_decode C t = Inr (Ed25519, bs) \<longleftrightarrow>
          (\<exists>raw env. b64_decode C t = Inr raw \<and> from_slice C dec_share_envelope raw = Inr env
             \<and> se_curve env = ''ed25519'' \<and> b64_decode C (se_share env) = Inr bs)"
  proof (cases "b64_decode C t")
    case (Inr raw)
    then show ?thesis
      by (cases "from_slice C dec_share_envelope raw")
         (auto simp: share_envelope_decode_def curve_parse_cases)
  qed (simp add: share_envelope_decode_def)
qed

theorem share_envelope_roundtrip_witness:
  "\<exists>s. share_envelope_encode ex_codecs (share_envelope_new ex_codecs Ed25519 [1, 2, 3]) = Inr s
     \<and> share_envelope_decode ex_codecs s = Inr (Ed25519, [1, 2, 3])"
  using share_envelope_roundtrip [OF ex_b64_law ex_json_law] by blast

text \<open>
  A share from before the envelope, whose bytes are no envelope, decodes as a
  secp256k1 share with exactly those bytes.
\<close>

lemma share_envelope_legacy:
  assumes "b64_law C" and "\<And>env. from_slice C dec_share_envelope raw \<noteq> Inr env"
  shows "share_envelope_decode C (b64_encode C raw) = Inr (Secp256k1, raw)"
  using assms by (auto simp: share_envelope_decode_def codec_simps split: sum.split)

lemma share_envelope_legacy_witness:
  "share_envelope_decode ex_codecs (b64_encode ex_codecs (as_bytes ''z'')) =
     Inr (Secp256k1, as_bytes ''z'')"
proof (rule share_envelope_legacy [OF ex_b64_law])
  show "from_slice ex_codecs dec_share_envelope (as_bytes ''z'') \<noteq> Inr env" for env
    by (simp add: from_slice_def ex_codecs_def ex_json_parse_def)
qed

text \<open>
  Every wire envelope survives its JSON text, whichever of its optional fields are set, and the
  text has a \<open>curve\<close> member exactly when the envelope carries a curve.
\<close>

lemma wire_envelope_roundtrip:
  assumes "json_law C"
  shows "\<exists>s kvs. to_json_string C (wire_envelope_json e) = Inr s
           \<and> from_str C dec_wire_envelope s = Inr e
           \<and> wire_envelope_json e = JObj kvs
           \<and> (''curve'' \<in> fst ` set kvs \<longleftrightarrow> we_curve e \<noteq> None)
           \<and> (''payloads'' \<in> fst ` set kvs \<longleftrightarrow> we_payloads e \<noteq> None)"
proof -
  obtain s where "to_json_string C (wire_envelope_json e) = Inr s"
    and "from_str C dec_wire_envelope s = Inr e"
    using wire_envelope.text_roundtrip [OF assms] by blast
  then show ?thesis
    by (cases "we_step e"; cases "we_payloads e"; cases "we_curve e")
       (simp_all add: wire_envelope_json_def)
qed

text \<open>
  What a peer of version 0.1 sends is still read: an envelope without the fields
  of later versions is one for secp256k1 with a single payload, and a signature without
  \<open>curve\<close> is a secp256k1 signature.
\<close>

lemma v01_messages_read:
  "(\<exists>e. dec_wire_envelope (JObj [(''session_id'', JStr sid), (''protocol'', JStr (protocol_str p)),
            (''round'', json_u8 r), (''from_id'', json_u8 f), (''to_id'', JNull),
            (''payload_encoding'', JStr enc), (''payload'', JStr m)]) = Inr e
        \<and> curve_or_default e = Secp256k1 \<and> we_protocol e = p
        \<and> decode_all_payloads C e =
            andThen (wrap_err ''base64 decode failed'' (b64_decode C m)) (\<lambda>bs. Inr [bs]))
   \<and> dec_sign_completed (JObj [(''r'', JStr a), (''s'', JStr b), (''recid'', json_u8 v)]) =
       Inr \<lparr>sc_r = a, sc_s = b, sc_recid = Some v, sc_curve = curve_as_str Secp256k1\<rparr>"
proof -
  have "protocol_of_str (protocol_str p) = Inr p"
    by (cases p) (simp_all add: protocol_of_str_def)
  then show ?thesis
    by (simp add: dec_wire_envelope_def dec_sign_completed_def struct_fields_def obj_field_def
          curve_or_default_def decode_all_payloads_def default_curve_secp_def)
qed

text \<open>
  A message digest is accepted from hex exactly when it has 32 bytes.
\<close>

lemma message_digest_32:
  assumes "hex_law C"
  shows "(if length bs = 32 then message_digest_from_hex C (hex_encode C bs) = Inr (MessageDigest bs)
          else message_digest_from_hex C (hex_encode C bs) =
                 Inl (Msg ''message digest must be exactly 32 bytes''))
         \<and> (message_digest_from_hex C s = Inr d \<longrightarrow> length (into_bytes d) = 32)"
  using assms
  by (auto simp: message_digest_from_hex_def message_digest_new_def codec_simps try_into_array_def)

lemma message_digest_32_witness:
  "message_digest_from_hex ex_codecs (hex_encode ex_codecs (replicate 32 7)) =
     Inr (MessageDigest (replicate 32 7))"
  using message_digest_32 [OF ex_hex_law, of "replicate 32 7"] by simp

end
