(* ===== verification/Relay.thy ===== *)
theory Relay
  imports Prelude "HOL-Library.Sublist"
begin

text \<open>
  The bridge between the synchronous API and the asynchronous DKLs23 protocol tasks:
  \<open>rust/src/relay.rs\<close> (\<open>ChannelRelayConn\<close>) and the helpers \<open>inject_all\<close> and \<open>collect_batch\<close>
  of \<open>rust/src/api/mpc_engine.rs\<close>. The protocol itself is a third-party coroutine; it is a
  parameter of the engine, a tree of type \<open>task\<close> whose nodes are its uses of the relay and
  which may have infinite branches: a protocol need not come to an end. The
  caller's thread and the task run on a multi-threaded runtime, so a call takes the schedule
  that interleaves them as an argument, and the theorems hold for every schedule.
\<close>

section \<open>Protocol tasks and their channels\<close>

text \<open>
  \<open>Emit m k\<close> sends \<open>m\<close> and goes on with \<open>k ok\<close>, where \<open>ok\<close> tells whether the channel took
  it; \<open>Await k\<close> waits for a message and gets \<open>None\<close> when every sender is gone; \<open>Finished\<close> is
  the protocol's result, \<open>Crashed\<close> a panic of the task, which its join handle reports. The type
  is codatatype: a task that sends or polls for ever is one of its values.
\<close>

codatatype 'r task =
    Emit bytes "bool \<Rightarrow> 'r task"
  | Await "bytes option \<Rightarrow> 'r task"
  | Finished "string + 'r"
  | Crashed string

fun task_done :: "'r task \<Rightarrow> bool" where
  "task_done (Finished _) = True"
| "task_done (Crashed _) = True"
| "task_done _ = False"

text \<open>The state of the one \<open>Notified\<close> future a \<open>collect_batch\<close> call has enabled.\<close>

datatype waiter = NoWaiter | Waiting | Notified

text \<open>
  One session's \<open>ChannelRelayConn\<close> with both ends of its channels: the queue into the task
  (capacity 16) and whether a sender of it is alive, the queue out of the task (capacity 64),
  the permit stored in the \<open>Notify\<close>, and the task.
\<close>

record 'r link =
  inq :: "bytes list"
  tx_open :: bool
  outq :: "bytes list"
  permit :: bool
  waiter :: waiter
  prog :: "'r task"

definition in_capacity :: nat where
  "in_capacity = 16"

definition out_capacity :: nat where
  "out_capacity = 64"

text \<open>\<open>ChannelRelayConn::new\<close> over fresh channels, with the spawned task.\<close>

definition new_link :: "'r task \<Rightarrow> 'r link" where
  "new_link t =
     \<lparr>inq = [], tx_open = True, outq = [], permit = False, waiter = NoWaiter, prog = t\<rparr>"

text \<open>\<open>Notify::notify_one\<close>: it completes the waiting future, or leaves one permit.\<close>

definition notify_one :: "'r link \<Rightarrow> 'r link" where
  "notify_one l =
     (case waiter l of Waiting \<Rightarrow> l\<lparr>waiter := Notified\<rparr> | _ \<Rightarrow> l\<lparr>permit := True\<rparr>)"

text \<open>\<open>start_send\<close>: \<open>try_send\<close> on the bounded channel; it fails when the channel is full.\<close>

definition start_send :: "'r link \<Rightarrow> bytes \<Rightarrow> bool \<times> 'r link" where
  "start_send l m =
     (if length (outq l) < out_capacity then (True, l\<lparr>outq := outq l @ [m]\<rparr>) else (False, l))"

text \<open>\<open>poll_next\<close>: a message, the end of the stream, or \<open>Pending\<close> after a \<open>notify_one\<close>.\<close>

datatype poll = Pending | Ready "bytes option"

definition poll_next :: "'r link \<Rightarrow> poll \<times> 'r link" where
  "poll_next l =
     (case inq l of
        m # ms \<Rightarrow> (Ready (Some m), l\<lparr>inq := ms\<rparr>)
      | [] \<Rightarrow> if tx_open l then (Pending, notify_one l) else (Ready None, l))"

text \<open>One step of the task: it sends, or polls for input.\<close>

definition task_step :: "'r link \<Rightarrow> 'r link" where
  "task_step l =
     (case prog l of
        Emit m k \<Rightarrow> (let (ok, l') = start_send l m in l'\<lparr>prog := k ok\<rparr>)
      | Await k \<Rightarrow>
          (case poll_next l of
             (Pending, l') \<Rightarrow> l'
           | (Ready x, l') \<Rightarrow> l'\<lparr>prog := k x\<rparr>)
      | _ \<Rightarrow> l)"

datatype actor = Task | Caller

type_synonym schedule = "actor list"

section \<open>inject_all\<close>

text \<open>
  The caller's sends wait for room in the channel and fail when the task, and with it the
  receiver, is gone. \<open>None\<close>: the call has not returned when the schedule ends. The rest of
  the schedule is handed on.
\<close>

fun inject_all ::
  "schedule \<Rightarrow> 'r link \<Rightarrow> bytes list \<Rightarrow> (unit res \<times> 'r link \<times> schedule) option" where
  "inject_all sch l [] = Some (Inr (), l, sch)"
| "inject_all [] l (m # ms) = None"
| "inject_all (Task # sch) l (m # ms) = inject_all sch (task_step l) (m # ms)"
| "inject_all (Caller # sch) l (m # ms) =
     (if task_done (prog l) then
        Some (Inl (Wrap ''failed to inject message'' ''channel closed''), l, sch)
      else if length (inq l) < in_capacity then inject_all sch (l\<lparr>inq := inq l @ [m]\<rparr>) ms
      else inject_all sch l (m # ms))"

section \<open>collect_batch\<close>

text \<open>
  Where the collecting caller stands: about to register with the \<open>Notify\<close>, waiting for the
  first message, in the \<open>select!\<close> loop, draining with \<open>try_recv\<close>, or returned.
\<close>

datatype phase =
    Enter
  | First
  | Select "bytes list"
  | Drain "bytes list" bool
  | Returned "(bytes list \<times> bool) option"

text \<open>Step 1, \<open>notified.as_mut().enable()\<close>: take a stored permit, or register.\<close>

definition enable :: "'r link \<Rightarrow> 'r link" where
  "enable l =
     (if permit l then l\<lparr>permit := False, waiter := Notified\<rparr> else l\<lparr>waiter := Waiting\<rparr>)"

fun collect_step :: "'r link \<Rightarrow> phase \<Rightarrow> 'r link \<times> phase" where
  "collect_step l Enter = (enable l, First)"
| "collect_step l First =
     (case outq l of
        m # ms \<Rightarrow> (l\<lparr>outq := ms\<rparr>, Select [m])
      | [] \<Rightarrow>
          if task_done (prog l) then (l\<lparr>waiter := NoWaiter\<rparr>, Returned None) else (l, First))"
| "collect_step l (Select msgs) =
     (if waiter l = Notified then (l\<lparr>waiter := NoWaiter\<rparr>, Drain msgs False)
      else case outq l of
        m # ms \<Rightarrow> (l\<lparr>outq := ms\<rparr>, Select (msgs @ [m]))
      | [] \<Rightarrow>
          if task_done (prog l) then (l\<lparr>waiter := NoWaiter\<rparr>, Drain msgs True) else (l, Select msgs))"
| "collect_step l (Drain msgs protocol_done) =
     (case outq l of
        m # ms \<Rightarrow> (l\<lparr>outq := ms\<rparr>, Drain (msgs @ [m]) protocol_done)
      | [] \<Rightarrow> (l, Returned (Some (msgs, protocol_done))))"
| "collect_step l (Returned r) = (l, Returned r)"

text \<open>One move of the schedule while \<open>collect_batch\<close> is running.\<close>

fun move :: "actor \<Rightarrow> 'r link \<Rightarrow> phase \<Rightarrow> 'r link \<times> phase" where
  "move Task l p = (task_step l, p)"
| "move Caller l p = collect_step l p"

fun collect_loop ::
  "schedule \<Rightarrow> 'r link \<Rightarrow> phase \<Rightarrow> ((bytes list \<times> bool) option \<times> 'r link \<times> schedule) option"
where
  "collect_loop [] l p = (case p of Returned r \<Rightarrow> Some (r, l, []) | _ \<Rightarrow> None)"
| "collect_loop (a # sch) l p =
     (case p of
        Returned r \<Rightarrow> Some (r, l, a # sch)
      | _ \<Rightarrow> (case move a l p of (l', p') \<Rightarrow> collect_loop sch l' p'))"

definition collect_batch ::
  "schedule \<Rightarrow> 'r link \<Rightarrow> ((bytes list \<times> bool) option \<times> 'r link \<times> schedule) option" where
  "collect_batch sch l = collect_loop sch l Enter"

text \<open>
  \<open>inject_all(..)?\<close> followed by \<open>collect_batch(..)\<close>, as every channel handler does it, with the
  link it leaves; a failed injection leaves the link with what was injected before it.
\<close>

definition exchange ::
  "schedule \<Rightarrow> 'r link \<Rightarrow> bytes list \<Rightarrow> ((bytes list \<times> bool) option res \<times> 'r link) option" where
  "exchange sch l msgs =
     Option.bind (inject_all sch l msgs) (\<lambda>(r, l1, sch1).
       case r of
         Inl e \<Rightarrow> Some (Inl e, l1)
       | Inr _ \<Rightarrow> Option.bind (collect_batch sch1 l1) (\<lambda>(out, l2, _). Some (Inr out, l2)))"

section \<open>Joining the task\<close>

text \<open>What the join handle of a task that is done gives.\<close>

fun task_outcome :: "'r task \<Rightarrow> (string + (string + 'r)) option" where
  "task_outcome (Finished r) = Some (Inr r)"
| "task_outcome (Crashed e) = Some (Inl e)"
| "task_outcome _ = None"

text \<open>
  \<open>block_on(task_handle)\<close>: the task runs alone, with nobody reading its output, until it is
  done. \<open>None\<close>: it never is, since it waits for input while a sender is alive or goes on sending
  and polling for ever, and the join does not return. The outer \<open>Inl\<close> is the \<open>JoinError\<close>, the
  inner one the protocol's error.
\<close>

partial_function (option) run_out :: "'r link \<Rightarrow> 'r link option" where
  "run_out l = (if task_done (prog l) then Some l else run_out (task_step l))"

definition join_link :: "'r link \<Rightarrow> (string + (string + 'r)) option" where
  "join_link l = Option.bind (run_out l) (\<lambda>l'. task_outcome (prog l'))"

text \<open>\<open>.map_err(|e| ..)?.map_err(|e| ..)?\<close> on what the join gives.\<close>

definition join_result :: "string \<Rightarrow> string \<Rightarrow> string + (string + 'r) \<Rightarrow> 'r res" where
  "join_result join_ctx protocol_ctx j =
     andThen (wrap_err join_ctx j) (\<lambda>r. wrap_err protocol_ctx r)"

lemma task_outcome_done: "task_done t \<longleftrightarrow> (\<exists>j. task_outcome t = Some j)"
  by (cases t) simp_all

lemma run_out_done [simp]: "task_done (prog l) \<Longrightarrow> run_out l = Some l"
  by (subst run_out.simps) simp

lemma run_out_send [simp]: "prog l = Emit m k \<Longrightarrow> run_out l = run_out (task_step l)"
  by (subst run_out.simps) simp

lemma run_out_poll [simp]: "prog l = Await k \<Longrightarrow> inq l \<noteq> [] \<or> \<not> tx_open l \<Longrightarrow> run_out l = run_out (task_step l)"
  by (subst run_out.simps) simp

lemma run_out_step: "\<not> task_done (prog l) \<Longrightarrow> run_out l = run_out (task_step l)"
  by (subst run_out.simps) simp

text \<open>The join returns exactly when the task, running alone, gets to its end.\<close>

lemma run_out_steps:
  assumes "run_out l = Some l'"
  shows "\<exists>n. l' = (task_step ^^ n) l \<and> task_done (prog l')"
proof (rule run_out.raw_induct [where P = "\<lambda>l l'. \<exists>n. l' = (task_step ^^ n) l \<and> task_done (prog l')", OF _ assms])
  fix f :: "'a link \<Rightarrow> 'a link option" and l l'
  assume step: "\<And>x y. f x = Some y \<Longrightarrow> \<exists>n. y = (task_step ^^ n) x \<and> task_done (prog y)"
    and run: "(if task_done (prog l) then Some l else f (task_step l)) = Some l'"
  show "\<exists>n. l' = (task_step ^^ n) l \<and> task_done (prog l')"
  proof (cases "task_done (prog l)")
    case True
    with run show ?thesis by (intro exI [of _ 0]) simp
  next
    case False
    with run step [of "task_step l" l'] obtain n where "l' = (task_step ^^ Suc n) l" "task_done (prog l')"
      by (auto simp: funpow_swap1)
    then show ?thesis by blast
  qed
qed

lemma run_out_returns: "task_done (prog ((task_step ^^ n) l)) \<Longrightarrow> \<exists>l'. run_out l = Some l'"
proof (induction n arbitrary: l)
  case (Suc n)
  then show ?case
    by (cases "task_done (prog l)") (simp_all add: run_out_step [of l] funpow_swap1)
qed simp

lemma join_link_returns:
  "(\<exists>j. join_link l = Some j) \<longleftrightarrow> (\<exists>n. task_done (prog ((task_step ^^ n) l)))"
  using run_out_steps [of l] run_out_returns [of _ l] task_outcome_done
  by (fastforce simp: join_link_def bind_eq_Some_conv)

lemma join_link_done: "task_done (prog l) \<Longrightarrow> join_link l = task_outcome (prog l)"
  by (simp add: join_link_def)

section \<open>Conservation of messages\<close>

definition phase_msgs :: "phase \<Rightarrow> bytes list" where
  "phase_msgs p =
     (case p of
        Select ms \<Rightarrow> ms
      | Drain ms _ \<Rightarrow> ms
      | Returned r \<Rightarrow> (case r of None \<Rightarrow> [] | Some (ms, _) \<Rightarrow> ms)
      | _ \<Rightarrow> [])"

lemma phase_msgs_simps [simp]:
  "phase_msgs Enter = []"
  "phase_msgs First = []"
  "phase_msgs (Select ms) = ms"
  "phase_msgs (Drain ms d) = ms"
  "phase_msgs (Returned None) = []"
  "phase_msgs (Returned (Some (ms, d))) = ms"
  by (simp_all add: phase_msgs_def)

text \<open>What the task puts into its output channel in its next step, and during a run.\<close>

definition task_emits :: "'r link \<Rightarrow> bytes list" where
  "task_emits l =
     (case prog l of Emit m k \<Rightarrow> if length (outq l) < out_capacity then [m] else [] | _ \<Rightarrow> [])"

fun sent_during :: "schedule \<Rightarrow> 'r link \<Rightarrow> phase \<Rightarrow> bytes list" where
  "sent_during [] l p = []"
| "sent_during (a # sch) l p =
     (case p of
        Returned r \<Rightarrow> []
      | _ \<Rightarrow>
          (case a of Task \<Rightarrow> task_emits l | Caller \<Rightarrow> [])
          @ (case move a l p of (l', p') \<Rightarrow> sent_during sch l' p'))"

lemma notify_one_fields [simp]:
  "inq (notify_one l) = inq l" "tx_open (notify_one l) = tx_open l"
  "outq (notify_one l) = outq l" "prog (notify_one l) = prog l"
  by (simp_all add: notify_one_def split: waiter.split)

lemma notify_one_waiter:
  "waiter (notify_one l) = (if waiter l = Waiting then Notified else waiter l)"
  by (simp add: notify_one_def split: waiter.split)

lemma enable_fields [simp]:
  "inq (enable l) = inq l" "tx_open (enable l) = tx_open l"
  "outq (enable l) = outq l" "prog (enable l) = prog l"
  by (simp_all add: enable_def)

lemma task_step_outq: "outq (task_step l) = outq l @ task_emits l"
  by (auto simp: task_step_def task_emits_def start_send_def poll_next_def split: task.split list.split)

lemma task_step_done: "task_done (prog l) \<Longrightarrow> task_step l = l"
  by (cases "prog l") (simp_all add: task_step_def)

lemma collect_step_msgs:
  "collect_step l p = (l', p') \<Longrightarrow> phase_msgs p' @ outq l' = phase_msgs p @ outq l"
  by (cases "(l, p)" rule: collect_step.cases) (auto split: if_splits list.splits option.splits)

lemma collect_step_prog: "collect_step l p = (l', p') \<Longrightarrow> prog l' = prog l \<and> inq l' = inq l \<and> tx_open l' = tx_open l"
  by (cases "(l, p)" rule: collect_step.cases) (auto split: if_splits list.splits)

lemma move_conserves:
  "move a l p = (l', p') \<Longrightarrow>
     phase_msgs p' @ outq l' =
       phase_msgs p @ outq l @ (case a of Task \<Rightarrow> task_emits l | Caller \<Rightarrow> [])"
  by (cases a) (auto simp: task_step_outq dest: collect_step_msgs)

fun returned :: "phase \<Rightarrow> bool" where
  "returned (Returned _) = True"
| "returned _ = False"

lemma collect_loop_Returned [simp]: "collect_loop sch l (Returned r) = Some (r, l, sch)"
  by (cases sch) simp_all

lemma collect_loop_move:
  assumes "\<not> returned p" and "move a l p = (l1, p1)"
  shows "collect_loop (a # sch) l p = collect_loop sch l1 p1"
    and "sent_during (a # sch) l p =
           (case a of Task \<Rightarrow> task_emits l | Caller \<Rightarrow> []) @ sent_during sch l1 p1"
  using assms by (cases p; simp)+

declare collect_loop.simps(2) [simp del] sent_during.simps(2) [simp del]

text \<open>Induction over a run that returns: the returned phase, and one move before a shorter run.\<close>

lemma collect_run_induct [consumes 1, case_names Returned Move]:
  assumes "collect_loop sch l p = Some (r, l', sch')"
    and "\<And>sch l r. P sch l (Returned r) r l sch"
    and "\<And>a sch l p l1 p1. \<not> returned p \<Longrightarrow> move a l p = (l1, p1) \<Longrightarrow>
           collect_loop sch l1 p1 = Some (r, l', sch') \<Longrightarrow> P sch l1 p1 r l' sch' \<Longrightarrow>
           P (a # sch) l p r l' sch'"
  shows "P sch l p r l' sch'"
  using assms(1)
proof (induction sch arbitrary: l p)
  case Nil
  then show ?case using assms(2) by (auto split: phase.splits)
next
  case (Cons a sch)
  obtain l1 p1 where m: "move a l p = (l1, p1)" by fastforce
  show ?case
  proof (cases "returned p")
    case True
    with Cons.prems assms(2) show ?thesis by (cases p) auto
  next
    case False
    with Cons.prems m have "collect_loop sch l1 p1 = Some (r, l', sch')"
      by (simp add: collect_loop_move)
    with assms(3) [OF False m] Cons.IH show ?thesis by blast
  qed
qed

lemma sent_during_Returned [simp]: "sent_during sch l (Returned r) = []"
  by (cases sch) (simp_all add: sent_during.simps(2))

lemma collect_loop_conserves:
  "collect_loop sch l p = Some (r, l', sch') \<Longrightarrow>
     phase_msgs (Returned r) @ outq l' = phase_msgs p @ outq l @ sent_during sch l p"
proof (induction rule: collect_run_induct)
  case (Returned sch l r)
  then show ?case by simp
next
  case (Move a sch l p l1 p1)
  from move_conserves [OF Move.hyps(2)] Move.IH show ?case
    by (simp add: collect_loop_move(2) [OF Move.hyps(1,2)] flip: append_assoc)
qed

lemma collect_loop_suffix:
  "collect_loop sch l p = Some (r, l', sch') \<Longrightarrow> suffix sch' sch"
  by (induction rule: collect_run_induct) (auto intro: suffix_ConsI)

section \<open>Completeness of a batch\<close>

text \<open>The task has polled its empty input and waits: the round is over.\<close>

fun awaiting :: "'r task \<Rightarrow> bool" where
  "awaiting (Await _) = True"
| "awaiting _ = False"

definition parked :: "'r link \<Rightarrow> bool" where
  "parked l \<longleftrightarrow> awaiting (prog l) \<and> inq l = [] \<and> tx_open l"

text \<open>The states the call goes through, up to its return.\<close>

fun drive :: "schedule \<Rightarrow> 'r link \<Rightarrow> phase \<Rightarrow> 'r link \<times> phase" where
  "drive [] l p = (l, p)"
| "drive (a # sch) l p = (case move a l p of (l', p') \<Rightarrow> drive sch l' p')"

lemma task_step_waiter:
  "\<not> parked l \<Longrightarrow> waiter (task_step l) = waiter l"
  by (auto simp: task_step_def parked_def start_send_def poll_next_def split: task.split list.split)

lemma collect_step_waiting:
  assumes "waiter l = Waiting" and "collect_step l p = (l', p')"
    and "p = First \<or> (\<exists>ms. p = Select ms)"
  shows "(waiter l' = Waiting \<and> (p' = First \<or> (\<exists>ms. p' = Select ms)))
         \<or> p' = Returned None \<or> (\<exists>ms. p' = Drain ms True)"
  using assms by (auto split: list.splits if_splits)

lemma drain_result:
  "collect_loop sch l p = Some (r, l', sch') \<Longrightarrow> p = Drain ms d \<Longrightarrow>
     \<exists>batch. r = Some (batch, d)"
proof (induction arbitrary: ms rule: collect_run_induct)
  case (Returned sch l r)
  then show ?case by simp
next
  case (Move a sch l p l1 p1)
  then show ?case
    by (cases a; cases p1) (auto split: list.splits)
qed

lemma collect_drained:
  "collect_loop sch l p = Some (r, l', sch') \<Longrightarrow> \<not> returned p \<Longrightarrow> r = Some b \<Longrightarrow> outq l' = []"
proof (induction rule: collect_run_induct)
  case (Returned sch l r)
  then show ?case by simp
next
  case (Move a sch l p l1 p1)
  show ?case
  proof (cases "returned p1")
    case False
    with Move show ?thesis by simp
  next
    case True
    with Move.hyps(1,2) have "a = Caller" by (cases a) auto
    with True Move.hyps Move.prems show ?thesis
      by (cases p) (auto split: list.splits if_splits)
  qed
qed

lemma collect_batch_exact:
  assumes "collect_loop sch l p = Some (Some (batch, d), l', sch')" and "\<not> returned p"
  shows "batch = phase_msgs p @ outq l @ sent_during sch l p" and "outq l' = []"
  using collect_loop_conserves [OF assms(1)] collect_drained [OF assms(1,2)] by simp_all

lemma waiting_batch_complete:
  assumes "collect_loop sch l p = Some (Some (batch, False), l', sch')"
    and "waiter l = Waiting" and "p = First \<or> (\<exists>ms. p = Select ms)"
  shows "\<exists>pre l1 p1. prefix pre sch \<and> drive pre l p = (l1, p1) \<and> parked l1
           \<and> prefix (phase_msgs p1 @ outq l1) batch"
  using assms
proof (induction sch arbitrary: l p)
  case Nil
  then show ?case by auto
next
  case (Cons a sch)
  have nr: "\<not> returned p" using Cons.prems(3) by auto
  show ?case
  proof (cases "parked l")
    case True
    have "prefix (phase_msgs p @ outq l) batch"
      using collect_batch_exact(1) [OF Cons.prems(1) nr] by simp
    with True show ?thesis by (intro exI [of _ "[]"]) simp
  next
    case False
    obtain l1 p1 where m: "move a l p = (l1, p1)" by fastforce
    with nr Cons.prems(1) have run: "collect_loop sch l1 p1 = Some (Some (batch, False), l', sch')"
      by (simp add: collect_loop_move)
    have "waiter l1 = Waiting \<and> (p1 = First \<or> (\<exists>ms. p1 = Select ms))"
    proof (cases a)
      case Task
      with m False Cons.prems(2,3) show ?thesis by (auto simp: task_step_waiter)
    next
      case Caller
      with m collect_step_waiting [OF Cons.prems(2) _ Cons.prems(3), of l1 p1] run
      show ?thesis by (auto dest: drain_result)
    qed
    with run obtain pre l2 p2 where "prefix pre sch" "drive pre l1 p1 = (l2, p2)" "parked l2"
      and "prefix (phase_msgs p2 @ outq l2) batch"
      using Cons.IH by blast
    with m show ?thesis by (intro exI [of _ "a # pre"]) auto
  qed
qed

lemma task_step_permit: "\<not> parked l \<Longrightarrow> permit (task_step l) = permit l"
  by (auto simp: task_step_def parked_def start_send_def poll_next_def split: task.split list.split)

lemma entering_batch_complete:
  assumes "collect_loop sch l Enter = Some (Some (batch, False), l', sch')" and "\<not> permit l"
  shows "\<exists>pre l1 p1. prefix pre sch \<and> drive pre l Enter = (l1, p1) \<and> parked l1
           \<and> prefix (phase_msgs p1 @ outq l1) batch"
  using assms
proof (induction sch arbitrary: l)
  case Nil
  then show ?case by simp
next
  case (Cons a sch)
  show ?case
  proof (cases "parked l")
    case True
    with collect_batch_exact(1) [OF Cons.prems(1)] show ?thesis
      by (intro exI [of _ "[]"]) simp
  next
    case False
    have "\<exists>pre l2 p2. prefix pre sch \<and> drive pre l1 p1 = (l2, p2) \<and> parked l2
            \<and> prefix (phase_msgs p2 @ outq l2) batch" if m: "move a l Enter = (l1, p1)" for l1 p1
    proof (cases a)
      case Task
      with m False Cons show ?thesis
        by (auto simp: collect_loop_move task_step_permit)
    next
      case Caller
      with m Cons.prems have "p1 = First" "waiter l1 = Waiting"
        and "collect_loop sch l1 p1 = Some (Some (batch, False), l', sch')"
        by (auto simp: collect_loop_move enable_def)
      then show ?thesis using waiting_batch_complete [of sch l1 p1 batch l' sch'] by blast
    qed
    then obtain l1 p1 pre l2 p2 where "move a l Enter = (l1, p1)" "prefix pre sch"
      "drive pre l1 p1 = (l2, p2)" "parked l2" "prefix (phase_msgs p2 @ outq l2) batch"
      by (metis surj_pair)
    then show ?thesis by (intro exI [of _ "a # pre"]) auto
  qed
qed

section \<open>Blocking\<close>

text \<open>
  A parked task with nothing to read and a caller waiting for its first message stay as they
  are: only the notification state changes.
\<close>

definition stuck :: "'r link \<Rightarrow> bool" where
  "stuck l \<longleftrightarrow> parked l \<and> outq l = []"

lemma stuck_task_step: "stuck l \<Longrightarrow> stuck (task_step l)"
  by (auto simp: stuck_def parked_def task_step_def poll_next_def split: task.splits)

lemma stuck_enable [simp]: "stuck (enable l) = stuck l"
  by (simp add: stuck_def parked_def)

lemma stuck_collect:
  "stuck l \<Longrightarrow> p = Enter \<or> p = First \<Longrightarrow> collect_loop sch l p = None"
proof (induction sch arbitrary: l p)
  case Nil
  then show ?case by auto
next
  case (Cons a sch)
  have "\<not> task_done (prog l)"
    using Cons.prems(1) by (cases "prog l") (simp_all add: stuck_def parked_def)
  with Cons.prems have "\<exists>l1 p1. move a l p = (l1, p1) \<and> (p1 = Enter \<or> p1 = First) \<and> stuck l1"
    by (cases a) (auto simp: stuck_task_step, auto simp: stuck_def)
  with Cons.IH Cons.prems(2) show ?case
    by (auto simp: collect_loop_move)
qed

lemma parked_enable [simp]: "parked (enable l) = parked l"
  by (simp add: parked_def)

section \<open>What a batch says about the task\<close>

lemma collect_step_done:
  "collect_step l p = (l', Drain ms True) \<Longrightarrow> (\<forall>ms. p \<noteq> Drain ms True) \<Longrightarrow> task_done (prog l')"
  by (cases "(l, p)" rule: collect_step.cases) (auto split: if_splits list.splits)

lemma collect_done_flag:
  "collect_loop sch l p = Some (r, l', sch') \<Longrightarrow>
     \<not> returned p \<Longrightarrow> (\<forall>ms. p = Drain ms True \<longrightarrow> task_done (prog l)) \<Longrightarrow>
     (r = None \<or> (\<exists>b. r = Some (b, True))) \<Longrightarrow> task_done (prog l')"
proof (induction rule: collect_run_induct)
  case (Returned sch l r)
  then show ?case by simp
next
  case (Move a sch l p l1 p1)
  have step: "\<forall>ms. p1 = Drain ms True \<longrightarrow> task_done (prog l1)"
    using Move.hyps(2) Move.prems(2) collect_step_done [of l p l1]
    by (cases a) (auto simp: task_step_done dest: collect_step_prog)
  show ?case
  proof (cases "returned p1")
    case False
    with Move.IH step Move.prems show ?thesis by blast
  next
    case True
    with Move.hyps(1,2) have "a = Caller" by (cases a) auto
    with True Move.hyps Move.prems show ?thesis
      by (cases p) (auto split: list.splits if_splits)
  qed
qed

lemma collect_nonempty:
  "collect_loop sch l p = Some (r, l', sch') \<Longrightarrow> \<not> returned p \<Longrightarrow>
     p = Enter \<or> p = First \<or> phase_msgs p \<noteq> [] \<Longrightarrow> r = Some (b, d) \<Longrightarrow> b \<noteq> []"
proof (induction rule: collect_run_induct)
  case (Returned sch l r)
  then show ?case by simp
next
  case (Move a sch l p l1 p1)
  show ?case
  proof (cases "returned p1")
    case False
    with Move.hyps Move.prems have "p1 = Enter \<or> p1 = First \<or> phase_msgs p1 \<noteq> []"
      by (cases a; cases p) (auto split: list.splits if_splits)
    with False Move show ?thesis by blast
  next
    case True
    with Move.hyps(1,2) have "a = Caller" by (cases a) auto
    with True Move.hyps Move.prems show ?thesis
      by (cases p) (auto split: list.splits if_splits)
  qed
qed

section \<open>Capacity\<close>

definition link_ok :: "'r link \<Rightarrow> bool" where
  "link_ok l \<longleftrightarrow> length (inq l) \<le> in_capacity \<and> length (outq l) \<le> out_capacity"

lemma task_step_ok: "link_ok l \<Longrightarrow> link_ok (task_step l)"
  by (auto simp: link_ok_def task_step_def start_send_def poll_next_def notify_one_def
        split: task.split list.split waiter.split)

lemma collect_step_ok: "link_ok l \<Longrightarrow> collect_step l p = (l', p') \<Longrightarrow> link_ok l'"
  by (cases "(l, p)" rule: collect_step.cases) (auto simp: link_ok_def split: if_splits list.splits)

lemma move_ok: "link_ok l \<Longrightarrow> move a l p = (l', p') \<Longrightarrow> link_ok l'"
  by (cases a) (auto simp: task_step_ok dest: collect_step_ok)

lemma collect_loop_ok: "collect_loop sch l p = Some (r, l', sch') \<Longrightarrow> link_ok l \<Longrightarrow> link_ok l'"
  by (induction rule: collect_run_induct) (auto dest: move_ok)

lemma link_ok_enable [simp]: "link_ok (enable l) = link_ok l"
  by (simp add: link_ok_def)

lemma inject_all_ok: "inject_all sch l ms = Some (r, l', sch') \<Longrightarrow> link_ok l \<Longrightarrow> link_ok l'"
  by (induction sch l ms rule: inject_all.induct)
     (auto simp: task_step_ok split: if_splits, auto simp: link_ok_def split: if_splits)

section \<open>Progress\<close>

lemma collect_loop_tasks:
  "collect_loop (replicate n Task @ sch) l First = collect_loop sch ((task_step ^^ n) l) First"
  by (induction n arbitrary: l) (simp_all add: collect_loop_move funpow_swap1)

lemma collect_drain_all:
  "collect_loop (replicate (length (outq l) + 1) Caller @ sch) l (Drain ms d) =
     Some (Some (ms @ outq l, d), l\<lparr>outq := []\<rparr>, sch)"
proof (induction "outq l" arbitrary: l ms)
  case Nil
  then show ?case by (cases l) (simp add: collect_loop_move)
next
  case (Cons m q)
  from Cons.hyps(2) Cons.hyps(1) [of "l\<lparr>outq := q\<rparr>" "ms @ [m]"] show ?case
    by (simp add: collect_loop_move flip: Cons.hyps(2))
qed

lemma collect_waiting_returns:
  assumes "parked l" and "outq l \<noteq> []" and "waiter l \<noteq> NoWaiter"
  shows "\<exists>l'. collect_loop (Task # replicate (length (outq l) + 2) Caller) l First =
           Some (Some (outq l, False), l', [])
         \<and> prog l' = prog l \<and> inq l' = inq l \<and> outq l' = [] \<and> tx_open l' = tx_open l"
proof -
  obtain m q where q: "outq l = m # q" using assms(2) by (cases "outq l") auto
  let ?l1 = "(notify_one l)"
  have t: "task_step l = ?l1"
    using assms(1) by (cases "prog l") (simp_all add: parked_def task_step_def poll_next_def)
  have w: "waiter ?l1 = Notified"
    using assms(3) by (cases "waiter l") (simp_all add: notify_one_waiter)
  have "replicate (length (outq l) + 2) Caller =
          Caller # Caller # replicate (length q + 1) Caller"
    by (simp add: q)
  then show ?thesis
    using collect_drain_all [of "?l1\<lparr>outq := q, waiter := NoWaiter\<rparr>" "[]" "[m]" False] w
    by (simp add: collect_loop_move t q)
qed

lemma task_steps_waiter:
  "waiter l \<noteq> NoWaiter \<Longrightarrow> waiter ((task_step ^^ n) l) \<noteq> NoWaiter"
  by (induction n)
     (auto simp: task_step_def start_send_def poll_next_def notify_one_def
        split: task.split list.split waiter.split)

section \<open>Properties\<close>

text \<open>
  Property C26: under every schedule, a batch that \<open>collect_batch\<close> returns is exactly what was in
  the output channel at the call plus what the task sent during it, in order, nothing lost,
  repeated or left behind; it is not empty, and the flag says the task is done only when it is.
\<close>

theorem collect_batch_conserves:
  assumes "collect_batch sch l = Some (Some (batch, protocol_done), l', sch')"
  shows "batch = outq l @ sent_during sch l Enter \<and> outq l' = [] \<and> batch \<noteq> []
         \<and> (protocol_done \<longrightarrow> task_done (prog l')) \<and> suffix sch' sch"
proof -
  note run = assms [unfolded collect_batch_def]
  show ?thesis
    using collect_batch_exact [OF run] collect_nonempty [OF run] collect_done_flag [OF run]
      collect_loop_suffix [OF run]
    by auto
qed

theorem collect_batch_conserves_witness:
  "let l = (new_link (Emit [1] (\<lambda>_. Finished (Inr ()))))
   in \<exists>l'. collect_batch [Caller, Task, Caller, Caller, Caller] l = Some (Some ([[1]], True), l', [])
        \<and> [[1]] = outq l @ sent_during [Caller, Task, Caller, Caller, Caller] l Enter"
proof -
  let ?l = "new_link (Emit [1] (\<lambda>_. Finished (Inr ())))"
  obtain l' where "collect_batch [Caller, Task, Caller, Caller, Caller] ?l = Some (Some ([[1]], True), l', [])"
    by (simp add: collect_batch_def collect_loop.simps new_link_def enable_def task_step_def
          start_send_def out_capacity_def)
  with collect_batch_conserves [OF this] show ?thesis by (auto simp: Let_def)
qed

text \<open>
  \<open>collect_batch\<close> returns \<open>None\<close> only when the task is done and produced nothing
  that was not handed out before.
\<close>

lemma collect_batch_None:
  assumes "collect_batch sch l = Some (None, l', sch')"
  shows "task_done (prog l') \<and> outq l @ sent_during sch l Enter = outq l'"
  using collect_done_flag [OF assms [unfolded collect_batch_def]]
    collect_loop_conserves [OF assms [unfolded collect_batch_def]]
  by simp

lemma collect_batch_None_witness:
  "\<exists>l'. collect_batch [Caller, Caller] (new_link (Finished (Inr ()))) = Some (None, l', [])
     \<and> task_done (prog l')"
proof -
  obtain l' where "collect_batch [Caller, Caller] (new_link (Finished (Inr ()))) = Some (None, l', [])"
    by (simp add: collect_batch_def collect_loop.simps new_link_def enable_def task_step_def)
  with collect_batch_None [OF this] show ?thesis by blast
qed

text \<open>
  Property C27: when no notification was left over from before the call, a batch returned for a
  running protocol covers the whole round: at some point during the call the task had polled
  its empty input, and everything it had sent by then is in the batch.
\<close>

theorem collect_batch_whole_round:
  assumes "\<not> permit l" and "collect_batch sch l = Some (Some (batch, False), l', sch')"
  shows "\<exists>pre l1 p1. prefix pre sch \<and> drive pre l Enter = (l1, p1) \<and> parked l1
           \<and> prefix (phase_msgs p1 @ outq l1) batch"
  using entering_batch_complete [OF assms(2) [unfolded collect_batch_def] assms(1)] by simp

theorem collect_batch_whole_round_witness:
  "let l = (new_link (Emit [1] (\<lambda>_. Await (\<lambda>_. Finished (Inr ()))))) :: unit link
   in \<not> permit l \<and> (\<exists>batch (l1 :: unit link) p1.
          batch = [[1]] \<and> parked l1 \<and> prefix (phase_msgs p1 @ outq l1) batch)"
proof -
  let ?l = "new_link (Emit [1] (\<lambda>_. Await (\<lambda>_. Finished (Inr ()))))"
  let ?sch = "[Caller, Task, Task, Caller, Caller, Caller]"
  have p: "\<not> permit ?l" by (simp add: new_link_def)
  obtain l' :: "unit link" where "collect_batch ?sch ?l = Some (Some ([[1]], False), l', [])"
    by (simp add: collect_batch_def collect_loop.simps new_link_def enable_def task_step_def
          start_send_def out_capacity_def poll_next_def notify_one_def)
  from collect_batch_whole_round [OF p this] p show ?thesis
    by (auto simp: Let_def)
qed

text \<open>
  A leftover notification breaks that. There is a protocol that sends two messages
  in answer to one, and a schedule on which the permit stored when the task first waited ends
  the collection after the first of them, while the task is still to send the second.
\<close>

lemma collect_batch_stale_permit:
  "\<exists>(t :: unit task) sch sch' l1 l2.
     inject_all sch (new_link t) [[0]] = Some (Inr (), l1, sch')
     \<and> collect_batch sch' l1 = Some (Some ([[1]], False), l2, [])
     \<and> \<not> parked l2 \<and> task_emits l2 = [[2]]"
proof -
  let ?t = "Await (\<lambda>_. Emit [1] (\<lambda>_. Emit [2] (\<lambda>_. Await (\<lambda>_. Finished (Inr ())))))"
  let ?sch = "[Task, Caller]" and ?sch' = "[Caller, Task, Task, Caller, Caller, Caller]"
  show ?thesis
    by (rule exI [of _ ?t], rule exI [of _ "?sch @ ?sch'"], rule exI [of _ ?sch'])
       (simp add: collect_batch_def collect_loop.simps new_link_def enable_def task_step_def
          start_send_def out_capacity_def in_capacity_def poll_next_def notify_one_def
          parked_def task_emits_def)
qed

text \<open>
  When the task waits for input, its channels are empty and the caller has nothing
  to inject, \<open>collect_batch\<close> never returns, whatever the schedule.
\<close>

lemma collect_batch_blocks:
  assumes "parked l" and "outq l = []"
  shows "inject_all sch l [] = Some (Inr (), l, sch) \<and> collect_batch sch' l = None"
  using assms by (simp add: collect_batch_def stuck_collect stuck_def)

lemma collect_batch_blocks_witness:
  "let l = new_link (Await (\<lambda>_. Finished (Inr ())))
   in parked l \<and> outq l = [] \<and> (\<forall>sch'. collect_batch sch' l = None)"
proof -
  let ?l = "new_link (Await (\<lambda>_. Finished (Inr ())))"
  have "parked ?l" and "outq ?l = []" by (simp_all add: new_link_def parked_def)
  with collect_batch_blocks [OF this] show ?thesis by simp
qed

text \<open>
  If the task, run alone for \<open>n\<close> steps, sends something and then waits, there is a
  schedule of \<open>n\<close> plus the batch length plus four moves on which the call returns the round.
\<close>

lemma collect_batch_returns:
  assumes "parked ((task_step ^^ n) (enable l))" and "outq ((task_step ^^ n) (enable l)) \<noteq> []"
  shows "\<exists>sch l'. length sch = n + length (outq ((task_step ^^ n) (enable l))) + 4
           \<and> collect_batch sch l = Some (Some (outq ((task_step ^^ n) (enable l)), False), l', [])"
proof -
  let ?l1 = "(task_step ^^ n) (enable l)"
  have "waiter ?l1 \<noteq> NoWaiter"
    by (rule task_steps_waiter) (simp add: enable_def)
  from collect_waiting_returns [OF assms this] obtain l' where
    "collect_loop (Task # replicate (length (outq ?l1) + 2) Caller) ?l1 First =
       Some (Some (outq ?l1, False), l', [])" by blast
  then show ?thesis
    by (intro exI [of _ "Caller # replicate n Task @ Task # replicate (length (outq ?l1) + 2) Caller"] exI [of _ l'])
       (simp add: collect_batch_def collect_loop_move collect_loop_tasks)
qed

lemma collect_batch_returns_example:
  "let l = new_link (Emit [1] (\<lambda>_. Await (\<lambda>_. Finished (Inr ()))))
   in \<exists>sch l'. length sch = 6 \<and> collect_batch sch l = Some (Some ([[1]], False), l', [])"
proof -
  let ?l = "new_link (Emit [1] (\<lambda>_. Await (\<lambda>_. Finished (Inr ()))))"
  have step: "outq ((task_step ^^ 1) (enable ?l)) = [[1]]"
    by (simp add: new_link_def enable_def task_step_def start_send_def out_capacity_def)
  have "parked ((task_step ^^ 1) (enable ?l))"
    by (simp add: new_link_def enable_def task_step_def start_send_def out_capacity_def parked_def)
  from collect_batch_returns [OF this] step show ?thesis by (simp add: Let_def)
qed

end
