(* ===== verification/Crates.thy ===== *)
theory Crates
  imports Codecs Relay
begin

text \<open>
  The cryptographic crates the engine drives. None of them is in the repository, so each is a
  record of functions, a parameter of the definitions that call it: \<open>frost_lib\<close> for
  frost-ed25519 and ceres-wallet-frost-mpc, \<open>dkls_lib\<close> for sl-dkls23 and k256, \<open>scalar_lib\<close> for
  curve25519-dalek, \<open>aead_lib\<close> for hkdf and aes-gcm. Their values are opaque: each type of a
  crate is a datatype around an uninterpreted representation, which nothing in the model
  looks at. Randomness (\<open>OsRng\<close>) is an argument: the bytes the generator yields in the call,
  one after the other.
\<close>

type_synonym rng = "nat \<Rightarrow> byte"

section \<open>FROST\<close>

datatype key_package = KeyPackage bytes
datatype public_key_package = PublicKeyPackage bytes
datatype keygen_state = KeygenState bytes
datatype recovery_state = RecoveryState bytes
datatype signing_nonces = SigningNonces bytes
datatype signing_commitments = SigningCommitments bytes
datatype signing_package = SigningPackage bytes
datatype signature_share = SignatureShare bytes
datatype frost_signature = FrostSignature bytes

record frost_lib =
  lib_keygen_part1 :: "frost_id \<Rightarrow> rng \<Rightarrow> string + keygen_state \<times> string"
  lib_keygen_part2 :: "keygen_state \<Rightarrow> string \<Rightarrow> string + keygen_state \<times> string"
  lib_keygen_part3 :: "keygen_state \<Rightarrow> string \<Rightarrow> string + key_package \<times> public_key_package"
  lib_recovery_part1 ::
    "key_package \<Rightarrow> public_key_package \<Rightarrow> rng \<Rightarrow> string + recovery_state \<times> string"
  lib_recovery_part2 :: "recovery_state \<Rightarrow> string \<Rightarrow> string + recovery_state \<times> string"
  lib_recovery_part3 :: "recovery_state \<Rightarrow> string \<Rightarrow> string + key_package \<times> public_key_package"
  old_pub_key_pkg :: "recovery_state \<Rightarrow> public_key_package"
  lib_build_share_envelope :: "key_package \<Rightarrow> public_key_package \<Rightarrow> string + string"
  verifying_key_serialize :: "public_key_package \<Rightarrow> string + bytes"
  key_package_deserialize :: "bytes \<Rightarrow> string + key_package"
  public_key_package_deserialize :: "bytes \<Rightarrow> string + public_key_package"
  identifier_serialize :: "key_package \<Rightarrow> bytes"
  signing_share_serialize :: "key_package \<Rightarrow> bytes"
  commit :: "key_package \<Rightarrow> rng \<Rightarrow> signing_nonces \<times> signing_commitments"
  commitments_serialize :: "signing_commitments \<Rightarrow> string + bytes"
  commitments_deserialize :: "bytes \<Rightarrow> string + signing_commitments"
  signing_package_deserialize :: "bytes \<Rightarrow> string + signing_package"
  signing_package_message :: "signing_package \<Rightarrow> bytes"
  signature_share_deserialize :: "bytes \<Rightarrow> string + signature_share"
  round2_sign :: "signing_package \<Rightarrow> signing_nonces \<Rightarrow> key_package \<Rightarrow> string + signature_share"
  aggregate ::
    "signing_package \<Rightarrow> (frost_id \<rightharpoonup> signature_share) \<Rightarrow> public_key_package
     \<Rightarrow> string + frost_signature"
  signature_serialize :: "frost_signature \<Rightarrow> string + bytes"

section \<open>DKLs23 and secp256k1\<close>

datatype instance_id = InstanceId bytes
datatype keyshare = Keyshare bytes
datatype refresh_share = RefreshShare bytes
datatype point = Point bytes
datatype secp_scalar = SecpScalar bytes
datatype ecdsa_signature = EcdsaSignature bytes
datatype recovery_id = RecoveryId bytes
datatype derivation_path = DerivationPath string

text \<open>The arguments of \<open>setup::keygen::SetupMessage::new\<close> and \<open>setup::sign::SetupMessage\<close>.\<close>

record dkg_setup =
  dk_instance :: instance_id
  dk_party :: nat
  dk_verifying_keys :: "nat list"
  dk_ranks :: "byte list"
  dk_threshold :: nat

record dsg_setup =
  ds_instance :: instance_id
  ds_party :: nat
  ds_verifying_keys :: "nat list"
  ds_keyshare :: keyshare
  ds_hash :: bytes
  ds_chain_path :: derivation_path

record dkls_lib =
  dkg_run :: "dkg_setup \<Rightarrow> bytes \<Rightarrow> keyshare task"
  key_refresh_run :: "dkg_setup \<Rightarrow> bytes \<Rightarrow> refresh_share \<Rightarrow> keyshare task"
  sign_run :: "dsg_setup \<Rightarrow> bytes \<Rightarrow> (ecdsa_signature \<times> recovery_id) task"
  keyshare_as_slice :: "keyshare \<Rightarrow> bytes"
  keyshare_from_bytes :: "bytes \<Rightarrow> keyshare option"
  keyshare_for_refresh :: "keyshare \<Rightarrow> refresh_share"
  split_bytes :: "ecdsa_signature \<Rightarrow> bytes \<times> bytes"
  recid_to_byte :: "recovery_id \<Rightarrow> byte"
  parse_derivation_path :: "string \<Rightarrow> string + derivation_path"
  public_key :: "keyshare \<Rightarrow> point"
  encoded_point :: "point \<Rightarrow> bool \<Rightarrow> bytes"
  party_id :: "keyshare \<Rightarrow> byte"
  x_i_list :: "keyshare \<Rightarrow> secp_scalar list"
  rank_list :: "keyshare \<Rightarrow> byte list"
  s_i :: "keyshare \<Rightarrow> secp_scalar"
  combine_shares :: "(secp_scalar \<times> nat) list \<Rightarrow> secp_scalar list \<Rightarrow> point \<Rightarrow> secp_scalar option"
  secp_scalar_bytes :: "secp_scalar \<Rightarrow> bytes"

section \<open>curve25519-dalek scalars\<close>

text \<open>
  The scalar type is a type parameter of class \<open>comm_ring_1\<close>, for the operators; the rest of
  what the export uses of it is here. The law: the inverse of a non-zero scalar, and the
  32-byte canonical encoding.
\<close>

record 's scalar_lib =
  from_canonical_bytes :: "bytes \<Rightarrow> 's option"
  scalar_to_bytes :: "'s \<Rightarrow> bytes"
  scalar_invert :: "'s \<Rightarrow> 's"
  basepoint_mul :: "'s \<Rightarrow> bytes"

definition scalar_law :: "('s::comm_ring_1) scalar_lib \<Rightarrow> bool" where
  "scalar_law S \<longleftrightarrow>
     (\<forall>x. x \<noteq> 0 \<longrightarrow> x * scalar_invert S x = 1)
     \<and> (\<forall>x. length (scalar_to_bytes S x) = 32
          \<and> from_canonical_bytes S (scalar_to_bytes S x) = Some x)"

section \<open>HKDF and AES-GCM\<close>

record aead_lib =
  hkdf_sha256_expand :: "bytes \<Rightarrow> bytes \<Rightarrow> nat \<Rightarrow> bytes option"
  aes_gcm_encrypt :: "bytes \<Rightarrow> bytes \<Rightarrow> bytes \<Rightarrow> string + bytes"
  aes_gcm_decrypt :: "bytes \<Rightarrow> bytes \<Rightarrow> bytes \<Rightarrow> string + bytes"

text \<open>
  HKDF-SHA256 yields any length up to 255 times 32 bytes; AES-256-GCM takes plaintexts up to
  the limit of the construction and decrypts what it encrypted under the same key and nonce.
\<close>

definition aes_gcm_max :: nat where
  "aes_gcm_max = 2 ^ 36 - 32"

definition aead_law :: "aead_lib \<Rightarrow> bool" where
  "aead_law A \<longleftrightarrow>
     (\<forall>ikm info n. n \<le> 255 * 32 \<longrightarrow> (\<exists>okm. hkdf_sha256_expand A ikm info n = Some okm \<and> length okm = n))
     \<and> (\<forall>k n m. length k = 32 \<longrightarrow> length n = 12 \<longrightarrow> length m \<le> aes_gcm_max \<longrightarrow>
          (\<exists>c. aes_gcm_encrypt A k n m = Inr c \<and> aes_gcm_decrypt A k n c = Inr m))"

section \<open>The bridge\<close>

text \<open>
  What the generated glue takes from flutter_rust_bridge and byteorder: the reads and writes of
  the cursor (in the byte order of the machine), the conversion of a vector to an array, and the
  check at the end of a message. A read that panics gives the text of its panic.
\<close>

record bridge =
  read_u8 :: "bytes \<Rightarrow> string + byte \<times> bytes"
  write_u8 :: "byte \<Rightarrow> bytes"
  read_i32 :: "bytes \<Rightarrow> string + i32 \<times> bytes"
  write_i32 :: "i32 \<Rightarrow> bytes"
  from_vec_to_array :: "nat \<Rightarrow> bytes \<Rightarrow> string + bytes"
  deserializer_end :: "bytes \<Rightarrow> string + unit"

text \<open>
  A byte is read and written as it is; an integer takes four bytes, is read from the bytes it was
  written to, and any four bytes are one; a read past the end, an array of another length and bytes left at the end fail.
\<close>

definition bridge_law :: "bridge \<Rightarrow> bool" where
  "bridge_law B \<longleftrightarrow>
     (\<forall>b rest. read_u8 B (b # rest) = Inr (b, rest) \<and> write_u8 B b = [b])
     \<and> (\<exists>e. read_u8 B [] = Inl e)
     \<and> (\<forall>w rest. read_i32 B (write_i32 B w @ rest) = Inr (w, rest) \<and> length (write_i32 B w) = 4)
     \<and> (\<forall>bs. length bs < 4 \<longrightarrow> (\<exists>e. read_i32 B bs = Inl e))
     \<and> (\<forall>bs. 4 \<le> length bs \<longrightarrow> (\<exists>w. write_i32 B w = take 4 bs))
     \<and> (\<forall>n bs. if length bs = n then from_vec_to_array B n bs = Inr bs
                else \<exists>e. from_vec_to_array B n bs = Inl e)
     \<and> (\<forall>bs. if bs = [] then deserializer_end B bs = Inr () else \<exists>e. deserializer_end B bs = Inl e)"

section \<open>The context of a call\<close>

text \<open>
  What the environment gives a call: the clock (\<open>Instant::now\<close>, in nanoseconds), the bytes of
  the random generator, the schedule of the runtime, and whether the build checks integer
  overflow.
\<close>

record call_ctx =
  cc_now :: nat
  cc_entropy :: rng
  cc_schedule :: schedule
  cc_overflow_checks :: bool

text \<open>The first \<open>n\<close> bytes of the generator: \<open>OsRng.fill_bytes\<close> of a buffer of that size.\<close>

definition os_rng :: "nat \<Rightarrow> call_ctx \<Rightarrow> bytes" where
  "os_rng n x = map (cc_entropy x) [0..<n]"

lemma length_os_rng [simp]: "length (os_rng n x) = n"
  by (simp add: os_rng_def)

end
