(* ===== verification/Session.thy ===== *)
theory Session
  imports Api_Types Crates
begin

text \<open>
  The process-wide state, \<open>rust/src/session.rs\<close>: the six session tables (\<open>Mutex<HashMap>\<close>
  statics) and the registry of exported keys, as one record that the handlers pass along.
  Every access of the code takes a table's lock for one map operation; those operations are
  the definitions below, and the interface \<open>session_table\<close> they share is a locale.
\<close>

text \<open>Times are in nanoseconds.\<close>

definition SESSION_TTL :: nat where
  "SESSION_TTL = 300 * 1000000000"

section \<open>Sessions\<close>

text \<open>
  The channel sessions keep both channel ends, the \<open>Notify\<close> and the task of their link;
  \<open>has_task\<close> is \<open>task_handle.is_some()\<close>.
\<close>

record keygen_session =
  ks_link :: "bytes link"
  ks_has_task :: bool

record sign_session =
  ss_link :: "(bytes \<times> byte) link"
  ss_has_task :: bool
  ss_digest :: message_digest
  ss_consumed :: bool
  ss_public_key_hex :: string

record recovery_session =
  rs_link :: "bytes link"
  rs_has_task :: bool
  rs_created_at :: nat
  rs_rotation_version :: i32

record frost_keygen_session =
  fk_created_at :: nat
  fk_lib_state :: keygen_state
  fk_pending_server_inner :: string

record frost_sign_session =
  fs_created_at :: nat
  fs_key_package :: key_package
  fs_public_key_package :: public_key_package
  fs_message :: bytes
  fs_nonces :: "signing_nonces option"
  fs_commitments :: "frost_id \<rightharpoonup> signing_commitments"
  fs_consumed :: bool
  fs_verifying_key_hex :: string

record frost_recovery_session =
  fr_created_at :: nat
  fr_rotation_version :: i32
  fr_lib_state :: recovery_state
  fr_pending_server_inner :: string

definition frost_client_identifier :: frost_id where
  "frost_client_identifier = 1"

definition frost_server_identifier :: frost_id where
  "frost_server_identifier = 2"

record engine =
  keygen_sessions :: "string \<rightharpoonup> keygen_session"
  recovery_sessions :: "string \<rightharpoonup> recovery_session"
  sign_sessions :: "string \<rightharpoonup> sign_session"
  frost_keygen_sessions :: "string \<rightharpoonup> frost_keygen_session"
  frost_sign_sessions :: "string \<rightharpoonup> frost_sign_session"
  frost_recovery_sessions :: "string \<rightharpoonup> frost_recovery_session"
  exported_keys :: "string set"

text \<open>The statics before the first call.\<close>

definition init_engine :: engine where
  "init_engine =
     \<lparr>keygen_sessions = Map.empty, recovery_sessions = Map.empty, sign_sessions = Map.empty,
      frost_keygen_sessions = Map.empty, frost_sign_sessions = Map.empty,
      frost_recovery_sessions = Map.empty, exported_keys = {}\<rparr>"

section \<open>Table operations\<close>

definition insert_keygen_session :: "string \<Rightarrow> keygen_session \<Rightarrow> engine \<Rightarrow> engine" where
  "insert_keygen_session sid s st = st\<lparr>keygen_sessions := (keygen_sessions st)(sid \<mapsto> s)\<rparr>"

definition remove_keygen_session :: "string \<Rightarrow> engine \<Rightarrow> keygen_session option \<times> engine" where
  "remove_keygen_session sid st =
     (keygen_sessions st sid, st\<lparr>keygen_sessions := (keygen_sessions st)(sid := None)\<rparr>)"

definition insert_recovery_session :: "string \<Rightarrow> recovery_session \<Rightarrow> engine \<Rightarrow> engine" where
  "insert_recovery_session sid s st = st\<lparr>recovery_sessions := (recovery_sessions st)(sid \<mapsto> s)\<rparr>"

definition remove_recovery_session :: "string \<Rightarrow> engine \<Rightarrow> recovery_session option \<times> engine" where
  "remove_recovery_session sid st =
     (recovery_sessions st sid, st\<lparr>recovery_sessions := (recovery_sessions st)(sid := None)\<rparr>)"

definition insert_sign_session :: "string \<Rightarrow> sign_session \<Rightarrow> engine \<Rightarrow> engine" where
  "insert_sign_session sid s st = st\<lparr>sign_sessions := (sign_sessions st)(sid \<mapsto> s)\<rparr>"

definition remove_sign_session :: "string \<Rightarrow> engine \<Rightarrow> sign_session option \<times> engine" where
  "remove_sign_session sid st =
     (sign_sessions st sid, st\<lparr>sign_sessions := (sign_sessions st)(sid := None)\<rparr>)"

definition insert_frost_keygen_session ::
  "string \<Rightarrow> frost_keygen_session \<Rightarrow> engine \<Rightarrow> engine" where
  "insert_frost_keygen_session sid s st =
     st\<lparr>frost_keygen_sessions := (frost_keygen_sessions st)(sid \<mapsto> s)\<rparr>"

definition remove_frost_keygen_session ::
  "string \<Rightarrow> engine \<Rightarrow> frost_keygen_session option \<times> engine" where
  "remove_frost_keygen_session sid st =
     (frost_keygen_sessions st sid,
      st\<lparr>frost_keygen_sessions := (frost_keygen_sessions st)(sid := None)\<rparr>)"

definition insert_frost_sign_session :: "string \<Rightarrow> frost_sign_session \<Rightarrow> engine \<Rightarrow> engine" where
  "insert_frost_sign_session sid s st =
     st\<lparr>frost_sign_sessions := (frost_sign_sessions st)(sid \<mapsto> s)\<rparr>"

definition remove_frost_sign_session ::
  "string \<Rightarrow> engine \<Rightarrow> frost_sign_session option \<times> engine" where
  "remove_frost_sign_session sid st =
     (frost_sign_sessions st sid,
      st\<lparr>frost_sign_sessions := (frost_sign_sessions st)(sid := None)\<rparr>)"

definition insert_frost_recovery_session ::
  "string \<Rightarrow> frost_recovery_session \<Rightarrow> engine \<Rightarrow> engine" where
  "insert_frost_recovery_session sid s st =
     st\<lparr>frost_recovery_sessions := (frost_recovery_sessions st)(sid \<mapsto> s)\<rparr>"

definition remove_frost_recovery_session ::
  "string \<Rightarrow> engine \<Rightarrow> frost_recovery_session option \<times> engine" where
  "remove_frost_recovery_session sid st =
     (frost_recovery_sessions st sid,
      st\<lparr>frost_recovery_sessions := (frost_recovery_sessions st)(sid := None)\<rparr>)"

definition insert_exported_key :: "string \<Rightarrow> engine \<Rightarrow> engine" where
  "insert_exported_key k st = st\<lparr>exported_keys := insert k (exported_keys st)\<rparr>"

text \<open>
  What the handlers rely on of a session table: an inserted session is found until it is
  removed, removing returns it and leaves nothing behind, and other ids are not touched.
  A session that is taken by one caller is gone for every other.
\<close>

locale session_table =
  fixes find_session :: "'st \<Rightarrow> string \<Rightarrow> 's option"
    and insert_session :: "string \<Rightarrow> 's \<Rightarrow> 'st \<Rightarrow> 'st"
    and remove_session :: "string \<Rightarrow> 'st \<Rightarrow> 's option \<times> 'st"
  assumes find_insert:
      "find_session (insert_session k s st) k' = (if k' = k then Some s else find_session st k')"
    and remove_returns: "fst (remove_session k st) = find_session st k"
    and find_remove:
      "find_session (snd (remove_session k st)) k' = (if k' = k then None else find_session st k')"
begin

lemma take_inserted: "fst (remove_session k (insert_session k s st)) = Some s"
  by (simp add: remove_returns find_insert)

lemma take_once: "fst (remove_session k (snd (remove_session k st))) = None"
  by (simp add: remove_returns find_remove)

lemma insert_after_remove:
  "find_session (insert_session k s (snd (remove_session k st))) k' =
     (if k' = k then Some s else find_session st k')"
  by (simp add: find_insert find_remove)

lemma table_insert: "find_session (insert_session k s st) = (find_session st)(k \<mapsto> s)"
  by (rule ext) (simp add: find_insert)

lemma table_remove: "find_session (snd (remove_session k st)) = (find_session st)(k := None)"
  by (rule ext) (simp add: find_remove)

text \<open>What happens to the tokens that the sessions of a table hold.\<close>

lemma tokens_put:
  "finite (dom (find_session st)) \<Longrightarrow>
     tokens_in token (find_session (insert_session k s st)) \<subseteq># add_mset (token s) (tokens_in token (find_session st))"
  unfolding table_insert by (rule tokens_insert_le)

lemma tokens_taken:
  "finite (dom (find_session st)) \<Longrightarrow> find_session st k = Some s \<Longrightarrow>
     add_mset (token s) (tokens_in token (find_session (snd (remove_session k st)))) = tokens_in token (find_session st)"
  unfolding table_remove by (rule tokens_remove_some)

lemma tokens_left:
  "finite (dom (find_session st)) \<Longrightarrow>
     tokens_in token (find_session (snd (remove_session k st))) \<subseteq># tokens_in token (find_session st)"
  unfolding table_remove by (rule tokens_remove_le)

lemma remove_insert_other:
  "k' \<noteq> k \<Longrightarrow> fst (remove_session k' (insert_session k s st)) = find_session st k'"
  by (simp add: remove_returns find_insert)

end

interpretation keygen_table: session_table keygen_sessions insert_keygen_session remove_keygen_session
  by unfold_locales (simp_all add: insert_keygen_session_def remove_keygen_session_def)

interpretation recovery_table:
  session_table recovery_sessions insert_recovery_session remove_recovery_session
  by unfold_locales (simp_all add: insert_recovery_session_def remove_recovery_session_def)

interpretation sign_table: session_table sign_sessions insert_sign_session remove_sign_session
  by unfold_locales (simp_all add: insert_sign_session_def remove_sign_session_def)

interpretation frost_keygen_table:
  session_table frost_keygen_sessions insert_frost_keygen_session remove_frost_keygen_session
  by unfold_locales (simp_all add: insert_frost_keygen_session_def remove_frost_keygen_session_def)

interpretation frost_sign_table:
  session_table frost_sign_sessions insert_frost_sign_session remove_frost_sign_session
  by unfold_locales (simp_all add: insert_frost_sign_session_def remove_frost_sign_session_def)

interpretation frost_recovery_table:
  session_table frost_recovery_sessions insert_frost_recovery_session remove_frost_recovery_session
  by unfold_locales
     (simp_all add: insert_frost_recovery_session_def remove_frost_recovery_session_def)

lemmas session_defs =
  insert_keygen_session_def remove_keygen_session_def insert_recovery_session_def
  remove_recovery_session_def insert_sign_session_def remove_sign_session_def
  insert_frost_keygen_session_def remove_frost_keygen_session_def
  insert_frost_sign_session_def remove_frost_sign_session_def
  insert_frost_recovery_session_def remove_frost_recovery_session_def insert_exported_key_def

end
