(* ===== verification/Address.thy ===== *)
theory Address
  imports Codecs Example_Codecs
begin

text \<open>
  Address derivation, \<open>rust/src/api/address.rs\<close>: the base58 Solana address of a verifying key
  and the EIP-55 checksummed EVM address of an uncompressed public key, with the checksum's
  specification (\<open>eip55_checksummed\<close>) and the proof that the derivation meets it.
\<close>

definition derive_solana_address :: "codecs \<Rightarrow> bytes \<Rightarrow> string res" where
  "derive_solana_address C verifying_key =
     (if length verifying_key \<noteq> 32
      then Inl (BadLength ''Solana pubkey must be exactly 32 bytes, got '' (length verifying_key))
      else Inr (bs58_encode C verifying_key))"

text \<open>The nibble of the checksum hash that decides the case of character \<open>i\<close>.\<close>

definition checksum_nibble :: "bytes \<Rightarrow> nat \<Rightarrow> byte" where
  "checksum_nibble h i = and (drop_bit (if i mod 2 = 0 then 4 else 0) (h ! (i div 2))) 0xf"

definition checksum_case :: "bytes \<Rightarrow> string \<Rightarrow> string" where
  "checksum_case h hex_addr =
     map (\<lambda>(i, c). if 8 \<le> checksum_nibble h i then to_ascii_uppercase c else c)
       (enumerate 0 hex_addr)"

definition derive_evm_address :: "codecs \<Rightarrow> bytes \<Rightarrow> string res" where
  "derive_evm_address C uncompressed_pubkey =
     (if length uncompressed_pubkey \<noteq> 65 \<or> uncompressed_pubkey ! 0 \<noteq> 0x04
      then Inl (Msg ''Expected 65-byte uncompressed public key with 0x04 prefix'')
      else
        let hash = keccak256 C (drop 1 uncompressed_pubkey);
            hex_addr = hex_encode C (drop 12 hash);
            checksum_hash = keccak256 C (as_bytes hex_addr)
        in Inr (''0x'' @ checksum_case checksum_hash hex_addr))"

section \<open>The EIP-55 checksum\<close>

definition to_ascii_lowercase :: "char \<Rightarrow> char" where
  "to_ascii_lowercase c =
     (if 65 \<le> (of_char c :: nat) \<and> (of_char c :: nat) \<le> 90
      then char_of ((of_char c :: nat) + 32) else c)"

text \<open>
  EIP-55, as a predicate on 40 hexadecimal characters: the letters are exactly the upper
  case ones the hash of the lower case address asks for.
\<close>

definition eip55_checksummed :: "codecs \<Rightarrow> string \<Rightarrow> bool" where
  "eip55_checksummed C s \<longleftrightarrow>
     (let low = map to_ascii_lowercase s in
      \<forall>i < length s. s ! i =
        (if 8 \<le> checksum_nibble (keccak256 C (as_bytes low)) i
         then to_ascii_uppercase (low ! i) else low ! i))"

lemma char_of_eqI: "(of_char c :: nat) = n \<Longrightarrow> char_of n = c"
  by auto

lemma lower_hex_digit_cases:
  assumes "lower_hex_digit c"
  shows "to_ascii_lowercase c = c" and "to_ascii_lowercase (to_ascii_uppercase c) = c"
  using assms
  by (auto simp: lower_hex_digit_def to_ascii_lowercase_def to_ascii_uppercase_def
        intro!: char_of_eqI)

lemma length_checksum_case [simp]: "length (checksum_case h s) = length s"
  by (simp add: checksum_case_def)

lemma checksum_case_nth:
  "i < length s \<Longrightarrow> checksum_case h s ! i =
     (if 8 \<le> checksum_nibble h i then to_ascii_uppercase (s ! i) else s ! i)"
  by (simp add: checksum_case_def nth_enumerate_eq)

lemma lowercase_checksum_case:
  assumes "\<forall>c \<in> set s. lower_hex_digit c"
  shows "map to_ascii_lowercase (checksum_case h s) = s"
  using assms
  by (intro nth_equalityI) (simp_all add: checksum_case_nth lower_hex_digit_cases)

lemma checksum_case_checksummed:
  assumes "\<forall>c \<in> set s. lower_hex_digit c"
  shows "eip55_checksummed C (checksum_case (keccak256 C (as_bytes s)) s)"
  using assms
  by (simp add: eip55_checksummed_def Let_def lowercase_checksum_case checksum_case_nth)

lemma eip55_checksummed_unique:
  assumes "eip55_checksummed C s" and "eip55_checksummed C t"
    and "map to_ascii_lowercase s = map to_ascii_lowercase t"
  shows "s = t"
proof (rule nth_equalityI)
  show len: "length s = length t"
    using assms(3) by (rule map_eq_imp_length_eq)
  show "s ! i = t ! i" if "i < length s" for i
  proof -
    let ?f = "\<lambda>low. if 8 \<le> checksum_nibble (keccak256 C (as_bytes low)) i
                    then to_ascii_uppercase (low ! i) else low ! i"
    have "s ! i = ?f (map to_ascii_lowercase s)"
      using assms(1) that unfolding eip55_checksummed_def Let_def by blast
    also have "\<dots> = ?f (map to_ascii_lowercase t)"
      using assms(3) by (rule arg_cong)
    also have "\<dots> = t ! i"
      using assms(2) that len unfolding eip55_checksummed_def Let_def by metis
    finally show ?thesis .
  qed
qed

text \<open>The indices the loop reads stay inside the 32-byte hash, so it never panics.\<close>

lemma checksum_index_in_range:
  assumes "hex_law C" and "keccak_law C" and "i < length (hex_encode C (drop 12 (keccak256 C bs)))"
  shows "i div 2 < length (keccak256 C ys)"
  using assms by (auto simp: length_hex_encode keccak_law_def)

section \<open>Properties\<close>



text \<open>
  Two derived EVM addresses that agree up to the case of their letters are
  equal, so the checksummed form is canonical.
\<close>

lemma derive_evm_address_canonical:
  assumes "hex_law C" and "keccak_law C"
    and "derive_evm_address C pk = Inr a" and "derive_evm_address C pk' = Inr b"
    and "map to_ascii_lowercase a = map to_ascii_lowercase b"
  shows "a = b"
proof -
  have "\<exists>body. x = ''0x'' @ body \<and> eip55_checksummed C body" if "derive_evm_address C k = Inr x" for k x
  proof -
    have "\<forall>c \<in> set (hex_encode C bs). lower_hex_digit c" for bs
      using assms(1) by (blast intro: hex_encode_digits)
    with that show ?thesis
      by (auto simp: derive_evm_address_def Let_def checksum_case_checksummed split: if_splits)
  qed
  with assms(3,4) obtain u v where "a = ''0x'' @ u" "eip55_checksummed C u"
    and "b = ''0x'' @ v" "eip55_checksummed C v"
    by blast
  with assms(5) show ?thesis
    by (auto intro: eip55_checksummed_unique)
qed

lemma derive_evm_address_canonical_witness:
  "\<exists>a b. derive_evm_address ex_codecs (4 # replicate 64 6) = Inr a
     \<and> derive_evm_address ex_codecs (4 # replicate 64 6) = Inr b \<and> a = b"
proof -
  obtain a where "derive_evm_address ex_codecs (4 # replicate 64 6) = Inr a"
    by (simp add: derive_evm_address_def Let_def)
  with derive_evm_address_canonical [OF ex_hex_law ex_keccak_law this this] show ?thesis
    by blast
qed

end
