(* ===== verification/Frost_Engine.thy ===== *)
theory Frost_Engine
  imports Session Address
begin

text \<open>
  The FROST-Ed25519 engine, \<open>rust/src/api/engine_ed25519.rs\<close>: keygen, sign, recover and export
  for Solana keys. Every round is one synchronous call; a handler takes the engine state to
  its result and the state it leaves, with the early returns of the code in their place.
\<close>

section \<open>Wire payloads\<close>

record sign_r1_payload =
  r1_commitments :: string

definition sign_r1_json :: "sign_r1_payload \<Rightarrow> json" where
  "sign_r1_json p = JObj [(''commitments'', JStr (r1_commitments p))]"

definition dec_sign_r1 :: "json \<Rightarrow> serde_error + sign_r1_payload" where
  "dec_sign_r1 j =
     andThen (struct_fields [''commitments''] j) (\<lambda>fs.
     andThen (required ''commitments'' dec_string (fs ! 0)) (\<lambda>c.
       Inr \<lparr>r1_commitments = c\<rparr>))"

record sign_r2_payload =
  r2_signing_pkg :: string
  r2_sig_share :: string

definition sign_r2_json :: "sign_r2_payload \<Rightarrow> json" where
  "sign_r2_json p =
     JObj [(''signing_pkg'', JStr (r2_signing_pkg p)), (''sig_share'', JStr (r2_sig_share p))]"

definition dec_sign_r2 :: "json \<Rightarrow> serde_error + sign_r2_payload" where
  "dec_sign_r2 j =
     andThen (struct_fields [''signing_pkg'', ''sig_share''] j) (\<lambda>fs.
     andThen (required ''signing_pkg'' dec_string (fs ! 0)) (\<lambda>p.
     andThen (required ''sig_share'' dec_string (fs ! 1)) (\<lambda>s.
       Inr \<lparr>r2_signing_pkg = p, r2_sig_share = s\<rparr>)))"

record ed25519_key_material =
  km_kp :: string
  km_pkp :: string

definition key_material_json :: "ed25519_key_material \<Rightarrow> json" where
  "key_material_json m = JObj [(''kp'', JStr (km_kp m)), (''pkp'', JStr (km_pkp m))]"

definition dec_key_material :: "json \<Rightarrow> serde_error + ed25519_key_material" where
  "dec_key_material j =
     andThen (struct_fields [''kp'', ''pkp''] j) (\<lambda>fs.
     andThen (required ''kp'' dec_string (fs ! 0)) (\<lambda>a.
     andThen (required ''pkp'' dec_string (fs ! 1)) (\<lambda>b.
       Inr \<lparr>km_kp = a, km_pkp = b\<rparr>)))"

interpretation sign_r1: serde_type sign_r1_json dec_sign_r1
  by unfold_locales
     (simp_all add: sign_r1_json_def dec_sign_r1_def struct_fields_def obj_field_def)

interpretation sign_r2: serde_type sign_r2_json dec_sign_r2
  by unfold_locales
     (simp_all add: sign_r2_json_def dec_sign_r2_def struct_fields_def obj_field_def)

interpretation key_material: serde_type key_material_json dec_key_material
  by unfold_locales
     (simp_all add: key_material_json_def dec_key_material_def struct_fields_def obj_field_def)

section \<open>Helpers\<close>

definition parse_wire :: "codecs \<Rightarrow> string \<Rightarrow> wire_envelope res" where
  "parse_wire C server_payload =
     serde_err ''invalid server envelope JSON'' (from_str C dec_wire_envelope server_payload)"

definition decode_payload ::
  "codecs \<Rightarrow> (json \<Rightarrow> serde_error + 'a) \<Rightarrow> wire_envelope \<Rightarrow> 'a res" where
  "decode_payload C dec env =
     andThen (wrap_err ''base64 decode payload'' (b64_decode C (we_payload env))) (\<lambda>bs.
       serde_err ''invalid round payload JSON'' (from_slice C dec bs))"

definition encode_wire_payload_from_inner ::
  "codecs \<Rightarrow> string \<Rightarrow> protocol_type \<Rightarrow> byte \<Rightarrow> string \<Rightarrow> string res" where
  "encode_wire_payload_from_inner C session_id protocol rnd inner_encoded =
     (let env = wire_envelope_new session_id protocol rnd 0 (Some 1) inner_encoded None
      in to_json_string C (wire_envelope_json (env\<lparr>we_curve := Some ''ed25519''\<rparr>)))"

definition frost_make_in_progress :: "codecs \<Rightarrow> byte \<Rightarrow> string \<Rightarrow> string res" where
  "frost_make_in_progress C rnd inner_payload =
     to_json_string C (mpc_round_result_json
       \<lparr>mr_status = ''continue'', mr_round = ucast rnd,
        mr_client_payload = Some inner_payload, mr_error_message = None\<rparr>)"

definition frost_make_completed :: "codecs \<Rightarrow> byte \<Rightarrow> string \<Rightarrow> string res" where
  "frost_make_completed C rnd completed_json =
     to_json_string C (mpc_round_result_json
       \<lparr>mr_status = ''completed'', mr_round = ucast rnd,
        mr_client_payload = Some completed_json, mr_error_message = None\<rparr>)"

text \<open>\<open>ser_pkg\<close> and \<open>deser_pkg\<close>, over the serialiser the type's trait instance calls.\<close>

definition ser_pkg :: "codecs \<Rightarrow> ('a \<Rightarrow> string + bytes) \<Rightarrow> 'a \<Rightarrow> string res" where
  "ser_pkg C serialize pkg =
     andThen (wrap_err ''frost serialize'' (serialize pkg)) (\<lambda>bs. Inr (hex_encode C bs))"

definition deser_pkg :: "codecs \<Rightarrow> (bytes \<Rightarrow> string + 'a) \<Rightarrow> string \<Rightarrow> 'a res" where
  "deser_pkg C deserialize hex_str =
     andThen (wrap_err ''hex decode'' (hex_decode C hex_str)) (\<lambda>bs.
       wrap_err ''frost deserialize'' (deserialize bs))"

definition extract_share_material ::
  "codecs \<Rightarrow> frost_lib \<Rightarrow> string \<Rightarrow> (key_package \<times> public_key_package) res" where
  "extract_share_material C F local_share =
     andThen (share_envelope_decode C local_share) (\<lambda>(c, raw).
       if c \<noteq> Ed25519 then Inl (Msg ''share is not an ed25519 keyshare'')
       else
         andThen (serde_err ''invalid ed25519 key material'' (from_slice C dec_key_material raw)) (\<lambda>mat.
         andThen (wrap_err ''base64 kp'' (b64_decode C (km_kp mat))) (\<lambda>kp_bytes.
         andThen (wrap_err ''base64 pkp'' (b64_decode C (km_pkp mat))) (\<lambda>pkp_bytes.
         andThen (wrap_err ''frost deserialize'' (key_package_deserialize F kp_bytes)) (\<lambda>kp.
         andThen (wrap_err ''frost deserialize'' (public_key_package_deserialize F pkp_bytes)) (\<lambda>pkp.
           Inr (kp, pkp)))))))"

definition build_share_envelope ::
  "frost_lib \<Rightarrow> key_package \<Rightarrow> public_key_package \<Rightarrow> string res" where
  "build_share_envelope F kp pkp =
     (case lib_build_share_envelope F kp pkp of Inl e \<Rightarrow> Inl (Msg e) | Inr s \<Rightarrow> Inr s)"

text \<open>\<open>public_key_package.verifying_key().serialize()\<close> with its error text.\<close>

definition verifying_key_bytes :: "frost_lib \<Rightarrow> public_key_package \<Rightarrow> bytes res" where
  "verifying_key_bytes F pkp =
     wrap_err ''verifying_key serialize'' (verifying_key_serialize F pkp)"

text \<open>The reply of a round: the wire envelope inside the round result.\<close>

definition frost_reply ::
  "codecs \<Rightarrow> string \<Rightarrow> protocol_type \<Rightarrow> byte \<Rightarrow> string \<Rightarrow> string res" where
  "frost_reply C session_id protocol rnd inner =
     andThen (encode_wire_payload_from_inner C session_id protocol rnd inner) (\<lambda>env_json.
       frost_make_in_progress C rnd env_json)"

section \<open>Keygen\<close>

definition frost_keygen_round1 ::
  "codecs \<Rightarrow> frost_lib \<Rightarrow> call_ctx \<Rightarrow> string \<Rightarrow> string \<Rightarrow> engine \<Rightarrow> string res \<times> engine" where
  "frost_keygen_round1 C F x session_id server_payload st =
     question (parse_wire C server_payload) st (\<lambda>env.
     question (wrap_err ''keygen_part1'' (lib_keygen_part1 F 1 (cc_entropy x))) st
       (\<lambda>(lib_state, client_inner).
       (frost_reply C session_id Dkg 1 client_inner,
        insert_frost_keygen_session session_id
          \<lparr>fk_created_at = cc_now x, fk_lib_state = lib_state,
           fk_pending_server_inner = we_payload env\<rparr> st)))"

definition frost_keygen_round2 ::
  "codecs \<Rightarrow> frost_lib \<Rightarrow> string \<Rightarrow> string \<Rightarrow> engine \<Rightarrow> string res \<times> engine" where
  "frost_keygen_round2 C F session_id server_payload st =
     question (parse_wire C server_payload) st (\<lambda>env.
       let (taken, st1) = remove_frost_keygen_session session_id st in
       question (ok_or taken (NotFound ''ed25519 keygen'' session_id)) st1 (\<lambda>session.
       question (wrap_err ''keygen_part2''
                   (lib_keygen_part2 F (fk_lib_state session) (fk_pending_server_inner session))) st1
         (\<lambda>(new_lib_state, client_inner).
         (frost_reply C session_id Dkg 2 client_inner,
          insert_frost_keygen_session session_id
            \<lparr>fk_created_at = fk_created_at session, fk_lib_state = new_lib_state,
             fk_pending_server_inner = we_payload env\<rparr> st1))))"

definition frost_keygen_finalize ::
  "codecs \<Rightarrow> frost_lib \<Rightarrow> string \<Rightarrow> engine \<Rightarrow> string res \<times> engine" where
  "frost_keygen_finalize C F session_id st =
     (let (taken, st1) = remove_frost_keygen_session session_id st in
      question (ok_or taken (NotFound ''ed25519 keygen'' session_id)) st1 (\<lambda>session.
      question (wrap_err ''keygen_part3''
                  (lib_keygen_part3 F (fk_lib_state session) (fk_pending_server_inner session))) st1
        (\<lambda>(key_package, public_key_package).
      question (verifying_key_bytes F public_key_package) st1 (\<lambda>vk_bytes.
      question (derive_solana_address C vk_bytes) st1 (\<lambda>address.
      question (build_share_envelope F key_package public_key_package) st1 (\<lambda>local_encrypted_share.
      question (to_json_string C (keygen_completed_json
                  \<lparr>kc_mpc_key_id = session_id, kc_address = address,
                   kc_public_key = hex_encode C vk_bytes, kc_curve = ''ed25519'', kc_threshold = 2,
                   kc_key_ref = session_id, kc_backup_state = ''none'', kc_rotation_version = 1,
                   kc_local_encrypted_share = local_encrypted_share\<rparr>)) st1 (\<lambda>completed_json.
        (frost_make_completed C 0 completed_json, st1))))))))"

definition frost_keygen ::
  "codecs \<Rightarrow> frost_lib \<Rightarrow> call_ctx \<Rightarrow> string \<Rightarrow> i32 \<Rightarrow> string \<Rightarrow> engine \<Rightarrow> string res \<times> engine" where
  "frost_keygen C F x session_id rnd server_payload st =
     (if rnd = 1 then frost_keygen_round1 C F x session_id server_payload st
      else if rnd = 2 then frost_keygen_round2 C F session_id server_payload st
      else if rnd = 0 then frost_keygen_finalize C F session_id st
      else (Inl (BadRound ''unsupported ed25519 keygen round'' rnd), st))"

section \<open>Sign\<close>

text \<open>
  Round 1 up to the commitment: the server's commitments, the share's packages, the message and
  the verifying key in hex, which must not be one of an exported key.
\<close>

definition frost_sign_round1_checks ::
  "codecs \<Rightarrow> frost_lib \<Rightarrow> string \<Rightarrow> string option \<Rightarrow> string option \<Rightarrow> engine
   \<Rightarrow> (signing_commitments \<times> bytes \<times> key_package \<times> public_key_package \<times> string) res" where
  "frost_sign_round1_checks C F server_payload share message_hex st =
     andThen (parse_wire C server_payload) (\<lambda>env.
     andThen (decode_payload C dec_sign_r1 env) (\<lambda>r1.
     andThen (deser_pkg C (commitments_deserialize F) (r1_commitments r1)) (\<lambda>server_commitments.
     andThen (ok_or share (Msg ''share required for ed25519 sign round 1'')) (\<lambda>share_str.
     andThen (ok_or message_hex (Msg ''message_hex required for ed25519 sign round 1'')) (\<lambda>msg_hex.
     andThen (wrap_err ''message_hex decode failed'' (hex_decode C msg_hex)) (\<lambda>message.
     andThen (extract_share_material C F share_str) (\<lambda>(key_package, public_key_package).
     andThen (verifying_key_bytes F public_key_package) (\<lambda>vk_bytes.
       let vk_hex = hex_encode C vk_bytes in
       if vk_hex \<in> exported_keys st then
         Inl (Msg ''signing rejected: keyshare has been exported'')
       else Inr (server_commitments, message, key_package, public_key_package, vk_hex)))))))))"

definition frost_sign_round1 ::
  "codecs \<Rightarrow> frost_lib \<Rightarrow> call_ctx \<Rightarrow> string \<Rightarrow> string \<Rightarrow> string option \<Rightarrow> string option \<Rightarrow> engine
   \<Rightarrow> string res \<times> engine" where
  "frost_sign_round1 C F x session_id server_payload share message_hex st =
     question (frost_sign_round1_checks C F server_payload share message_hex st) st
       (\<lambda>(server_commitments, message, key_package, public_key_package, vk_hex).
       let (nonces, own_commitments) = commit F key_package (cc_entropy x);
           commitments_map =
             Map.empty(frost_client_identifier \<mapsto> own_commitments,
                       frost_server_identifier \<mapsto> server_commitments);
           st1 = insert_frost_sign_session session_id
             \<lparr>fs_created_at = cc_now x, fs_key_package = key_package,
              fs_public_key_package = public_key_package, fs_message = message,
              fs_nonces = Some nonces, fs_commitments = commitments_map,
              fs_consumed = False, fs_verifying_key_hex = vk_hex\<rparr> st
       in
       question (ser_pkg C (commitments_serialize F) own_commitments) st1 (\<lambda>commitments.
       question (to_json_string C (sign_r1_json \<lparr>r1_commitments = commitments\<rparr>)) st1 (\<lambda>json_text.
         (frost_reply C session_id Dsg 1 (b64_encode C (as_bytes json_text)), st1))))"

text \<open>
  Round 2 up to the point where the session has given up its nonces: the parsed package and
  share of the server, the session, and the nonces taken out of it.
\<close>

definition frost_sign_round2_open ::
  "codecs \<Rightarrow> frost_lib \<Rightarrow> string \<Rightarrow> string \<Rightarrow> engine
   \<Rightarrow> (signing_package \<times> signature_share \<times> frost_sign_session \<times> signing_nonces) res \<times> engine" where
  "frost_sign_round2_open C F session_id server_payload st =
     question (parse_wire C server_payload) st (\<lambda>env.
     question (decode_payload C dec_sign_r2 env) st (\<lambda>r2.
     question (deser_pkg C (signing_package_deserialize F) (r2_signing_pkg r2)) st (\<lambda>signing_package.
     question (deser_pkg C (signature_share_deserialize F) (r2_sig_share r2)) st (\<lambda>server_sig_share.
       let (taken, st1) = remove_frost_sign_session session_id st in
       question (ok_or taken (NotFound ''ed25519 sign'' session_id)) st1 (\<lambda>session.
         if fs_consumed session then (Inl (Consumed ''ed25519 sign'' session_id), st1)
         else
           let session1 = session\<lparr>fs_consumed := True\<rparr> in
           if signing_package_message F signing_package \<noteq> fs_message session1 then
             (Inl (Msg ''signing_package message does not match session message''), st1)
           else
             question (ok_or (fs_nonces session1) (Msg ''ed25519 sign session missing nonces'')) st1
               (\<lambda>nonces.
               (Inr (signing_package, server_sig_share, session1\<lparr>fs_nonces := None\<rparr>, nonces), st1)))))))"

text \<open>The rest of round 2: the own signature share, the aggregation and the payload.\<close>

definition frost_sign_round2_finish ::
  "codecs \<Rightarrow> frost_lib \<Rightarrow> signing_package \<Rightarrow> signature_share \<Rightarrow> frost_sign_session \<Rightarrow> signing_nonces
   \<Rightarrow> string res" where
  "frost_sign_round2_finish C F signing_package server_sig_share session nonces =
     andThen (wrap_err ''frost round2 sign'' (round2_sign F signing_package nonces (fs_key_package session)))
       (\<lambda>own_sig_share.
     andThen (wrap_err ''frost aggregate''
                (aggregate F signing_package
                   (Map.empty(frost_client_identifier \<mapsto> own_sig_share,
                              frost_server_identifier \<mapsto> server_sig_share))
                   (fs_public_key_package session))) (\<lambda>signature.
     andThen (wrap_err ''signature serialize'' (signature_serialize F signature)) (\<lambda>sig_bytes.
       if length sig_bytes \<noteq> 64 then
         Inl (BadLength ''unexpected ed25519 signature length: '' (length sig_bytes))
       else
         andThen (to_json_string C (sign_completed_json
                    \<lparr>sc_r = hex_encode C (take 32 sig_bytes), sc_s = hex_encode C (drop 32 sig_bytes),
                     sc_recid = None, sc_curve = ''ed25519''\<rparr>)) (\<lambda>completed_json.
           frost_make_completed C 2 completed_json))))"

definition frost_sign_round2 ::
  "codecs \<Rightarrow> frost_lib \<Rightarrow> string \<Rightarrow> string \<Rightarrow> engine \<Rightarrow> string res \<times> engine" where
  "frost_sign_round2 C F session_id server_payload st =
     (case frost_sign_round2_open C F session_id server_payload st of
        (Inl e, st1) \<Rightarrow> (Inl e, st1)
      | (Inr (signing_package, server_sig_share, session, nonces), st1) \<Rightarrow>
          (frost_sign_round2_finish C F signing_package server_sig_share session nonces, st1))"

definition frost_sign ::
  "codecs \<Rightarrow> frost_lib \<Rightarrow> call_ctx \<Rightarrow> string \<Rightarrow> i32 \<Rightarrow> string \<Rightarrow> string option \<Rightarrow> string option
   \<Rightarrow> engine \<Rightarrow> string res \<times> engine" where
  "frost_sign C F x session_id rnd server_payload share message_hex st =
     (if rnd = 1 then frost_sign_round1 C F x session_id server_payload share message_hex st
      else if rnd = 2 then frost_sign_round2 C F session_id server_payload st
      else (Inl (BadRound ''unsupported ed25519 sign round'' rnd), st))"

section \<open>Recover\<close>

definition frost_recover_round1 ::
  "codecs \<Rightarrow> frost_lib \<Rightarrow> call_ctx \<Rightarrow> string \<Rightarrow> string \<Rightarrow> string option \<Rightarrow> i32 option \<Rightarrow> engine
   \<Rightarrow> string res \<times> engine" where
  "frost_recover_round1 C F x session_id server_payload backup_share current_rotation_version st =
     question (parse_wire C server_payload) st (\<lambda>env.
     question (ok_or backup_share (Msg ''backup_share required for round 1'')) st (\<lambda>bs.
     question (ok_or current_rotation_version (Msg ''current_rotation_version required for round 1'')) st (\<lambda>rv.
     question (extract_share_material C F bs) st (\<lambda>(old_kp, old_pkp).
     question (wrap_err ''recovery_part1'' (lib_recovery_part1 F old_kp old_pkp (cc_entropy x))) st
       (\<lambda>(lib_state, client_inner).
       (frost_reply C session_id Rotation 1 client_inner,
        insert_frost_recovery_session session_id
          \<lparr>fr_created_at = cc_now x, fr_rotation_version = rv, fr_lib_state = lib_state,
           fr_pending_server_inner = we_payload env\<rparr> st))))))"

text \<open>The first block of round 2: the session must exist and be at most five minutes old; an
  expired one is evicted.\<close>

definition frost_recover_ttl_check :: "call_ctx \<Rightarrow> string \<Rightarrow> engine \<Rightarrow> unit res \<times> engine" where
  "frost_recover_ttl_check x session_id st =
     (case frost_recovery_sessions st session_id of
        Some s \<Rightarrow>
          if elapsed (cc_now x) (fr_created_at s) > SESSION_TTL
          then (Inl (Expired ''ed25519 recovery'' session_id),
                snd (remove_frost_recovery_session session_id st))
          else (Inr (), st)
      | None \<Rightarrow> (Inl (NotFound ''ed25519 recovery'' session_id), st))"

definition frost_recover_round2 ::
  "codecs \<Rightarrow> frost_lib \<Rightarrow> call_ctx \<Rightarrow> string \<Rightarrow> string \<Rightarrow> engine \<Rightarrow> string res \<times> engine" where
  "frost_recover_round2 C F x session_id server_payload st =
     (case frost_recover_ttl_check x session_id st of
        (Inl e, st1) \<Rightarrow> (Inl e, st1)
      | (Inr _, st1) \<Rightarrow>
          question (parse_wire C server_payload) st1 (\<lambda>env.
            let (taken, st2) = remove_frost_recovery_session session_id st1 in
            question (ok_or taken (NotFound ''ed25519 recovery'' session_id)) st2 (\<lambda>session.
            question (wrap_err ''recovery_part2''
                        (lib_recovery_part2 F (fr_lib_state session) (fr_pending_server_inner session))) st2
              (\<lambda>(new_lib_state, client_inner).
              (frost_reply C session_id Rotation 2 client_inner,
               insert_frost_recovery_session session_id
                 \<lparr>fr_created_at = fr_created_at session,
                  fr_rotation_version = fr_rotation_version session, fr_lib_state = new_lib_state,
                  fr_pending_server_inner = we_payload env\<rparr> st2)))))"

definition frost_recover_finalize ::
  "codecs \<Rightarrow> frost_lib \<Rightarrow> call_ctx \<Rightarrow> string \<Rightarrow> engine \<Rightarrow> string res \<times> engine" where
  "frost_recover_finalize C F x session_id st =
     (let (taken, st1) = remove_frost_recovery_session session_id st in
      question (ok_or taken (NotFound ''ed25519 recovery'' session_id)) st1 (\<lambda>session.
      question (verifying_key_bytes F (old_pub_key_pkg F (fr_lib_state session))) st1 (\<lambda>old_vk_bytes.
      question (wrap_err ''recovery_part3''
                  (lib_recovery_part3 F (fr_lib_state session) (fr_pending_server_inner session))) st1
        (\<lambda>(new_kp, new_pkp).
      question (verifying_key_bytes F new_pkp) st1 (\<lambda>new_vk_bytes.
        if new_vk_bytes \<noteq> old_vk_bytes then
          (Inl (Msg ''ed25519 refresh produced a different verifying_key (refresh_dkg_shares contract violated)''), st1)
        else
          question (derive_solana_address C new_vk_bytes) st1 (\<lambda>address.
          question (build_share_envelope F new_kp new_pkp) st1 (\<lambda>local_encrypted_share.
          question (add_i32 (cc_overflow_checks x) (fr_rotation_version session) 1) st1 (\<lambda>rotation_version.
          question (to_json_string C (recovery_completed_json
                      \<lparr>rc_mpc_key_id = session_id, rc_address = address,
                       rc_public_key = hex_encode C new_vk_bytes,
                       rc_rotation_version = rotation_version,
                       rc_local_encrypted_share = local_encrypted_share\<rparr>)) st1 (\<lambda>completed_json.
            (frost_make_completed C 0 completed_json, st1))))))))))"

definition frost_recover ::
  "codecs \<Rightarrow> frost_lib \<Rightarrow> call_ctx \<Rightarrow> string \<Rightarrow> i32 \<Rightarrow> string \<Rightarrow> string option \<Rightarrow> i32 option
   \<Rightarrow> engine \<Rightarrow> string res \<times> engine" where
  "frost_recover C F x session_id rnd server_payload backup_share current_rotation_version st =
     (if rnd = 1 then
        frost_recover_round1 C F x session_id server_payload backup_share current_rotation_version st
      else if rnd = 2 then frost_recover_round2 C F x session_id server_payload st
      else if rnd = 0 then frost_recover_finalize C F x session_id st
      else (Inl (BadRound ''unsupported ed25519 recover round'' rnd), st))"

section \<open>Export\<close>

definition to_scalar :: "'s scalar_lib \<Rightarrow> bytes \<Rightarrow> string \<Rightarrow> 's res" where
  "to_scalar S bs label =
     andThen (ok_or (try_into_array 32 bs) (BadLength (label @ '': expected 32 bytes, got '') (length bs)))
       (\<lambda>arr. ok_or (from_canonical_bytes S arr) (Msg (label @ '': not a canonical mod-q scalar'')))"

text \<open>The two Lagrange coefficients at zero and the combination of the shares.\<close>

definition lagrange_secret ::
  "('s::comm_ring_1) scalar_lib \<Rightarrow> 's \<Rightarrow> 's \<Rightarrow> 's \<Rightarrow> 's \<Rightarrow> 's" where
  "lagrange_secret S x1 x2 s1 s2 =
     (let neg_x2 = - x2; neg_x1 = - x1;
          diff_12 = x1 - x2; diff_21 = x2 - x1;
          l1 = neg_x2 * scalar_invert S diff_12;
          l2 = neg_x1 * scalar_invert S diff_21
      in l1 * s1 + l2 * s2)"

definition frost_export_private_key ::
  "codecs \<Rightarrow> frost_lib \<Rightarrow> ('s::comm_ring_1) scalar_lib \<Rightarrow> string \<Rightarrow> string \<Rightarrow> engine
   \<Rightarrow> string res \<times> engine" where
  "frost_export_private_key C F S local_share server_share st =
     question (extract_share_material C F local_share) st (\<lambda>(local_kp, local_pkp).
     question (extract_share_material C F server_share) st (\<lambda>(server_kp, server_pkp).
     question (verifying_key_bytes F local_pkp) st (\<lambda>local_vk.
     question (verifying_key_bytes F server_pkp) st (\<lambda>server_vk.
       if local_vk \<noteq> server_vk then
         (Inl (Msg ''ed25519 export failed: verifying_key mismatch between local and server share''), st)
       else
         question (to_scalar S (identifier_serialize F local_kp) ''local identifier'') st (\<lambda>x1.
         question (to_scalar S (identifier_serialize F server_kp) ''server identifier'') st (\<lambda>x2.
         question (to_scalar S (signing_share_serialize F local_kp) ''local signing_share'') st (\<lambda>s1.
         question (to_scalar S (signing_share_serialize F server_kp) ''server signing_share'') st (\<lambda>s2.
           if x1 - x2 = 0 then
             (Inl (Msg ''ed25519 export failed: identical identifiers in 2-of-2 setup''), st)
           else
             let secret = lagrange_secret S x1 x2 s1 s2 in
             if basepoint_mul S secret \<noteq> local_vk then
               (Inl (Msg ''ed25519 export failed: reconstructed scalar does not match verifying_key (sanity check failed)''), st)
             else
               question (derive_solana_address C local_vk) st (\<lambda>address.
                 let st1 = insert_exported_key (hex_encode C local_vk) st in
                 (to_json_string C (export_result_json
                    \<lparr>er_private_key = hex_encode C (scalar_to_bytes S secret),
                     er_address = address, er_exported = True\<rparr>), st1))))))))))"

end
