(* ===== verification/Dkls_Engine.thy ===== *)
theory Dkls_Engine
  imports Frost_Engine
begin

text \<open>
  The API of \<open>rust/src/api/mpc_engine.rs\<close>: the curve dispatch of keygen, recover, sign and
  export, and the secp256k1 path behind it, which drives a DKLs23 protocol task through the
  channels of \<open>Relay\<close>. A handler of that path returns \<open>None\<close> when the call has not returned by
  the end of its schedule. A call is one step here, so where the code looks a session
  up a second time in one call the model goes on with the session it has.
\<close>

type_synonym outcome = "(string res \<times> engine) option"

section \<open>Helpers\<close>

definition instance_id_from_session :: "codecs \<Rightarrow> string \<Rightarrow> instance_id res" where
  "instance_id_from_session C session_id =
     andThen (wrap_err ''session_id hex decode failed'' (hex_decode C session_id)) (\<lambda>bs.
     andThen (ok_or (try_into_array 32 bs)
                (Msg ''session_id must be exactly 32 bytes (64 hex chars)'')) (\<lambda>arr.
       Inr (InstanceId arr)))"

definition random_seed :: "call_ctx \<Rightarrow> bytes" where
  "random_seed x = os_rng 32 x"

definition make_completed :: "codecs \<Rightarrow> byte \<Rightarrow> string \<Rightarrow> string res" where
  "make_completed C rnd completed_json =
     to_json_string C (mpc_round_result_json
       \<lparr>mr_status = ''completed'', mr_round = ucast rnd,
        mr_client_payload = Some completed_json, mr_error_message = None\<rparr>)"

definition extract_pubkey_and_address ::
  "codecs \<Rightarrow> dkls_lib \<Rightarrow> bytes \<Rightarrow> (string \<times> string \<times> bytes) res" where
  "extract_pubkey_and_address C D keyshare_bytes =
     andThen (ok_or (keyshare_from_bytes D keyshare_bytes) (Msg ''invalid keyshare bytes from protocol''))
       (\<lambda>ks.
       let pubkey_bytes = encoded_point D (public_key D ks) False in
       andThen (derive_evm_address C pubkey_bytes) (\<lambda>evm_address.
         Inr (evm_address, hex_encode C pubkey_bytes, pubkey_bytes)))"

definition make_in_progress_batch ::
  "codecs \<Rightarrow> string \<Rightarrow> protocol_type \<Rightarrow> byte \<Rightarrow> bytes list \<Rightarrow> string res" where
  "make_in_progress_batch C session_id protocol rnd client_messages =
     (let payloads = map (b64_encode C) client_messages;
          env = wire_envelope_new_batch session_id protocol rnd 0 (Some 1) payloads None
      in andThen (to_json_string C (wire_envelope_json env)) (\<lambda>env_json.
           to_json_string C (mpc_round_result_json
             \<lparr>mr_status = ''continue'', mr_round = ucast rnd,
              mr_client_payload = Some env_json, mr_error_message = None\<rparr>)))"

definition parse_server_envelope_batch ::
  "codecs \<Rightarrow> string \<Rightarrow> (wire_envelope \<times> bytes list) res" where
  "parse_server_envelope_batch C server_payload =
     andThen (serde_err ''invalid server envelope JSON'' (from_str C dec_wire_envelope server_payload))
       (\<lambda>server_env.
       if we_from_id server_env \<noteq> 1 then Inl (BadFromId (we_from_id server_env))
       else andThen (decode_all_payloads C server_env) (\<lambda>messages. Inr (server_env, messages)))"

definition detect_curve_from_envelope :: "codecs \<Rightarrow> string \<Rightarrow> curve" where
  "detect_curve_from_envelope C server_payload =
     (case from_str C dec_wire_envelope server_payload of
        Inr env \<Rightarrow> curve_or_default env
      | Inl _ \<Rightarrow> Secp256k1)"

definition frost_keygen_session_exists :: "string \<Rightarrow> engine \<Rightarrow> bool" where
  "frost_keygen_session_exists session_id st \<longleftrightarrow> frost_keygen_sessions st session_id \<noteq> None"

definition frost_sign_session_exists :: "string \<Rightarrow> engine \<Rightarrow> bool" where
  "frost_sign_session_exists session_id st \<longleftrightarrow> frost_sign_sessions st session_id \<noteq> None"

definition frost_recovery_session_exists :: "string \<Rightarrow> engine \<Rightarrow> bool" where
  "frost_recovery_session_exists session_id st \<longleftrightarrow> frost_recovery_sessions st session_id \<noteq> None"

text \<open>\<open>share.as_deref()\<close> tested for an ed25519 \<open>ShareEnvelope\<close>, as sign, recover and export do.\<close>

definition share_is_ed25519 :: "codecs \<Rightarrow> string \<Rightarrow> bool" where
  "share_is_ed25519 C s =
     (case share_envelope_decode C s of Inr (c, _) \<Rightarrow> c = Ed25519 | Inl _ \<Rightarrow> False)"

definition opt_share_is_ed25519 :: "codecs \<Rightarrow> string option \<Rightarrow> bool" where
  "opt_share_is_ed25519 C share = (case share of Some s \<Rightarrow> share_is_ed25519 C s | None \<Rightarrow> False)"

text \<open>The setup message of keygen and key refresh: party 0 of 2, threshold 2, both ranks 0.\<close>

definition two_party_setup :: "instance_id \<Rightarrow> dkg_setup" where
  "two_party_setup inst =
     \<lparr>dk_instance = inst, dk_party = 0, dk_verifying_keys = [0, 1], dk_ranks = [0, 0],
      dk_threshold = 2\<rparr>"

section \<open>Keygen\<close>

text \<open>The completed reply of keygen, in collect mode with round 0 and else with the server's.\<close>

definition keygen_completed_reply ::
  "codecs \<Rightarrow> dkls_lib \<Rightarrow> string \<Rightarrow> byte \<Rightarrow> bytes \<Rightarrow> string res" where
  "keygen_completed_reply C D session_id rnd ks_bytes =
     andThen (extract_pubkey_and_address C D ks_bytes) (\<lambda>(address, pubkey_hex, _).
     andThen (to_json_string C (keygen_completed_json
                \<lparr>kc_mpc_key_id = session_id, kc_address = address, kc_public_key = pubkey_hex,
                 kc_curve = ''secp256k1'', kc_threshold = 2, kc_key_ref = session_id,
                 kc_backup_state = ''none'', kc_rotation_version = 1,
                 kc_local_encrypted_share = b64_encode C ks_bytes\<rparr>)) (\<lambda>completed_json.
       make_completed C rnd completed_json))"

definition keygen_collect ::
  "codecs \<Rightarrow> dkls_lib \<Rightarrow> string \<Rightarrow> engine \<Rightarrow> outcome" where
  "keygen_collect C D session_id st =
     (let (taken, st1) = remove_keygen_session session_id st in
      attempt (ok_or taken (NotFound ''keygen'' session_id)) st1 (\<lambda>session.
        let link = (ks_link session)\<lparr>tx_open := False\<rparr> in
        if \<not> ks_has_task session then Some (Inl (Msg ''no task handle''), st1)
        else Option.bind (join_link link) (\<lambda>j.
          Some (andThen (join_result ''keygen task join error'' ''keygen protocol error'' j) (\<lambda>ks_bytes.
                  keygen_completed_reply C D session_id 0 ks_bytes), st1))))"

definition keygen_round1 ::
  "codecs \<Rightarrow> dkls_lib \<Rightarrow> call_ctx \<Rightarrow> string \<Rightarrow> string \<Rightarrow> engine \<Rightarrow> outcome" where
  "keygen_round1 C D x session_id server_payload st =
     attempt (parse_server_envelope_batch C server_payload) st (\<lambda>(server_env, server_msgs).
     attempt (instance_id_from_session C session_id) st (\<lambda>inst.
       let setup = two_party_setup inst;
           link = new_link (map_task (keyshare_as_slice D) (dkg_run D setup (random_seed x)))
       in Option.bind (exchange (cc_schedule x) link server_msgs) (\<lambda>(r, link1).
            attempt r st (\<lambda>out.
              case out of
                Some (client_msgs, _) \<Rightarrow>
                  Some (make_in_progress_batch C session_id Dkg (we_round server_env) client_msgs,
                        insert_keygen_session session_id \<lparr>ks_link = link1, ks_has_task = True\<rparr> st)
              | None \<Rightarrow>
                  Option.bind (join_link link1) (\<lambda>j.
                    Some (Inl (Round1Failed
                            (case j of Inl e \<Rightarrow> Inl (''keygen task panicked: '' @ e) | Inr r \<Rightarrow> r)), st))))))"

definition keygen_advance ::
  "codecs \<Rightarrow> dkls_lib \<Rightarrow> call_ctx \<Rightarrow> string \<Rightarrow> string \<Rightarrow> engine \<Rightarrow> outcome" where
  "keygen_advance C D x session_id server_payload st =
     attempt (ok_or (keygen_sessions st session_id) (NotFound ''keygen'' session_id)) st (\<lambda>session.
     attempt (parse_server_envelope_batch C server_payload) st (\<lambda>(server_env, server_msgs).
       Option.bind (exchange (cc_schedule x) (ks_link session) server_msgs) (\<lambda>(r, link1).
         let st1 = insert_keygen_session session_id (session\<lparr>ks_link := link1\<rparr>) st in
         attempt r st1 (\<lambda>out.
           case out of
             Some (client_msgs, _) \<Rightarrow>
               Some (make_in_progress_batch C session_id Dkg (we_round server_env) client_msgs, st1)
           | None \<Rightarrow>
               let st2 = snd (remove_keygen_session session_id st1) in
               if \<not> ks_has_task session then Some (Inl (Msg ''no task handle''), st2)
               else Option.bind (join_link link1) (\<lambda>j.
                 Some (andThen (join_result ''keygen task join error'' ''keygen protocol error'' j)
                         (\<lambda>ks_bytes. keygen_completed_reply C D session_id (we_round server_env) ks_bytes),
                       st2))))))"

definition keygen ::
  "codecs \<Rightarrow> frost_lib \<Rightarrow> dkls_lib \<Rightarrow> call_ctx \<Rightarrow> string \<Rightarrow> i32 \<Rightarrow> string \<Rightarrow> engine \<Rightarrow> outcome" where
  "keygen C F D x session_id rnd server_payload st =
     (let route_to_ed25519 =
            (if rnd = 1 then detect_curve_from_envelope C server_payload = Ed25519
             else frost_keygen_session_exists session_id st)
      in if route_to_ed25519 then Some (frost_keygen C F x session_id rnd server_payload st)
         else if rnd = 0 then keygen_collect C D session_id st
         else if rnd = 1 then keygen_round1 C D x session_id server_payload st
         else keygen_advance C D x session_id server_payload st)"

section \<open>Recover\<close>

definition recovery_completed_reply ::
  "codecs \<Rightarrow> dkls_lib \<Rightarrow> call_ctx \<Rightarrow> string \<Rightarrow> byte \<Rightarrow> i32 \<Rightarrow> bytes \<Rightarrow> string res" where
  "recovery_completed_reply C D x session_id rnd rotation_version ks_bytes =
     andThen (extract_pubkey_and_address C D ks_bytes) (\<lambda>(address, pubkey_hex, _).
     andThen (add_i32 (cc_overflow_checks x) rotation_version 1) (\<lambda>next_version.
     andThen (to_json_string C (recovery_completed_json
                \<lparr>rc_mpc_key_id = session_id, rc_address = address, rc_public_key = pubkey_hex,
                 rc_rotation_version = next_version,
                 rc_local_encrypted_share = b64_encode C ks_bytes\<rparr>)) (\<lambda>completed_json.
       make_completed C rnd completed_json)))"

definition recover_collect ::
  "codecs \<Rightarrow> dkls_lib \<Rightarrow> call_ctx \<Rightarrow> string \<Rightarrow> engine \<Rightarrow> outcome" where
  "recover_collect C D x session_id st =
     (let (taken, st1) = remove_recovery_session session_id st in
      attempt (ok_or taken (NotFound ''recovery'' session_id)) st1 (\<lambda>session.
        let rv = rs_rotation_version session;
            link = (rs_link session)\<lparr>tx_open := False\<rparr>
        in if \<not> rs_has_task session then Some (Inl (Msg ''no task handle''), st1)
           else Option.bind (join_link link) (\<lambda>j.
             Some (andThen (join_result ''key_refresh task join error'' ''key_refresh protocol error'' j)
                     (\<lambda>ks_bytes. recovery_completed_reply C D x session_id 0 rv ks_bytes), st1))))"

definition recover_round1 ::
  "codecs \<Rightarrow> dkls_lib \<Rightarrow> call_ctx \<Rightarrow> string \<Rightarrow> string \<Rightarrow> string option \<Rightarrow> i32 option \<Rightarrow> engine
   \<Rightarrow> outcome" where
  "recover_round1 C D x session_id server_payload backup_share current_rotation_version st =
     attempt (parse_server_envelope_batch C server_payload) st (\<lambda>(server_env, server_msgs).
     attempt (ok_or backup_share (Msg ''backup_share required for round 1'')) st (\<lambda>bs.
     attempt (ok_or current_rotation_version (Msg ''current_rotation_version required for round 1'')) st (\<lambda>rv.
     attempt (wrap_err ''base64 decode backup_share'' (b64_decode C bs)) st (\<lambda>old_ks_bytes.
     attempt (ok_or (keyshare_from_bytes D old_ks_bytes) (Msg ''invalid backup keyshare bytes'')) st (\<lambda>old_ks.
     attempt (instance_id_from_session C session_id) st (\<lambda>inst.
       let setup = two_party_setup inst;
           link = new_link (map_task (keyshare_as_slice D)
                    (key_refresh_run D setup (random_seed x) (keyshare_for_refresh D old_ks)))
       in Option.bind (exchange (cc_schedule x) link server_msgs) (\<lambda>(r, link1).
            attempt r st (\<lambda>out.
              case out of
                Some (client_msgs, _) \<Rightarrow>
                  Some (make_in_progress_batch C session_id Rotation (we_round server_env) client_msgs,
                        insert_recovery_session session_id
                          \<lparr>rs_link = link1, rs_has_task = True, rs_created_at = cc_now x,
                           rs_rotation_version = rv\<rparr> st)
              | None \<Rightarrow>
                  Some (Inl (Msg ''key_refresh task closed before producing first message''), st)))))))))"

definition recover_advance ::
  "codecs \<Rightarrow> dkls_lib \<Rightarrow> call_ctx \<Rightarrow> string \<Rightarrow> string \<Rightarrow> engine \<Rightarrow> outcome" where
  "recover_advance C D x session_id server_payload st =
     (case recovery_sessions st session_id of
        None \<Rightarrow> Some (Inl (NotFound ''recovery'' session_id), st)
      | Some session \<Rightarrow>
          if elapsed (cc_now x) (rs_created_at session) > SESSION_TTL
          then Some (Inl (Expired ''recovery'' session_id), snd (remove_recovery_session session_id st))
          else
            attempt (parse_server_envelope_batch C server_payload) st (\<lambda>(server_env, server_msgs).
              Option.bind (exchange (cc_schedule x) (rs_link session) server_msgs) (\<lambda>(r, link1).
                let st1 = insert_recovery_session session_id (session\<lparr>rs_link := link1\<rparr>) st in
                attempt r st1 (\<lambda>out.
                  case out of
                    Some (client_msgs, _) \<Rightarrow>
                      Some (make_in_progress_batch C session_id Rotation (we_round server_env) client_msgs, st1)
                  | None \<Rightarrow>
                      let st2 = snd (remove_recovery_session session_id st1) in
                      if \<not> rs_has_task session then Some (Inl (Msg ''no task handle''), st2)
                      else Option.bind (join_link link1) (\<lambda>j.
                        Some (andThen (join_result ''key_refresh task join error''
                                         ''key_refresh protocol error'' j)
                                (\<lambda>ks_bytes. recovery_completed_reply C D x session_id (we_round server_env)
                                               (rs_rotation_version session) ks_bytes),
                              st2))))))"

definition recover ::
  "codecs \<Rightarrow> frost_lib \<Rightarrow> dkls_lib \<Rightarrow> call_ctx \<Rightarrow> string \<Rightarrow> i32 \<Rightarrow> string \<Rightarrow> string option
   \<Rightarrow> i32 option \<Rightarrow> engine \<Rightarrow> outcome" where
  "recover C F D x session_id rnd server_payload backup_share current_rotation_version st =
     (let route_to_ed25519 =
            (if rnd = 1 then opt_share_is_ed25519 C backup_share
             else frost_recovery_session_exists session_id st)
      in if route_to_ed25519 then
           Some (frost_recover C F x session_id rnd server_payload backup_share current_rotation_version st)
         else if rnd = 0 then recover_collect C D x session_id st
         else if rnd = 1 then
           recover_round1 C D x session_id server_payload backup_share current_rotation_version st
         else recover_advance C D x session_id server_payload st)"

section \<open>Sign\<close>

text \<open>What the spawned signing task maps its result to: the 64 bytes of r and s, and the
  recovery id.\<close>

definition sign_output :: "dkls_lib \<Rightarrow> ecdsa_signature \<times> recovery_id \<Rightarrow> bytes \<times> byte" where
  "sign_output D out =
     (case out of (sig, recid) \<Rightarrow>
        (case split_bytes D sig of (r, s) \<Rightarrow> (r @ s, recid_to_byte D recid)))"

definition sign_completed_reply ::
  "codecs \<Rightarrow> byte \<Rightarrow> bytes \<times> byte \<Rightarrow> string res" where
  "sign_completed_reply C rnd out =
     (case out of (sig_bytes, recid) \<Rightarrow>
        if length sig_bytes \<noteq> 64 then
          Inl (BadLength ''unexpected signature length: '' (length sig_bytes))
        else
          andThen (to_json_string C (sign_completed_json
                     \<lparr>sc_r = hex_encode C (take 32 sig_bytes),
                      sc_s = hex_encode C (drop 32 sig_bytes),
                      sc_recid = Some recid, sc_curve = ''secp256k1''\<rparr>)) (\<lambda>completed_json.
            make_completed C rnd completed_json))"

text \<open>
  Round 1 up to the point where the protocol starts: the envelope, the digest, the keyshare,
  the guard on exported keys and the setup, with the compressed key in hex.
\<close>

definition sign_prepare ::
  "codecs \<Rightarrow> dkls_lib \<Rightarrow> string \<Rightarrow> string \<Rightarrow> string option \<Rightarrow> string option \<Rightarrow> engine
   \<Rightarrow> (wire_envelope \<times> bytes list \<times> message_digest \<times> string \<times> dsg_setup) res" where
  "sign_prepare C D session_id server_payload share message_hash_hex st =
     andThen (parse_server_envelope_batch C server_payload) (\<lambda>(server_env, server_msgs).
     andThen (ok_or share (Msg ''share required for round 1'')) (\<lambda>share_b64.
     andThen (ok_or message_hash_hex (Msg ''message_hash_hex required for round 1'')) (\<lambda>hash_hex.
     andThen (message_digest_from_hex C hash_hex) (\<lambda>digest.
     andThen (share_envelope_decode C share_b64) (\<lambda>(crv, ks_bytes).
       if crv \<noteq> Secp256k1 then Inl (Msg ''expected secp256k1 keyshare on this dispatch path'')
       else
         andThen (ok_or (keyshare_from_bytes D ks_bytes) (Msg ''invalid keyshare bytes'')) (\<lambda>ks.
         let pk_hex = hex_encode C (encoded_point D (public_key D ks) True) in
         if pk_hex \<in> exported_keys st then Inl (Msg ''signing rejected: keyshare has been exported'')
         else
           andThen (instance_id_from_session C session_id) (\<lambda>inst.
           andThen (wrap_err ''invalid derivation path'' (parse_derivation_path D ''m'')) (\<lambda>chain_path.
             Inr (server_env, server_msgs, digest, pk_hex,
                  \<lparr>ds_instance = inst, ds_party = 0, ds_verifying_keys = [0, 1], ds_keyshare = ks,
                   ds_hash = into_bytes digest, ds_chain_path = chain_path\<rparr>)))))))))"

definition sign_round1 ::
  "codecs \<Rightarrow> dkls_lib \<Rightarrow> call_ctx \<Rightarrow> string \<Rightarrow> string \<Rightarrow> string option \<Rightarrow> string option \<Rightarrow> engine
   \<Rightarrow> outcome" where
  "sign_round1 C D x session_id server_payload share message_hash_hex st =
     attempt (sign_prepare C D session_id server_payload share message_hash_hex st) st
       (\<lambda>(server_env, server_msgs, digest, pk_hex, setup).
       let link = new_link (map_task (sign_output D) (sign_run D setup (random_seed x)))
       in Option.bind (exchange (cc_schedule x) link server_msgs) (\<lambda>(r, link1).
            attempt r st (\<lambda>out.
              case out of
                Some (client_msgs, _) \<Rightarrow>
                  Some (make_in_progress_batch C session_id Dsg (we_round server_env) client_msgs,
                        insert_sign_session session_id
                          \<lparr>ss_link = link1, ss_has_task = True, ss_digest = digest,
                           ss_consumed = False, ss_public_key_hex = pk_hex\<rparr> st)
              | None \<Rightarrow>
                  Some (Inl (Msg ''sign task closed before producing first message''), st))))"

definition sign_advance ::
  "codecs \<Rightarrow> call_ctx \<Rightarrow> string \<Rightarrow> string \<Rightarrow> engine \<Rightarrow> outcome" where
  "sign_advance C x session_id server_payload st =
     attempt (ok_or (sign_sessions st session_id) (NotFound ''sign'' session_id)) st (\<lambda>session.
     if ss_consumed session then Some (Inl (Consumed ''sign'' session_id), st)
     else
       attempt (parse_server_envelope_batch C server_payload) st (\<lambda>(server_env, server_msgs).
         Option.bind (exchange (cc_schedule x) (ss_link session) server_msgs) (\<lambda>(r, link1).
           let session1 = session\<lparr>ss_link := link1\<rparr>;
               st1 = insert_sign_session session_id session1 st
           in attempt r st1 (\<lambda>out.
             let session2 = session1\<lparr>ss_consumed := True\<rparr> in
             case out of
               Some (client_msgs, _) \<Rightarrow>
                 let session3 = session2\<lparr>ss_consumed := False\<rparr> in
                 Some (make_in_progress_batch C session_id Dsg (we_round server_env) client_msgs,
                       insert_sign_session session_id session3 st)
             | None \<Rightarrow>
                 let st2 = snd (remove_sign_session session_id st1) in
                 if \<not> ss_has_task session then Some (Inl (Msg ''no task handle''), st2)
                 else Option.bind (join_link link1) (\<lambda>j.
                   Some (andThen (join_result ''sign task join error'' ''sign protocol error'' j)
                           (\<lambda>sig_out. sign_completed_reply C (we_round server_env) sig_out), st2))))))"

definition sign ::
  "codecs \<Rightarrow> frost_lib \<Rightarrow> dkls_lib \<Rightarrow> call_ctx \<Rightarrow> string \<Rightarrow> i32 \<Rightarrow> string \<Rightarrow> string option
   \<Rightarrow> string option \<Rightarrow> engine \<Rightarrow> outcome" where
  "sign C F D x session_id rnd server_payload share message_hash_hex st =
     (let route_to_ed25519 =
            (if rnd = 1 then opt_share_is_ed25519 C share
             else frost_sign_session_exists session_id st)
      in if route_to_ed25519 then
           Some (frost_sign C F x session_id rnd server_payload share message_hash_hex st)
         else if rnd = 1 then sign_round1 C D x session_id server_payload share message_hash_hex st
         else sign_advance C x session_id server_payload st)"

section \<open>Export\<close>

text \<open>\<open>xs.get(i).ok_or(e)?\<close>.\<close>

definition list_get :: "'a list \<Rightarrow> nat \<Rightarrow> 'a option" where
  "list_get xs i = (if i < length xs then Some (xs ! i) else None)"

definition secp_export_private_key ::
  "codecs \<Rightarrow> dkls_lib \<Rightarrow> string \<Rightarrow> string \<Rightarrow> engine \<Rightarrow> string res \<times> engine" where
  "secp_export_private_key C D local_share server_share_private st =
     question (wrap_err ''base64 decode local_share'' (b64_decode C local_share)) st (\<lambda>local_bytes.
     question (wrap_err ''base64 decode server_share_private'' (b64_decode C server_share_private)) st
       (\<lambda>server_bytes.
     question (ok_or (keyshare_from_bytes D local_bytes) (Msg ''invalid local keyshare bytes'')) st (\<lambda>ks0.
     question (ok_or (keyshare_from_bytes D server_bytes) (Msg ''invalid server keyshare bytes'')) st (\<lambda>ks1.
       let pk0 = public_key D ks0; pk1 = public_key D ks1 in
       if pk0 \<noteq> pk1 then
         (Inl (Msg ''private key reconstruction failed: public key mismatch''), st)
       else
         let party_id_0 = unat (party_id D ks0); party_id_1 = unat (party_id D ks1) in
         question (ok_or (list_get (x_i_list D ks0) party_id_0)
                     (Msg ''x_i_list index out of range for local'')) st (\<lambda>x_i_0.
         question (ok_or (list_get (rank_list D ks0) party_id_0)
                     (Msg ''rank_list index out of range for local'')) st (\<lambda>rank_0.
         question (ok_or (list_get (x_i_list D ks1) party_id_1)
                     (Msg ''x_i_list index out of range for server'')) st (\<lambda>x_i_1.
         question (ok_or (list_get (rank_list D ks1) party_id_1)
                     (Msg ''rank_list index out of range for server'')) st (\<lambda>rank_1.
         question (ok_or (combine_shares D [(x_i_0, unat rank_0), (x_i_1, unat rank_1)]
                            [s_i D ks0, s_i D ks1] pk0)
                     (Msg ''private key reconstruction failed: public key mismatch after combining'')) st
           (\<lambda>private_key.
         question (derive_evm_address C (encoded_point D pk0 False)) st (\<lambda>address.
           let private_key_hex = hex_encode C (secp_scalar_bytes D private_key);
               pk_compressed_hex = hex_encode C (encoded_point D pk0 True);
               st1 = insert_exported_key pk_compressed_hex st
           in (to_json_string C (export_result_json
                 \<lparr>er_private_key = private_key_hex, er_address = address, er_exported = True\<rparr>),
               st1)))))))))))"

definition export_private_key ::
  "codecs \<Rightarrow> frost_lib \<Rightarrow> dkls_lib \<Rightarrow> ('s::comm_ring_1) scalar_lib \<Rightarrow> string \<Rightarrow> string \<Rightarrow> engine
   \<Rightarrow> string res \<times> engine" where
  "export_private_key C F D S local_share server_share_private st =
     (if share_is_ed25519 C local_share
      then frost_export_private_key C F S local_share server_share_private st
      else secp_export_private_key C D local_share server_share_private st)"

end
