(* ===== verification/Example_Libs.thy ===== *)
theory Example_Libs
  imports Crates Example_Codecs "HOL-Library.Numeral_Type"
begin

text \<open>
  Small concrete crates at which theorems about the engine are applied: a FROST library whose
  packages are the bytes of the key, a DKLs23 library whose protocols exchange one message, the
  scalar field of five elements, and a cipher that exclusive-ors with the key's first byte.
\<close>

definition ex_vk :: bytes where
  "ex_vk = replicate 32 9"

definition ex_kp :: key_package where
  "ex_kp = KeyPackage [3]"

definition ex_pkp :: public_key_package where
  "ex_pkp = PublicKeyPackage ex_vk"

text \<open>The share text of a key package and a public key package.\<close>

definition ex_material :: "bytes \<Rightarrow> bytes \<Rightarrow> string" where
  "ex_material kp pkp =
     put_json (JObj [(''v'', JNum 2), (''curve'', JStr ''ed25519''),
       (''share'', JStr (put_json (JObj [(''kp'', JStr (string_of_bytes kp)),
                                        (''pkp'', JStr (string_of_bytes pkp))])))])"

fun ex_build_share :: "key_package \<Rightarrow> public_key_package \<Rightarrow> string + string" where
  "ex_build_share (KeyPackage kp) (PublicKeyPackage pkp) = Inr (ex_material kp pkp)"

definition ex_frost :: frost_lib where
  "ex_frost =
     \<lparr>lib_keygen_part1 = (\<lambda>i rng. Inr (KeygenState [rng 0], ''k1'')),
      lib_keygen_part2 = (\<lambda>s inner. Inr (s, ''k2'')),
      lib_keygen_part3 = (\<lambda>s inner. Inr (ex_kp, ex_pkp)),
      lib_recovery_part1 = (\<lambda>kp pkp rng. case pkp of PublicKeyPackage b \<Rightarrow> Inr (RecoveryState b, ''q1'')),
      lib_recovery_part2 = (\<lambda>s inner. Inr (s, ''q2'')),
      lib_recovery_part3 =
        (\<lambda>s inner. case s of RecoveryState b \<Rightarrow> Inr (KeyPackage [8], PublicKeyPackage b)),
      old_pub_key_pkg = (\<lambda>s. case s of RecoveryState b \<Rightarrow> PublicKeyPackage b),
      lib_build_share_envelope = ex_build_share,
      verifying_key_serialize = (\<lambda>p. case p of PublicKeyPackage b \<Rightarrow> Inr b),
      key_package_deserialize = (\<lambda>b. Inr (KeyPackage b)),
      public_key_package_deserialize = (\<lambda>b. Inr (PublicKeyPackage b)),
      identifier_serialize = (\<lambda>kp. case kp of KeyPackage b \<Rightarrow> take 32 b),
      signing_share_serialize = (\<lambda>kp. case kp of KeyPackage b \<Rightarrow> drop 32 b),
      commit = (\<lambda>kp rng. (SigningNonces [rng 0], SigningCommitments [rng 0])),
      commitments_serialize = (\<lambda>c. case c of SigningCommitments b \<Rightarrow> Inr b),
      commitments_deserialize = (\<lambda>b. Inr (SigningCommitments b)),
      signing_package_deserialize = (\<lambda>b. Inr (SigningPackage b)),
      signing_package_message = (\<lambda>p. case p of SigningPackage b \<Rightarrow> b),
      signature_share_deserialize = (\<lambda>b. Inr (SignatureShare b)),
      round2_sign = (\<lambda>p n kp. Inr (SignatureShare [1])),
      aggregate = (\<lambda>p shares pkp. Inr (FrostSignature (replicate 32 5 @ replicate 32 6))),
      signature_serialize = (\<lambda>s. case s of FrostSignature b \<Rightarrow> Inr b)\<rparr>"

section \<open>DKLs23\<close>

text \<open>A protocol that answers the server's first message, and ends with the second.\<close>

definition ex_run :: "bytes \<Rightarrow> 'r \<Rightarrow> 'r task" where
  "ex_run m r = Await (\<lambda>_. Emit m (\<lambda>_. Await (\<lambda>_. Finished (Inr r))))"

definition ex_ks :: bytes where
  "ex_ks = as_bytes ''z''"

definition ex_dkls :: dkls_lib where
  "ex_dkls =
     \<lparr>dkg_run = (\<lambda>setup seed. ex_run [1] (Keyshare ex_ks)),
      key_refresh_run = (\<lambda>setup seed old. ex_run [2] (Keyshare ex_ks)),
      sign_run = (\<lambda>setup seed. ex_run [3] (EcdsaSignature (replicate 64 4), RecoveryId [1])),
      keyshare_as_slice = (\<lambda>ks. case ks of Keyshare b \<Rightarrow> b),
      keyshare_from_bytes = (\<lambda>b. if b = ex_ks then Some (Keyshare b) else None),
      keyshare_for_refresh = (\<lambda>ks. case ks of Keyshare b \<Rightarrow> RefreshShare b),
      split_bytes = (\<lambda>s. case s of EcdsaSignature b \<Rightarrow> (take 32 b, drop 32 b)),
      recid_to_byte = (\<lambda>r. case r of RecoveryId b \<Rightarrow> hd b),
      parse_derivation_path = (\<lambda>s. Inr (DerivationPath s)),
      public_key = (\<lambda>ks. case ks of Keyshare b \<Rightarrow> Point b),
      encoded_point = (\<lambda>p compressed. if compressed then 2 # replicate 32 6 else 4 # replicate 64 6),
      party_id = (\<lambda>ks. 0),
      x_i_list = (\<lambda>ks. [SecpScalar [1], SecpScalar [2]]),
      rank_list = (\<lambda>ks. [0, 0]),
      s_i = (\<lambda>ks. SecpScalar [5]),
      combine_shares = (\<lambda>xs ss pk. Some (SecpScalar [6])),
      secp_scalar_bytes = (\<lambda>s. case s of SecpScalar b \<Rightarrow> b)\<rparr>"

section \<open>Scalars\<close>

definition ex_scalar_byte :: "5 \<Rightarrow> byte" where
  "ex_scalar_byte x =
     (if x = 0 then 0 else if x = 1 then 1 else if x = 2 then 2 else if x = 3 then 3 else 4)"

definition ex_scalar_of :: "bytes \<Rightarrow> 5 option" where
  "ex_scalar_of bs =
     (case bs of
        b # _ \<Rightarrow> if b = 0 then Some 0 else if b = 1 then Some 1 else if b = 2 then Some 2
                 else if b = 3 then Some 3 else if b = 4 then Some 4 else None
      | [] \<Rightarrow> None)"

definition ex_scalars :: "5 scalar_lib" where
  "ex_scalars =
     \<lparr>from_canonical_bytes = ex_scalar_of,
      scalar_to_bytes = (\<lambda>x. ex_scalar_byte x # replicate 31 0),
      scalar_invert = (\<lambda>x. x * x * x),
      basepoint_mul = (\<lambda>x. replicate 32 (ex_scalar_byte x))\<rparr>"

lemma five_cases: "x = 0 \<or> x = 1 \<or> x = 2 \<or> x = 3 \<or> x = (4 :: 5)"
proof (cases x)
  case (of_int z)
  then have "z \<in> {0, 1, 2, 3, 4}" by auto
  with of_int show ?thesis by auto
qed

lemma ex_scalar_law: "scalar_law ex_scalars"
proof -
  have "x * (x * x * x) = 1" if "x \<noteq> 0" for x :: 5
    using that five_cases [of x] by auto
  moreover have "ex_scalar_of (ex_scalar_byte x # bs) = Some x" for x bs
    using five_cases [of x] by (auto simp: ex_scalar_of_def ex_scalar_byte_def)
  ultimately show ?thesis
    by (simp add: scalar_law_def ex_scalars_def)
qed

section \<open>HKDF and AES-GCM\<close>

definition ex_aead :: aead_lib where
  "ex_aead =
     \<lparr>hkdf_sha256_expand =
        (\<lambda>ikm info n. if n \<le> 255 * 32 then Some (take n (ikm @ replicate n 0)) else None),
      aes_gcm_encrypt = (\<lambda>k n m. Inr (map (\<lambda>b. xor b (k ! 0)) m)),
      aes_gcm_decrypt = (\<lambda>k n c. Inr (map (\<lambda>b. xor b (k ! 0)) c))\<rparr>"

lemma ex_aead_law: "aead_law ex_aead"
proof -
  have "map (\<lambda>b. xor b k) (map (\<lambda>b. xor b k) m) = m" for m :: bytes and k
    by (induction m) (simp_all add: xor.assoc)
  then show ?thesis
    unfolding aead_law_def ex_aead_def by (auto simp: min_def)
qed

section \<open>The bridge on a little-endian machine\<close>

definition i32_le_bytes :: "i32 \<Rightarrow> bytes" where
  "i32_le_bytes w = [ucast w, ucast (drop_bit 8 w), ucast (drop_bit 16 w), ucast (drop_bit 24 w)]"

definition i32_of_le_bytes :: "bytes \<Rightarrow> i32" where
  "i32_of_le_bytes bs =
     or (ucast (bs ! 0)) (or (push_bit 8 (ucast (bs ! 1)))
       (or (push_bit 16 (ucast (bs ! 2))) (push_bit 24 (ucast (bs ! 3)))))"

lemma octet_cases:
  fixes n :: nat
  assumes "n < 32"
  obtains "n < 8" | k where "n = 8 + k" "k < 8" | k where "n = 16 + k" "k < 8"
    | k where "n = 24 + k" "k < 8"
proof -
  consider "n < 8" | "8 \<le> n" "n < 16" | "16 \<le> n" "n < 24" | "24 \<le> n" by linarith
  then show thesis
  proof cases
    case 1
    then show ?thesis by (rule that(1))
  next
    case 2
    then show ?thesis by (intro that(2) [of "n - 8"]) simp_all
  next
    case 3
    then show ?thesis by (intro that(3) [of "n - 16"]) simp_all
  next
    case 4
    with assms show ?thesis by (intro that(4) [of "n - 24"]) simp_all
  qed
qed

lemma i32_bytes_roundtrip: "i32_of_le_bytes (i32_le_bytes w @ rest) = w"
proof (rule bit_word_eqI)
  fix n assume "n < LENGTH(32)"
  then have "n < 32" by simp
  then show "bit (i32_of_le_bytes (i32_le_bytes w @ rest)) n \<longleftrightarrow> bit w n"
    by (cases rule: octet_cases) (simp_all add: i32_of_le_bytes_def i32_le_bytes_def bit_simps)
qed

definition ex_bridge :: bridge where
  "ex_bridge =
     \<lparr>read_u8 = (\<lambda>bs. case bs of [] \<Rightarrow> Inl ''UnexpectedEof'' | b # rest \<Rightarrow> Inr (b, rest)),
      write_u8 = (\<lambda>b. [b]),
      read_i32 =
        (\<lambda>bs. if length bs < 4 then Inl ''UnexpectedEof'' else Inr (i32_of_le_bytes bs, drop 4 bs)),
      write_i32 = i32_le_bytes,
      from_vec_to_array = (\<lambda>n bs. if length bs = n then Inr bs else Inl ''Expected a Vec of another length''),
      deserializer_end = (\<lambda>bs. if bs = [] then Inr () else Inl ''assertion failed'')\<rparr>"

lemma byte_bits: "8 \<le> n \<Longrightarrow> \<not> bit (x :: byte) n"
  using bit_imp_le_length [of x n] by auto

lemma i32_bytes_surj: "i32_le_bytes (i32_of_le_bytes [a, b, c, d]) = [a, b, c, d]"
proof -
  have "ucast (i32_of_le_bytes [a, b, c, d]) = a"
    by (rule bit_word_eqI) (simp add: i32_of_le_bytes_def bit_simps)
  moreover have "ucast (drop_bit 8 (i32_of_le_bytes [a, b, c, d])) = b"
    by (rule bit_word_eqI) (simp add: i32_of_le_bytes_def bit_simps byte_bits)
  moreover have "ucast (drop_bit 16 (i32_of_le_bytes [a, b, c, d])) = c"
    by (rule bit_word_eqI) (simp add: i32_of_le_bytes_def bit_simps byte_bits)
  moreover have "ucast (drop_bit 24 (i32_of_le_bytes [a, b, c, d])) = d"
    by (rule bit_word_eqI) (simp add: i32_of_le_bytes_def bit_simps byte_bits)
  ultimately show ?thesis by (simp add: i32_le_bytes_def)
qed
lemma ex_bridge_law: "bridge_law ex_bridge"
proof -
  have "\<exists>w. i32_le_bytes w = take 4 bs" if "4 \<le> length bs" for bs
  proof -
    have "length (take 4 bs) = Suc (Suc (Suc (Suc 0)))" using that by simp
    then obtain a b c d where "take 4 bs = [a, b, c, d]"
      unfolding length_Suc_conv by auto
    then show ?thesis using i32_bytes_surj by metis
  qed
  then show ?thesis
    using i32_bytes_roundtrip by (simp add: bridge_law_def ex_bridge_def) (simp add: i32_le_bytes_def)
qed

section \<open>A call\<close>

definition ex_ctx :: "schedule \<Rightarrow> call_ctx" where
  "ex_ctx sch =
     \<lparr>cc_now = 0, cc_entropy = (\<lambda>i. word_of_nat i), cc_schedule = sch, cc_overflow_checks = False\<rparr>"

end
