(* ===== verification/Frost_Proofs.thy ===== *)
theory Frost_Proofs
  imports Frost_Engine Example_Libs
begin

text \<open>
  The properties of the FROST engine: what each round answers and leaves in the session tables,
  that nonces are taken once and only for the message the session was opened with, that a
  refresh keeps the key, when sessions expire, and that the export reconstructs the secret.
\<close>

section \<open>Replies\<close>

text \<open>The envelope a FROST round answers with.\<close>

definition frost_env :: "string \<Rightarrow> protocol_type \<Rightarrow> byte \<Rightarrow> string \<Rightarrow> wire_envelope" where
  "frost_env sid p rnd inner =
     \<lparr>we_session_id = sid, we_protocol = p, we_round = rnd, we_from_id = 0, we_to_id = Some 1,
      we_payload_encoding = ''cbor_base64'', we_payload = inner, we_step = None,
      we_payloads = None, we_curve = Some ''ed25519''\<rparr>"

lemma frost_reply_reads:
  assumes "json_law C"
  shows "\<exists>s. frost_reply C sid p rnd inner = Inr s \<and> is_continue C rnd (frost_env sid p rnd inner) s"
  using continue_reads [OF assms, of "frost_env sid p rnd inner" rnd]
  by (simp add: frost_reply_def encode_wire_payload_from_inner_def frost_make_in_progress_def
        wire_envelope_new_def frost_env_def)

lemma frost_completed_reads:
  assumes "json_law C" and "json_plain j"
  shows "\<exists>p s. to_json_string C j = Inr p \<and> frost_make_completed C rnd p = Inr s
           \<and> is_completed C rnd j s"
  using completed_reads [OF assms, of rnd] by (auto simp: frost_make_completed_def)

lemma parse_wire_Inr:
  "from_str C dec_wire_envelope p = Inr e \<Longrightarrow> parse_wire C p = Inr e"
  by (simp add: parse_wire_def)

section \<open>Keygen\<close>

text \<open>
  Property C22: the three keygen rounds, with a library that succeeds, answer the two messages of
  the library and then the completed payload with the key in hex, its base58 address and the
  share, and leave the engine as it was, without the session.
\<close>

theorem frost_keygen_completes:
  assumes "json_law C"
    and "from_str C dec_wire_envelope p1 = Inr e1" and "from_str C dec_wire_envelope p2 = Inr e2"
    and "lib_keygen_part1 F 1 (cc_entropy x1) = Inr (s1, m1)"
    and "lib_keygen_part2 F s1 (we_payload e1) = Inr (s2, m2)"
    and "lib_keygen_part3 F s2 (we_payload e2) = Inr (kp, pkp)"
    and "verifying_key_serialize F pkp = Inr vk" and "length vk = 32"
    and "lib_build_share_envelope F kp pkp = Inr share"
  shows "\<exists>r1 r2 r3 st1 st2.
           frost_keygen C F x1 sid 1 p1 st = (Inr r1, st1)
           \<and> is_continue C 1 (frost_env sid Dkg 1 m1) r1
           \<and> frost_keygen C F x2 sid 2 p2 st1 = (Inr r2, st2)
           \<and> is_continue C 2 (frost_env sid Dkg 2 m2) r2
           \<and> frost_keygen C F x3 sid 0 p3 st2 =
               (Inr r3, st\<lparr>frost_keygen_sessions := (frost_keygen_sessions st)(sid := None)\<rparr>)
           \<and> is_completed C 0 (keygen_completed_json
                \<lparr>kc_mpc_key_id = sid, kc_address = bs58_encode C vk, kc_public_key = hex_encode C vk,
                 kc_curve = ''ed25519'', kc_threshold = 2, kc_key_ref = sid, kc_backup_state = ''none'',
                 kc_rotation_version = 1, kc_local_encrypted_share = share\<rparr>) r3"
proof -
  obtain r1 where r1: "frost_reply C sid Dkg 1 m1 = Inr r1" "is_continue C 1 (frost_env sid Dkg 1 m1) r1"
    using frost_reply_reads [OF assms(1)] by blast
  obtain r2 where r2: "frost_reply C sid Dkg 2 m2 = Inr r2" "is_continue C 2 (frost_env sid Dkg 2 m2) r2"
    using frost_reply_reads [OF assms(1)] by blast
  let ?j = "keygen_completed_json
                \<lparr>kc_mpc_key_id = sid, kc_address = bs58_encode C vk, kc_public_key = hex_encode C vk,
                 kc_curve = ''ed25519'', kc_threshold = 2, kc_key_ref = sid, kc_backup_state = ''none'',
                 kc_rotation_version = 1, kc_local_encrypted_share = share\<rparr>"
  obtain q r3 where r3: "to_json_string C ?j = Inr q" "frost_make_completed C 0 q = Inr r3"
    "is_completed C 0 ?j r3"
    using frost_completed_reads [OF assms(1) payload_json_plain(3)] by blast
  have parse: "parse_wire C p1 = Inr e1" "parse_wire C p2 = Inr e2"
    using assms(2,3) by (simp_all add: parse_wire_Inr)
  show ?thesis
    using r1 r2 r3 parse assms(4-)
    by (simp add: frost_keygen_def frost_keygen_round1_def frost_keygen_round2_def
          frost_keygen_finalize_def session_defs verifying_key_bytes_def derive_solana_address_def
          build_share_envelope_def)
qed

text \<open>The example library, and the envelope its tests use.\<close>

lemma ex_frost_simps [simp]:
  "verifying_key_serialize ex_frost (PublicKeyPackage b) = Inr b"
  "lib_keygen_part1 ex_frost i rng = Inr (KeygenState [rng 0], ''k1'')"
  "lib_keygen_part2 ex_frost ks inner = Inr (ks, ''k2'')"
  "lib_keygen_part3 ex_frost ks inner = Inr (ex_kp, ex_pkp)"
  "lib_build_share_envelope ex_frost = ex_build_share"
  by (simp_all add: ex_frost_def)

lemma ex_wire_text:
  obtains p where "from_str ex_codecs dec_wire_envelope p = Inr env"
  using wire_envelope.text_roundtrip [OF ex_json_law] by blast

theorem frost_keygen_completes_witness:
  "\<exists>p r1 r2 r3 st1 st2.
     frost_keygen ex_codecs ex_frost (ex_ctx []) ''k'' 1 p init_engine = (Inr r1, st1)
     \<and> frost_keygen ex_codecs ex_frost (ex_ctx []) ''k'' 2 p st1 = (Inr r2, st2)
     \<and> frost_keygen ex_codecs ex_frost (ex_ctx []) ''k'' 0 '''' st2 =
         (Inr r3, init_engine\<lparr>frost_keygen_sessions := (frost_keygen_sessions init_engine)(''k'' := None)\<rparr>)"
proof -
  obtain p where p: "from_str ex_codecs dec_wire_envelope p = Inr (frost_env ''k'' Dkg 1 ''m'')"
    by (rule ex_wire_text)
  have "verifying_key_serialize ex_frost ex_pkp = Inr ex_vk" "length ex_vk = 32"
    "lib_build_share_envelope ex_frost ex_kp ex_pkp = Inr (ex_material [3] ex_vk)"
    by (simp_all add: ex_pkp_def ex_kp_def ex_vk_def)
  from frost_keygen_completes [OF ex_json_law p p ex_frost_simps(2-4) this,
      of "ex_ctx []" "''k''" init_engine "ex_ctx []" "ex_ctx []" "''''"] show ?thesis
    by blast
qed

section \<open>Sign\<close>

text \<open>The two halves of a signature payload, and the bytes they stand for.\<close>

lemma signature_halves:
  assumes "hex_law C"
  shows "\<exists>a b. hex_decode C (hex_encode C (take 32 sig)) = Inr a
           \<and> hex_decode C (hex_encode C (drop 32 sig)) = Inr b \<and> a @ b = sig"
  using assms by (simp add: codec_simps)

text \<open>
  Property C21: a signing run. Round 1 answers the client's commitments and keeps the nonces;
  round 2, given the server's package over the same message, answers the aggregated signature
  as \<open>r\<close> and \<open>s\<close> in hex, which together are its 64 bytes, and the session is gone.
\<close>

theorem frost_sign_completes:
  assumes "json_law C" and "hex_law C"
    and "from_str C dec_wire_envelope p1 = Inr e1" and "decode_payload C dec_sign_r1 e1 = Inr q1"
    and "deser_pkg C (commitments_deserialize F) (r1_commitments q1) = Inr sc"
    and "hex_decode C mh = Inr msg" and "extract_share_material C F share = Inr (kp, pkp)"
    and "verifying_key_serialize F pkp = Inr vk" and "hex_encode C vk \<notin> exported_keys st"
    and "commit F kp (cc_entropy x1) = (nonces, oc)" and "commitments_serialize F oc = Inr ob"
    and "from_str C dec_wire_envelope p2 = Inr e2" and "decode_payload C dec_sign_r2 e2 = Inr q2"
    and "deser_pkg C (signing_package_deserialize F) (r2_signing_pkg q2) = Inr pkg"
    and "deser_pkg C (signature_share_deserialize F) (r2_sig_share q2) = Inr ss"
    and "signing_package_message F pkg = msg" and "round2_sign F pkg nonces kp = Inr own"
    and "aggregate F pkg (Map.empty(1 \<mapsto> own, 2 \<mapsto> ss)) pkp = Inr sig"
    and "signature_serialize F sig = Inr sb" and "length sb = 64"
  shows "\<exists>t1 r1 r2 st1 a b.
           to_json_string C (sign_r1_json \<lparr>r1_commitments = hex_encode C ob\<rparr>) = Inr t1
           \<and> frost_sign C F x1 sid 1 p1 (Some share) (Some mh) st = (Inr r1, st1)
           \<and> is_continue C 1 (frost_env sid Dsg 1 (b64_encode C (as_bytes t1))) r1
           \<and> frost_sign C F x2 sid 2 p2 None None st1 =
               (Inr r2, st\<lparr>frost_sign_sessions := (frost_sign_sessions st)(sid := None)\<rparr>)
           \<and> is_completed C 2 (sign_completed_json
                \<lparr>sc_r = hex_encode C a, sc_s = hex_encode C b, sc_recid = None,
                 sc_curve = ''ed25519''\<rparr>) r2
           \<and> a @ b = sb"
proof -
  obtain t1 where t1: "to_json_string C (sign_r1_json \<lparr>r1_commitments = hex_encode C ob\<rparr>) = Inr t1"
    using sign_r1.to_string_total [OF assms(1)] by blast
  obtain r1 where r1: "frost_reply C sid Dsg 1 (b64_encode C (as_bytes t1)) = Inr r1"
    "is_continue C 1 (frost_env sid Dsg 1 (b64_encode C (as_bytes t1))) r1"
    using frost_reply_reads [OF assms(1)] by blast
  let ?j = "sign_completed_json
              \<lparr>sc_r = hex_encode C (take 32 sb), sc_s = hex_encode C (drop 32 sb), sc_recid = None,
               sc_curve = ''ed25519''\<rparr>"
  obtain q r2 where r2: "to_json_string C ?j = Inr q" "frost_make_completed C 2 q = Inr r2"
    "is_completed C 2 ?j r2"
    using frost_completed_reads [OF assms(1) sign_completed.enc_plain] by blast
  note parse = assms(3,12) [THEN parse_wire_Inr]
  let ?s = "\<lparr>fs_created_at = cc_now x1, fs_key_package = kp, fs_public_key_package = pkp,
             fs_message = msg, fs_nonces = Some nonces, fs_commitments = Map.empty(1 \<mapsto> oc, 2 \<mapsto> sc),
             fs_consumed = False, fs_verifying_key_hex = hex_encode C vk\<rparr>"
  have round1: "frost_sign C F x1 sid 1 p1 (Some share) (Some mh) st =
      (Inr r1, insert_frost_sign_session sid ?s st)"
    using parse assms(4-11) t1 r1
    by (simp add: frost_sign_def frost_sign_round1_def frost_sign_round1_checks_def
          verifying_key_bytes_def ser_pkg_def
          frost_client_identifier_def frost_server_identifier_def)
  have round2: "frost_sign C F x2 sid 2 p2 None None (insert_frost_sign_session sid ?s st) =
      (Inr r2, st\<lparr>frost_sign_sessions := (frost_sign_sessions st)(sid := None)\<rparr>)"
    using parse assms(13-20) r2
    by (simp add: frost_sign_def frost_sign_round2_def frost_sign_round2_open_def
          frost_sign_round2_finish_def session_defs frost_client_identifier_def
          frost_server_identifier_def Let_def)
  from t1 r1(2) r2(3) round1 round2 show ?thesis
    by (intro exI [of _ t1] exI [of _ r1] exI [of _ r2] exI [of _ "insert_frost_sign_session sid ?s st"]
          exI [of _ "take 32 sb"] exI [of _ "drop 32 sb"]) simp
qed

text \<open>An example share, and the payload of an example round.\<close>

lemma ex_share:
  obtains share where
    "share_envelope_decode ex_codecs share = Inr (Ed25519, as_bytes (put_json (key_material_json
       \<lparr>km_kp = string_of_bytes a, km_pkp = string_of_bytes b\<rparr>)))"
    and "extract_share_material ex_codecs ex_frost share = Inr (KeyPackage a, PublicKeyPackage b)"
proof -
  let ?m = "\<lparr>km_kp = string_of_bytes a, km_pkp = string_of_bytes b\<rparr>"
  obtain t where t: "to_json_string ex_codecs (key_material_json ?m) = Inr t"
    "from_slice ex_codecs dec_key_material (as_bytes t) = Inr ?m"
    using key_material.text_roundtrip [OF ex_json_law] by blast
  then have "t = put_json (key_material_json ?m)"
    by (simp add: to_json_string_def ex_codecs_def)
  moreover obtain s where
    "to_json_string ex_codecs (share_envelope_json (share_envelope_new ex_codecs Ed25519 (as_bytes t))) = Inr s"
    "from_slice ex_codecs dec_share_envelope (as_bytes s) =
       Inr (share_envelope_new ex_codecs Ed25519 (as_bytes t))"
    using share_envelope.text_roundtrip [OF ex_json_law] by blast
  moreover from this have
    "share_envelope_decode ex_codecs (b64_encode ex_codecs (as_bytes s)) = Inr (Ed25519, as_bytes t)"
    by (simp add: share_envelope_decode_def codec_simps ex_b64_law)
       (simp add: share_envelope_new_def codec_simps ex_b64_law curve_parse_def)
  ultimately show thesis
    using t by (intro that [of "b64_encode ex_codecs (as_bytes s)"])
      (simp_all add: extract_share_material_def, simp add: ex_codecs_def ex_frost_def)
qed

lemma ex_round_payload:
  assumes "from_slice ex_codecs dec (as_bytes t) = Inr v"
  obtains p e where "from_str ex_codecs dec_wire_envelope p = Inr e"
    and "decode_payload ex_codecs dec e = Inr v"
proof -
  obtain p where "from_str ex_codecs dec_wire_envelope p =
      Inr (frost_env ''s'' Dsg 1 (b64_encode ex_codecs (as_bytes t)))"
    by (rule ex_wire_text)
  then show thesis
    by (rule that) (simp add: decode_payload_def frost_env_def codec_simps ex_b64_law assms)
qed

lemma ex_deser:
  "deser_pkg ex_codecs f (hex_encode ex_codecs bs) = wrap_err ''frost deserialize'' (f bs)"
  by (simp add: deser_pkg_def codec_simps ex_hex_law)

theorem frost_sign_completes_witness:
  "\<exists>p1 p2 share r1 r2 st1.
     frost_sign ex_codecs ex_frost (ex_ctx []) ''s'' 1 p1 (Some share)
       (Some (hex_encode ex_codecs [1, 2])) init_engine = (Inr r1, st1)
     \<and> frost_sign ex_codecs ex_frost (ex_ctx []) ''s'' 2 p2 None None st1 =
         (Inr r2, init_engine\<lparr>frost_sign_sessions := (frost_sign_sessions init_engine)(''s'' := None)\<rparr>)"
proof -
  let ?q1 = "\<lparr>r1_commitments = hex_encode ex_codecs [4]\<rparr>"
  let ?q2 = "\<lparr>r2_signing_pkg = hex_encode ex_codecs [1, 2], r2_sig_share = hex_encode ex_codecs [5]\<rparr>"
  obtain t1 where "from_slice ex_codecs dec_sign_r1 (as_bytes t1) = Inr ?q1"
    using sign_r1.text_roundtrip [OF ex_json_law] by blast
  then obtain p1 e1 where p1: "from_str ex_codecs dec_wire_envelope p1 = Inr e1"
      "decode_payload ex_codecs dec_sign_r1 e1 = Inr ?q1"
    by (rule ex_round_payload)
  obtain t2 where "from_slice ex_codecs dec_sign_r2 (as_bytes t2) = Inr ?q2"
    using sign_r2.text_roundtrip [OF ex_json_law] by blast
  then obtain p2 e2 where p2: "from_str ex_codecs dec_wire_envelope p2 = Inr e2"
      "decode_payload ex_codecs dec_sign_r2 e2 = Inr ?q2"
    by (rule ex_round_payload)
  obtain share where share:
    "extract_share_material ex_codecs ex_frost share = Inr (KeyPackage [3], PublicKeyPackage ex_vk)"
    by (rule ex_share)
  have lib: "deser_pkg ex_codecs (commitments_deserialize ex_frost) (r1_commitments ?q1) =
      Inr (SigningCommitments [4])"
    "deser_pkg ex_codecs (signing_package_deserialize ex_frost) (r2_signing_pkg ?q2) =
      Inr (SigningPackage [1, 2])"
    "deser_pkg ex_codecs (signature_share_deserialize ex_frost) (r2_sig_share ?q2) =
      Inr (SignatureShare [5])"
    by (simp_all add: ex_deser) (simp_all add: ex_frost_def)
  have crypto: "verifying_key_serialize ex_frost (PublicKeyPackage ex_vk) = Inr ex_vk"
    "hex_encode ex_codecs ex_vk \<notin> exported_keys init_engine"
    "commit ex_frost (KeyPackage [3]) (cc_entropy (ex_ctx [])) = (SigningNonces [0], SigningCommitments [0])"
    "commitments_serialize ex_frost (SigningCommitments [0]) = Inr [0]"
    "signing_package_message ex_frost (SigningPackage [1, 2]) = [1, 2]"
    "round2_sign ex_frost (SigningPackage [1, 2]) (SigningNonces [0]) (KeyPackage [3]) =
       Inr (SignatureShare [1])"
    "aggregate ex_frost (SigningPackage [1, 2])
       (Map.empty(1 \<mapsto> SignatureShare [1], 2 \<mapsto> SignatureShare [5])) (PublicKeyPackage ex_vk) =
       Inr (FrostSignature (replicate 32 5 @ replicate 32 6))"
    "signature_serialize ex_frost (FrostSignature (replicate 32 5 @ replicate 32 6)) =
       Inr (replicate 32 5 @ replicate 32 6)"
    by (simp_all add: ex_frost_def init_engine_def ex_ctx_def)
  have len: "length (replicate 32 5 @ replicate 32 6 :: bytes) = 64" by simp
  from frost_sign_completes [OF ex_json_law ex_hex_law p1 lib(1) hex_decode_encode [OF ex_hex_law]
      share crypto(1-4) p2 lib(2,3) crypto(5-8) len, of "''s''" "ex_ctx []"]
  show ?thesis by metis
qed

lemma round2_open_Inr:
  assumes "frost_sign_round2_open C F sid p st = (Inr (pkg, server_share, session, nonces), st')"
  shows "\<exists>s. frost_sign_sessions st sid = Some s \<and> fs_nonces s = Some nonces \<and> \<not> fs_consumed s
           \<and> signing_package_message F pkg = fs_message s
           \<and> session = s\<lparr>fs_consumed := True, fs_nonces := None\<rparr>
           \<and> st' = st\<lparr>frost_sign_sessions := (frost_sign_sessions st)(sid := None)\<rparr>"
  using assms
  by (auto simp: frost_sign_round2_open_def question_Inr_iff session_defs Let_def split: if_splits)

text \<open>
  Property C20: nonces leave the engine only for the message they were committed to. When round 2
  gets as far as its own signature share, the session it read was not consumed, it held exactly
  these nonces and was opened with exactly the message of the server's package; the session is
  no longer in the table, and the one at hand has given its nonces up.
\<close>

theorem frost_sign_binds_message:
  assumes "frost_sign_round2_open C F sid p st = (Inr (pkg, server_share, session, nonces), st')"
  shows "\<exists>s. frost_sign_sessions st sid = Some s \<and> fs_nonces s = Some nonces \<and> \<not> fs_consumed s
           \<and> signing_package_message F pkg = fs_message s
           \<and> session = s\<lparr>fs_consumed := True, fs_nonces := None\<rparr>
           \<and> st' = st\<lparr>frost_sign_sessions := (frost_sign_sessions st)(sid := None)\<rparr>"
  using assms by (rule round2_open_Inr)

text \<open>An example session, and a round 2 on it.\<close>

definition ex_sign_session :: frost_sign_session where
  "ex_sign_session =
     \<lparr>fs_created_at = 0, fs_key_package = ex_kp, fs_public_key_package = ex_pkp,
      fs_message = [1, 2], fs_nonces = Some (SigningNonces [0]),
      fs_commitments = Map.empty(frost_client_identifier \<mapsto> SigningCommitments [0],
                                 frost_server_identifier \<mapsto> SigningCommitments [4]),
      fs_consumed = False, fs_verifying_key_hex = hex_encode ex_codecs ex_vk\<rparr>"

lemma ex_round1_checks:
  obtains p where "\<forall>share kp vk st. extract_share_material ex_codecs ex_frost share = Inr (kp, PublicKeyPackage vk) \<longrightarrow>
      hex_encode ex_codecs vk \<notin> exported_keys st \<longrightarrow>
      frost_sign_round1_checks ex_codecs ex_frost p (Some share) (Some (hex_encode ex_codecs [1, 2])) st =
        Inr (SigningCommitments [4], [1, 2], kp, PublicKeyPackage vk, hex_encode ex_codecs vk)"
proof -
  let ?q1 = "\<lparr>r1_commitments = hex_encode ex_codecs [4]\<rparr>"
  obtain t1 where "from_slice ex_codecs dec_sign_r1 (as_bytes t1) = Inr ?q1"
    using sign_r1.text_roundtrip [OF ex_json_law] by blast
  then obtain p e where p: "from_str ex_codecs dec_wire_envelope p = Inr e"
      "decode_payload ex_codecs dec_sign_r1 e = Inr ?q1"
    by (rule ex_round_payload)
  have lib: "deser_pkg ex_codecs (commitments_deserialize ex_frost) (hex_encode ex_codecs [4]) =
      Inr (SigningCommitments [4])"
    by (simp add: ex_deser) (simp add: ex_frost_def)
  show thesis
    by (rule that [of p])
       (simp add: frost_sign_round1_checks_def verifying_key_bytes_def codec_simps ex_hex_law
          parse_wire_Inr [OF p(1)] p(2) lib)
qed

lemma ex_round1:
  obtains share p r raw where "share_envelope_decode ex_codecs share = Inr (Ed25519, raw)"
    and "frost_sign_round1_checks ex_codecs ex_frost p (Some share) (Some (hex_encode ex_codecs [1, 2]))
           init_engine =
         Inr (SigningCommitments [4], [1, 2], ex_kp, ex_pkp, hex_encode ex_codecs ex_vk)"
    and "frost_sign ex_codecs ex_frost (ex_ctx []) ''s'' 1 p (Some share) (Some (hex_encode ex_codecs [1, 2]))
           init_engine = (Inr r, insert_frost_sign_session ''s'' ex_sign_session init_engine)"
proof -
  obtain share raw where share: "share_envelope_decode ex_codecs share = Inr (Ed25519, raw)"
    "extract_share_material ex_codecs ex_frost share = Inr (ex_kp, ex_pkp)"
    using ex_share [of "[3]" ex_vk] unfolding ex_kp_def ex_pkp_def by blast
  obtain p where "\<forall>share kp vk st. extract_share_material ex_codecs ex_frost share = Inr (kp, PublicKeyPackage vk) \<longrightarrow>
      hex_encode ex_codecs vk \<notin> exported_keys st \<longrightarrow>
      frost_sign_round1_checks ex_codecs ex_frost p (Some share) (Some (hex_encode ex_codecs [1, 2])) st =
        Inr (SigningCommitments [4], [1, 2], kp, PublicKeyPackage vk, hex_encode ex_codecs vk)"
    by (rule ex_round1_checks)
  from this [rule_format, OF share(2) [unfolded ex_pkp_def], of init_engine]
  have checks: "frost_sign_round1_checks ex_codecs ex_frost p (Some share)
      (Some (hex_encode ex_codecs [1, 2])) init_engine =
      Inr (SigningCommitments [4], [1, 2], ex_kp, ex_pkp, hex_encode ex_codecs ex_vk)"
    by (simp add: ex_pkp_def init_engine_def)
  obtain t where t: "to_json_string ex_codecs (sign_r1_json \<lparr>r1_commitments = hex_encode ex_codecs [0]\<rparr>) = Inr t"
    using sign_r1.to_string_total [OF ex_json_law] by blast
  obtain r where r: "frost_reply ex_codecs ''s'' Dsg 1 (b64_encode ex_codecs (as_bytes t)) = Inr r"
    using frost_reply_reads [OF ex_json_law] by blast
  have crypto: "commit ex_frost ex_kp (cc_entropy (ex_ctx [])) = (SigningNonces [0], SigningCommitments [0])"
    "commitments_serialize ex_frost (SigningCommitments [0]) = Inr [0]" "cc_now (ex_ctx []) = 0"
    by (simp_all add: ex_frost_def ex_kp_def ex_ctx_def)
  from that [OF share(1) checks] show thesis
    by (simp add: frost_sign_def frost_sign_round1_def checks crypto ser_pkg_def t r ex_sign_session_def)
qed

lemma ex_round2_open:
  obtains p where "frost_sign_round2_open ex_codecs ex_frost ''s'' p
        (insert_frost_sign_session ''s'' ex_sign_session st) =
      (Inr (SigningPackage [1, 2], SignatureShare [5],
            ex_sign_session\<lparr>fs_consumed := True, fs_nonces := None\<rparr>, SigningNonces [0]),
       st\<lparr>frost_sign_sessions := (frost_sign_sessions st)(''s'' := None)\<rparr>)"
proof -
  let ?q2 = "\<lparr>r2_signing_pkg = hex_encode ex_codecs [1, 2], r2_sig_share = hex_encode ex_codecs [5]\<rparr>"
  obtain t2 where "from_slice ex_codecs dec_sign_r2 (as_bytes t2) = Inr ?q2"
    using sign_r2.text_roundtrip [OF ex_json_law] by blast
  then obtain p e where p: "from_str ex_codecs dec_wire_envelope p = Inr e"
      "decode_payload ex_codecs dec_sign_r2 e = Inr ?q2"
    by (rule ex_round_payload)
  have lib: "signing_package_deserialize ex_frost b = Inr (SigningPackage b)"
    "signature_share_deserialize ex_frost b = Inr (SignatureShare b)"
    "signing_package_message ex_frost (SigningPackage b) = b" for b
    by (simp_all add: ex_frost_def)
  show thesis
    using parse_wire_Inr [OF p(1)] p(2)
    by (intro that [of p]) (simp add: frost_sign_round2_open_def ex_deser lib session_defs ex_sign_session_def)
qed

lemma ex_round2:
  obtains p sig where "fst (frost_sign_round2_open ex_codecs ex_frost ''s'' p
        (insert_frost_sign_session ''s'' ex_sign_session st)) =
      Inr (SigningPackage [1, 2], SignatureShare [5],
           ex_sign_session\<lparr>fs_consumed := True, fs_nonces := None\<rparr>, SigningNonces [0])"
    and "frost_sign ex_codecs ex_frost x ''s'' 2 p a b
        (insert_frost_sign_session ''s'' ex_sign_session st) =
      (Inr sig, st\<lparr>frost_sign_sessions := (frost_sign_sessions st)(''s'' := None)\<rparr>)"
proof -
  let ?sig = "replicate 32 5 @ replicate 32 6"
  have lib: "round2_sign ex_frost pkg nonces kp = Inr (SignatureShare [1])"
    "aggregate ex_frost pkg shares pkp = Inr (FrostSignature ?sig)"
    "signature_serialize ex_frost (FrostSignature ?sig) = Inr ?sig" for pkg nonces kp shares pkp
    by (simp_all add: ex_frost_def)
  obtain p where p: "frost_sign_round2_open ex_codecs ex_frost ''s'' p
        (insert_frost_sign_session ''s'' ex_sign_session st) =
      (Inr (SigningPackage [1, 2], SignatureShare [5],
            ex_sign_session\<lparr>fs_consumed := True, fs_nonces := None\<rparr>, SigningNonces [0]),
       st\<lparr>frost_sign_sessions := (frost_sign_sessions st)(''s'' := None)\<rparr>)"
    by (rule ex_round2_open)
  obtain q sig where "to_json_string ex_codecs (sign_completed_json
      \<lparr>sc_r = hex_encode ex_codecs (take 32 ?sig), sc_s = hex_encode ex_codecs (drop 32 ?sig),
       sc_recid = None, sc_curve = ''ed25519''\<rparr>) = Inr q"
    "frost_make_completed ex_codecs 2 q = Inr sig"
    using frost_completed_reads [OF ex_json_law sign_completed.enc_plain] by blast
  with p show thesis
    by (intro that [of p sig])
       (simp_all add: frost_sign_def frost_sign_round2_def frost_sign_round2_finish_def lib)
qed

theorem frost_sign_binds_message_witness:
  "\<exists>p st st'. frost_sign_round2_open ex_codecs ex_frost ''s'' p st =
       (Inr (SigningPackage [1, 2], SignatureShare [5],
            ex_sign_session\<lparr>fs_consumed := True, fs_nonces := None\<rparr>, SigningNonces [0]), st')
     \<and> (\<exists>s. frost_sign_sessions st ''s'' = Some s \<and> fs_message s = [1, 2])"
proof -
  obtain p where run: "frost_sign_round2_open ex_codecs ex_frost ''s'' p
        (insert_frost_sign_session ''s'' ex_sign_session init_engine) =
      (Inr (SigningPackage [1, 2], SignatureShare [5],
            ex_sign_session\<lparr>fs_consumed := True, fs_nonces := None\<rparr>, SigningNonces [0]),
       init_engine\<lparr>frost_sign_sessions := (frost_sign_sessions init_engine)(''s'' := None)\<rparr>)"
    by (rule ex_round2_open)
  have "signing_package_message ex_frost (SigningPackage [1, 2]) = [1, 2]"
    by (simp add: ex_frost_def)
  with frost_sign_binds_message [OF run] run show ?thesis by metis
qed

text \<open>
  A session signs at most once. After a round 2 that returned a signature every
  later round 2 for that session id is an error and changes nothing.
\<close>

lemma frost_sign_no_replay:
  assumes "frost_sign C F x sid 2 p a b st = (Inr sig, st1)"
  shows "(\<exists>s. frost_sign_sessions st sid = Some s) \<and> (\<exists>e. frost_sign C F x' sid 2 p' a' b' st1 = (Inl e, st1))"
proof -
  obtain pkg ss session nonces where "frost_sign_round2_open C F sid p st =
      (Inr (pkg, ss, session, nonces), st1)"
    using assms by (auto simp: frost_sign_def frost_sign_round2_def split: prod.splits sum.splits)
  from round2_open_Inr [OF this] have st1: "st1 = snd (remove_frost_sign_session sid st)"
    and had: "\<exists>s. frost_sign_sessions st sid = Some s"
    by (auto simp: session_defs)
  have none: "fst (remove_frost_sign_session sid st1) = None"
    unfolding st1 by (rule frost_sign_table.take_once)
  have same: "snd (remove_frost_sign_session sid st1) = st1"
    unfolding st1 by (simp add: session_defs)
  from none same have "\<exists>e. frost_sign_round2_open C F sid p' st1 = (Inl e, st1)"
    by (auto simp: frost_sign_round2_open_def Let_def case_prod_beta split: question_split)
  with had show ?thesis
    by (auto simp: frost_sign_def frost_sign_round2_def)
qed

lemma frost_sign_no_replay_witness:
  "\<exists>p sig st st1 e. frost_sign ex_codecs ex_frost (ex_ctx []) ''s'' 2 p None None st = (Inr sig, st1)
     \<and> frost_sign ex_codecs ex_frost (ex_ctx []) ''s'' 2 p None None st1 = (Inl e, st1)"
proof -
  obtain p sig where "frost_sign ex_codecs ex_frost (ex_ctx []) ''s'' 2 p None None
        (insert_frost_sign_session ''s'' ex_sign_session init_engine) =
      (Inr sig, init_engine\<lparr>frost_sign_sessions := (frost_sign_sessions init_engine)(''s'' := None)\<rparr>)"
    by (rule ex_round2)
  from this frost_sign_no_replay [OF this] show ?thesis by blast
qed

section \<open>Recover\<close>

text \<open>
  Property C23: a refresh never changes the key. Whenever the finalize round of a recovery
  succeeds, the refreshed package has the verifying key of the share that was recovered, the
  payload carries that key, its address, the new share and the next rotation version, which is
  one more than the old one short of the largest \<open>i32\<close>, and the session is gone.
\<close>

theorem frost_recover_keeps_key:
  assumes "json_law C" and "frost_recover C F x sid 0 p b v st = (Inr r, st')"
  shows "\<exists>s kp pkp vk share. frost_recovery_sessions st sid = Some s
           \<and> lib_recovery_part3 F (fr_lib_state s) (fr_pending_server_inner s) = Inr (kp, pkp)
           \<and> verifying_key_serialize F (old_pub_key_pkg F (fr_lib_state s)) = Inr vk
           \<and> verifying_key_serialize F pkp = Inr vk
           \<and> lib_build_share_envelope F kp pkp = Inr share
           \<and> is_completed C 0 (recovery_completed_json
                \<lparr>rc_mpc_key_id = sid, rc_address = bs58_encode C vk, rc_public_key = hex_encode C vk,
                 rc_rotation_version = fr_rotation_version s + 1,
                 rc_local_encrypted_share = share\<rparr>) r
           \<and> (sint (fr_rotation_version s) < 2 ^ 31 - 1 \<longrightarrow>
                sint (fr_rotation_version s + 1) = sint (fr_rotation_version s) + 1)
           \<and> st' = st\<lparr>frost_recovery_sessions := (frost_recovery_sessions st)(sid := None)\<rparr>"
proof -
  obtain s kp pkp vk share q where s:
    "frost_recovery_sessions st sid = Some s"
    "lib_recovery_part3 F (fr_lib_state s) (fr_pending_server_inner s) = Inr (kp, pkp)"
    "verifying_key_serialize F (old_pub_key_pkg F (fr_lib_state s)) = Inr vk"
    "verifying_key_serialize F pkp = Inr vk"
    "lib_build_share_envelope F kp pkp = Inr share"
    and q: "to_json_string C (recovery_completed_json
                \<lparr>rc_mpc_key_id = sid, rc_address = bs58_encode C vk, rc_public_key = hex_encode C vk,
                 rc_rotation_version = fr_rotation_version s + 1,
                 rc_local_encrypted_share = share\<rparr>) = Inr q" "frost_make_completed C 0 q = Inr r"
    and st': "st' = st\<lparr>frost_recovery_sessions := (frost_recovery_sessions st)(sid := None)\<rparr>"
    using assms(2)
    by (auto simp: frost_recover_def frost_recover_finalize_def session_defs question_Inr_iff
          verifying_key_bytes_def derive_solana_address_def build_share_envelope_def add_i32_def
          split: if_splits sum.splits)
  then show ?thesis
    using frost_completed_reads [OF assms(1) payload_json_plain(4), of _ 0] add_i32_exact(2)
    by (metis sum.inject(2))
qed

lemma ex_recovery:
  obtains r where "frost_recover ex_codecs ex_frost (ex_ctx []) ''r'' 0 p b v
      (insert_frost_recovery_session ''r''
        \<lparr>fr_created_at = 0, fr_rotation_version = 4, fr_lib_state = RecoveryState ex_vk,
         fr_pending_server_inner = ''q2''\<rparr> init_engine) =
    (Inr r, init_engine\<lparr>frost_recovery_sessions := (frost_recovery_sessions init_engine)(''r'' := None)\<rparr>)"
proof -
  let ?j = "recovery_completed_json
      \<lparr>rc_mpc_key_id = ''r'', rc_address = bs58_encode ex_codecs ex_vk,
       rc_public_key = hex_encode ex_codecs ex_vk, rc_rotation_version = 5,
       rc_local_encrypted_share = ex_material [8] ex_vk\<rparr>"
  obtain q r where "to_json_string ex_codecs ?j = Inr q" "frost_make_completed ex_codecs 0 q = Inr r"
    using frost_completed_reads [OF ex_json_law payload_json_plain(4)] by blast
  moreover have "old_pub_key_pkg ex_frost (RecoveryState ex_vk) = PublicKeyPackage ex_vk"
    "lib_recovery_part3 ex_frost (RecoveryState ex_vk) i = Inr (KeyPackage [8], PublicKeyPackage ex_vk)"
    "length ex_vk = 32" for i
    by (simp_all add: ex_frost_def ex_vk_def)
  ultimately show thesis
    by (intro that [of r])
       (simp add: frost_recover_def frost_recover_finalize_def session_defs verifying_key_bytes_def
          derive_solana_address_def build_share_envelope_def add_i32_def ex_ctx_def)
qed

theorem frost_recover_keeps_key_witness:
  "\<exists>st r st' pkp kp. frost_recover ex_codecs ex_frost (ex_ctx []) ''r'' 0 '''' None None st = (Inr r, st')
     \<and> lib_recovery_part3 ex_frost (RecoveryState ex_vk) ''q2'' = Inr (kp, pkp)
     \<and> verifying_key_serialize ex_frost pkp = Inr ex_vk"
proof -
  let ?s = "\<lparr>fr_created_at = 0, fr_rotation_version = 4, fr_lib_state = RecoveryState ex_vk,
         fr_pending_server_inner = ''q2''\<rparr>"
  obtain r where run: "frost_recover ex_codecs ex_frost (ex_ctx []) ''r'' 0 '''' None None
      (insert_frost_recovery_session ''r'' ?s init_engine) =
    (Inr r, init_engine\<lparr>frost_recovery_sessions := (frost_recovery_sessions init_engine)(''r'' := None)\<rparr>)"
    by (rule ex_recovery)
  have "frost_recovery_sessions (insert_frost_recovery_session ''r'' ?s init_engine) ''r'' = Some ?s"
    "old_pub_key_pkg ex_frost (RecoveryState ex_vk) = PublicKeyPackage ex_vk"
    by (simp_all add: session_defs ex_frost_def)
  with frost_recover_keeps_key [OF ex_json_law run] run show ?thesis
    by (intro exI [of _ "insert_frost_recovery_session ''r'' ?s init_engine"] exI [of _ r]
         exI [of _ "init_engine\<lparr>frost_recovery_sessions := (frost_recovery_sessions init_engine)(''r'' := None)\<rparr>"])
       auto
qed

text \<open>
  Property C24: the two failures of a finalize round that has its packages. A refreshed package
  with another verifying key is refused; at the largest rotation version a build with overflow
  checks panics, and one without them hands out the smallest \<open>i32\<close>. The session is lost.
\<close>

theorem frost_recover_finalize_errors:
  assumes "json_law C" and "frost_recovery_sessions st sid = Some s"
    and "lib_recovery_part3 F (fr_lib_state s) (fr_pending_server_inner s) = Inr (kp, pkp)"
    and "verifying_key_serialize F (old_pub_key_pkg F (fr_lib_state s)) = Inr old_vk"
    and "verifying_key_serialize F pkp = Inr new_vk"
    and "length new_vk = 32" and "lib_build_share_envelope F kp pkp = Inr share"
  shows "let (r, st') = frost_recover C F x sid 0 p b v st in
           st' = st\<lparr>frost_recovery_sessions := (frost_recovery_sessions st)(sid := None)\<rparr>
           \<and> (if new_vk \<noteq> old_vk then (\<exists>e. r = Inl e)
              else if cc_overflow_checks x \<and> fr_rotation_version s = 0x7FFFFFFF
              then r = Inl (Panicked ''attempt to add with overflow'')
              else \<exists>t. r = Inr t \<and> is_completed C 0 (recovery_completed_json
                \<lparr>rc_mpc_key_id = sid, rc_address = bs58_encode C new_vk,
                 rc_public_key = hex_encode C new_vk,
                 rc_rotation_version = fr_rotation_version s + 1,
                 rc_local_encrypted_share = share\<rparr>) t
                \<and> (if fr_rotation_version s = 0x7FFFFFFF
                   then sint (fr_rotation_version s + 1) = - (2 ^ 31)
                   else sint (fr_rotation_version s + 1) = sint (fr_rotation_version s) + 1))"
proof -
  define nv where "nv = fr_rotation_version s + 1"
  have nv: "if fr_rotation_version s = 0x7FFFFFFF then sint nv = - (2 ^ 31)
            else sint nv = sint (fr_rotation_version s) + 1"
    using add_i32_one [of True "fr_rotation_version s"]
    by (auto simp: nv_def add_i32_def split: if_splits)
  have add: "add_i32 checks (fr_rotation_version s) 1 =
      (if checks \<and> fr_rotation_version s = 0x7FFFFFFF
       then Inl (Panicked ''attempt to add with overflow'') else Inr nv)" for checks
    by (simp add: add_i32_one nv_def)
  let ?j = "recovery_completed_json
                \<lparr>rc_mpc_key_id = sid, rc_address = bs58_encode C new_vk,
                 rc_public_key = hex_encode C new_vk, rc_rotation_version = nv,
                 rc_local_encrypted_share = share\<rparr>"
  obtain q t where t: "to_json_string C ?j = Inr q" "frost_make_completed C 0 q = Inr t"
    "is_completed C 0 ?j t"
    using frost_completed_reads [OF assms(1) payload_json_plain(4)] by blast
  note lib = assms(2-7)
  note defs = frost_recover_def frost_recover_finalize_def session_defs verifying_key_bytes_def
    derive_solana_address_def build_share_envelope_def
  let ?st = "st\<lparr>frost_recovery_sessions := (frost_recovery_sessions st)(sid := None)\<rparr>"
  have changed: "\<exists>e. frost_recover C F x sid 0 p b v st = (Inl e, ?st)" if "new_vk \<noteq> old_vk"
    using lib that by (simp add: defs)
  have panics: "frost_recover C F x sid 0 p b v st = (Inl e, ?st)"
    if "new_vk = old_vk" "add_i32 (cc_overflow_checks x) (fr_rotation_version s) 1 = Inl e" for e
    using lib that by (simp add: defs)
  have returns: "frost_recover C F x sid 0 p b v st = (Inr t, ?st)"
    if "new_vk = old_vk" "add_i32 (cc_overflow_checks x) (fr_rotation_version s) 1 = Inr nv"
    using lib t that by (simp add: defs)
  show ?thesis
    unfolding nv_def [symmetric]
    using changed panics returns add [of "cc_overflow_checks x"] nv t(3)
    by (cases "new_vk = old_vk"; cases "cc_overflow_checks x \<and> fr_rotation_version s = 0x7FFFFFFF")
       auto
qed

theorem frost_recover_finalize_errors_witness:
  "\<exists>st r st'. frost_recover ex_codecs ex_frost ((ex_ctx [])\<lparr>cc_overflow_checks := True\<rparr>) ''r'' 0
       [] None None st = (Inl r, st') \<and> r = Panicked ''attempt to add with overflow''
     \<and> frost_recovery_sessions st ''r'' \<noteq> None \<and> frost_recovery_sessions st' ''r'' = None"
proof -
  let ?s = "\<lparr>fr_created_at = 0, fr_rotation_version = 0x7FFFFFFF, fr_lib_state = RecoveryState ex_vk,
         fr_pending_server_inner = ''q2''\<rparr>"
  let ?st = "insert_frost_recovery_session ''r'' ?s init_engine"
  have s: "frost_recovery_sessions ?st ''r'' = Some ?s" by (simp add: session_defs)
  have lib: "lib_recovery_part3 ex_frost (fr_lib_state ?s) (fr_pending_server_inner ?s) =
      Inr (KeyPackage [8], PublicKeyPackage ex_vk)"
    "verifying_key_serialize ex_frost (old_pub_key_pkg ex_frost (fr_lib_state ?s)) = Inr ex_vk"
    "verifying_key_serialize ex_frost (PublicKeyPackage ex_vk) = Inr ex_vk" "length ex_vk = 32"
    "lib_build_share_envelope ex_frost (KeyPackage [8]) (PublicKeyPackage ex_vk) = Inr (ex_material [8] ex_vk)"
    by (simp_all add: ex_frost_def ex_vk_def)
  from frost_recover_finalize_errors [OF ex_json_law s lib,
      of "(ex_ctx [])\<lparr>cc_overflow_checks := True\<rparr>" "[]" None None] s
  show ?thesis
    by (intro exI [of _ ?st]) (auto simp: Let_def split: prod.splits)
qed

section \<open>Export\<close>

lemma lagrange_line:
  assumes "scalar_law S" and "x1 \<noteq> x2"
  shows "lagrange_secret S x1 x2 (a + b * x1) (a + b * x2) = a"
proof -
  define i where "i = scalar_invert S (x1 - x2)"
  define j where "j = scalar_invert S (x2 - x1)"
  have i1: "(x1 - x2) * i = 1" and j1: "(x2 - x1) * j = 1"
    using assms by (simp_all add: scalar_law_def i_def j_def)
  have "j = j * ((x1 - x2) * i)" by (simp add: i1)
  also have "\<dots> = - ((x2 - x1) * j * i)" by (simp add: algebra_simps)
  finally have j: "j = - i" by (simp add: j1)
  have i: "i * (x1 - x2) = 1" using i1 by (simp add: mult.commute)
  have "lagrange_secret S x1 x2 (a + b * x1) (a + b * x2) =
      - x2 * i * (a + b * x1) + - x1 * j * (a + b * x2)"
    by (simp add: lagrange_secret_def i_def j_def)
  also have "\<dots> = a * (i * (x1 - x2))"
    unfolding j by (simp add: algebra_simps)
  finally show ?thesis
    by (simp add: i)
qed

text \<open>
  The two-point Lagrange interpolation at zero gives the secret: if the shares are
  the values of a line at two different points, the combination is the line's value at zero.
\<close>

lemma lagrange_secret_correct:
  assumes "scalar_law S" and "x1 \<noteq> x2"
  shows "lagrange_secret S x1 x2 (a + b * x1) (a + b * x2) = a"
  using assms by (rule lagrange_line)

lemma lagrange_secret_correct_witness:
  "lagrange_secret ex_scalars 1 2 (3 + 4 * 1) (3 + 4 * 2) = (3 :: 5)"
  by (rule lagrange_secret_correct [OF ex_scalar_law]) simp

lemma export_on_line:
  fixes a b x1 x2 :: "'s::comm_ring_1"
  assumes "scalar_law S" and "json_law C" and "x1 \<noteq> x2"
    and "extract_share_material C F s1 = Inr (kp1, pkp1)" and "extract_share_material C F s2 = Inr (kp2, pkp2)"
    and "verifying_key_serialize F pkp1 = Inr vk" and "verifying_key_serialize F pkp2 = Inr vk"
    and "length vk = 32"
    and "identifier_serialize F kp1 = scalar_to_bytes S x1" and "identifier_serialize F kp2 = scalar_to_bytes S x2"
    and "signing_share_serialize F kp1 = scalar_to_bytes S (a + b * x1)"
    and "signing_share_serialize F kp2 = scalar_to_bytes S (a + b * x2)"
    and "basepoint_mul S a = vk"
  shows "\<exists>r. frost_export_private_key C F S s1 s2 st = (Inr r, insert_exported_key (hex_encode C vk) st)
           \<and> json_parse C (as_bytes r) = Inr (export_result_json
                \<lparr>er_private_key = hex_encode C (scalar_to_bytes S a), er_address = bs58_encode C vk,
                 er_exported = True\<rparr>)"
proof -
  have scalar: "to_scalar S (scalar_to_bytes S x) label = Inr x" for x label
    using assms(1) by (simp add: to_scalar_def scalar_law_def try_into_array_def)
  let ?j = "export_result_json
      \<lparr>er_private_key = hex_encode C (scalar_to_bytes S a), er_address = bs58_encode C vk,
       er_exported = True\<rparr>"
  obtain r where "to_json_string C ?j = Inr r" "json_parse C (as_bytes r) = Inr ?j"
    using to_json_reads [OF assms(2) payload_json_plain(5)] by blast
  then show ?thesis
    using assms(3-) lagrange_line [OF assms(1,3)]
    by (simp add: frost_export_private_key_def verifying_key_bytes_def scalar derive_solana_address_def
          Let_def)
qed

text \<open>Two shares on a line over the field of five elements, and their export.\<close>

definition ex_scalar_kp :: "5 \<Rightarrow> 5 \<Rightarrow> bytes" where
  "ex_scalar_kp x s = scalar_to_bytes ex_scalars x @ scalar_to_bytes ex_scalars s"

lemma ex_scalar_kp:
  "identifier_serialize ex_frost (KeyPackage (ex_scalar_kp x s)) = scalar_to_bytes ex_scalars x"
  "signing_share_serialize ex_frost (KeyPackage (ex_scalar_kp x s)) = scalar_to_bytes ex_scalars s"
  by (simp_all add: ex_scalar_kp_def ex_frost_def ex_scalars_def)

lemma ex_line_key: "basepoint_mul ex_scalars 3 = replicate 32 3"
  by (simp add: ex_scalars_def ex_scalar_byte_def)

lemma ex_line_shares:
  obtains s1 s2 where
    "extract_share_material ex_codecs ex_frost s1 = Inr (KeyPackage (ex_scalar_kp 1 (3 + 4 * 1)), PublicKeyPackage (replicate 32 3))"
    and "extract_share_material ex_codecs ex_frost s2 = Inr (KeyPackage (ex_scalar_kp 2 (3 + 4 * 2)), PublicKeyPackage (replicate 32 3))"
  using ex_share by metis

lemma ex_export:
  obtains share s2 where
    "extract_share_material ex_codecs ex_frost share = Inr (KeyPackage (ex_scalar_kp 1 (3 + 4 * 1)), PublicKeyPackage (replicate 32 3))"
    and "\<forall>st. \<exists>r. frost_export_private_key ex_codecs ex_frost ex_scalars share s2 st =
           (Inr r, insert_exported_key (hex_encode ex_codecs (replicate 32 3)) st)"
proof -
  obtain s1 s2 where ex: "extract_share_material ex_codecs ex_frost s1 = Inr (KeyPackage (ex_scalar_kp 1 (3 + 4 * 1)), PublicKeyPackage (replicate 32 3))"
    "extract_share_material ex_codecs ex_frost s2 = Inr (KeyPackage (ex_scalar_kp 2 (3 + 4 * 2)), PublicKeyPackage (replicate 32 3))"
    by (rule ex_line_shares)
  have "\<exists>r. frost_export_private_key ex_codecs ex_frost ex_scalars s1 s2 st =
           (Inr r, insert_exported_key (hex_encode ex_codecs (replicate 32 3)) st)" for st
    using export_on_line [OF ex_scalar_law ex_json_law _ ex ex_frost_simps(1)
      ex_frost_simps(1) _ ex_scalar_kp(1) ex_scalar_kp(1) ex_scalar_kp(2) ex_scalar_kp(2) ex_line_key, of st]
    by auto
  with ex(1) show thesis by (blast intro: that)
qed

text \<open>
  Property C25: exporting two shares on one line reconstructs the private key. The result holds
  the canonical encoding of the secret in hex with the address of the key, and the key is
  marked as exported.
\<close>

theorem frost_export_reconstructs:
  fixes a b x1 x2 :: "'s::comm_ring_1"
  assumes "scalar_law S" and "json_law C" and "x1 \<noteq> x2"
    and "extract_share_material C F s1 = Inr (kp1, pkp1)" and "extract_share_material C F s2 = Inr (kp2, pkp2)"
    and "verifying_key_serialize F pkp1 = Inr vk" and "verifying_key_serialize F pkp2 = Inr vk"
    and "length vk = 32"
    and "identifier_serialize F kp1 = scalar_to_bytes S x1" and "identifier_serialize F kp2 = scalar_to_bytes S x2"
    and "signing_share_serialize F kp1 = scalar_to_bytes S (a + b * x1)"
    and "signing_share_serialize F kp2 = scalar_to_bytes S (a + b * x2)"
    and "basepoint_mul S a = vk"
  shows "\<exists>r. frost_export_private_key C F S s1 s2 st = (Inr r, insert_exported_key (hex_encode C vk) st)
           \<and> json_parse C (as_bytes r) = Inr (export_result_json
                \<lparr>er_private_key = hex_encode C (scalar_to_bytes S a), er_address = bs58_encode C vk,
                 er_exported = True\<rparr>)"
  using assms by (rule export_on_line)

theorem frost_export_reconstructs_witness:
  "\<exists>s1 s2 r st'. frost_export_private_key ex_codecs ex_frost ex_scalars s1 s2 init_engine = (Inr r, st')
     \<and> exported_keys st' = {hex_encode ex_codecs (replicate 32 3)}"
proof -
  obtain s1 s2 where ex: "extract_share_material ex_codecs ex_frost s1 = Inr (KeyPackage (ex_scalar_kp 1 (3 + 4 * 1)), PublicKeyPackage (replicate 32 3))"
    "extract_share_material ex_codecs ex_frost s2 = Inr (KeyPackage (ex_scalar_kp 2 (3 + 4 * 2)), PublicKeyPackage (replicate 32 3))"
    by (rule ex_line_shares)
  from frost_export_reconstructs [OF ex_scalar_law ex_json_law _ ex ex_frost_simps(1)
      ex_frost_simps(1) _ ex_scalar_kp(1) ex_scalar_kp(1) ex_scalar_kp(2) ex_scalar_kp(2) ex_line_key, of init_engine]
  obtain r where "frost_export_private_key ex_codecs ex_frost ex_scalars s1 s2 init_engine =
      (Inr r, insert_exported_key (hex_encode ex_codecs (replicate 32 3)) init_engine)"
    by auto
  moreover have "exported_keys (insert_exported_key k init_engine) = {k}" for k
    by (simp add: insert_exported_key_def init_engine_def)
  ultimately show ?thesis by blast
qed

text \<open>
  The export marks a key only after its checks: a call fails and leaves the engine
  alone, or both shares carry the same verifying key, their identifiers differ, the reconstructed
  scalar generates that very key, and exactly this key is added to the registry.
\<close>

lemma frost_export_marks:
  "case frost_export_private_key C F S s1 s2 st of (r, st') \<Rightarrow>
     (st' = st \<and> (\<exists>e. r = Inl e)) \<or>
     (\<exists>kp1 pkp1 kp2 pkp2 vk x1 x2 a1 a2.
        extract_share_material C F s1 = Inr (kp1, pkp1) \<and> extract_share_material C F s2 = Inr (kp2, pkp2)
        \<and> verifying_key_serialize F pkp1 = Inr vk \<and> verifying_key_serialize F pkp2 = Inr vk
        \<and> from_canonical_bytes S (identifier_serialize F kp1) = Some x1
        \<and> from_canonical_bytes S (identifier_serialize F kp2) = Some x2 \<and> x1 \<noteq> x2
        \<and> from_canonical_bytes S (signing_share_serialize F kp1) = Some a1
        \<and> from_canonical_bytes S (signing_share_serialize F kp2) = Some a2
        \<and> basepoint_mul S (lagrange_secret S x1 x2 a1 a2) = vk
        \<and> st' = insert_exported_key (hex_encode C vk) st)"
proof -
  have "(st' = st \<and> (\<exists>e. r = Inl e)) \<or>
     (\<exists>kp1 pkp1 kp2 pkp2 vk x1 x2 a1 a2.
        extract_share_material C F s1 = Inr (kp1, pkp1) \<and> extract_share_material C F s2 = Inr (kp2, pkp2)
        \<and> verifying_key_serialize F pkp1 = Inr vk \<and> verifying_key_serialize F pkp2 = Inr vk
        \<and> from_canonical_bytes S (identifier_serialize F kp1) = Some x1
        \<and> from_canonical_bytes S (identifier_serialize F kp2) = Some x2 \<and> x1 \<noteq> x2
        \<and> from_canonical_bytes S (signing_share_serialize F kp1) = Some a1
        \<and> from_canonical_bytes S (signing_share_serialize F kp2) = Some a2
        \<and> basepoint_mul S (lagrange_secret S x1 x2 a1 a2) = vk
        \<and> st' = insert_exported_key (hex_encode C vk) st)"
    if "frost_export_private_key C F S s1 s2 st = (r, st')" for r st'
    using that
    by (auto simp: frost_export_private_key_def verifying_key_bytes_def to_scalar_def Let_def
          split: question_split_asm if_splits prod.splits option.splits dest: sym)
  then show ?thesis by (auto split: prod.split)
qed

end
