(* ===== verification/Dkls_Proofs.thy ===== *)
theory Dkls_Proofs
  imports Dkls_Engine Frost_Proofs
begin

text \<open>
  The properties of the dispatching API and of the secp256k1 path: what an exchange with a
  protocol task does to its link, the batches a caller reads, the collect mode, the calls that
  never return, the expiry of recovery sessions and the guard on exported keys.
\<close>

section \<open>Exchanges\<close>

lemma exchange_cases:
  assumes "exchange sch l ms = Some (r, l')"
  obtains (failed) e sch1 where "inject_all sch l ms = Some (Inl e, l', sch1)" "r = Inl e"
  | (collected) l1 sch1 out sch2 where "inject_all sch l ms = Some (Inr (), l1, sch1)"
      "collect_batch sch1 l1 = Some (out, l', sch2)" "r = Inr out"
proof -
  obtain r1 l1 sch1 where i: "inject_all sch l ms = Some (r1, l1, sch1)"
    using assms by (auto simp: exchange_def bind_eq_Some_conv)
  show thesis
  proof (cases r1)
    case (Inl e)
    with i assms failed show thesis by (simp add: exchange_def)
  next
    case (Inr u)
    with i assms obtain out sch2 where "collect_batch sch1 l1 = Some (out, l', sch2)" "r = Inr out"
      by (auto simp: exchange_def bind_eq_Some_conv)
    with i Inr collected show thesis by simp
  qed
qed

lemma exchange_link_ok:
  assumes "exchange sch l ms = Some (r, l')" and "link_ok l"
  shows "link_ok l'"
  using assms(1)
proof (cases rule: exchange_cases)
  case failed
  then show ?thesis using inject_all_ok assms(2) by blast
next
  case collected
  then show ?thesis
    using inject_all_ok collect_loop_ok assms(2) unfolding collect_batch_def by blast
qed

lemma task_step_tx_open [simp]: "tx_open (task_step l) = tx_open l"
  by (auto simp: task_step_def start_send_def poll_next_def split: task.split list.split)

lemma inject_all_tx_open: "inject_all sch l ms = Some (r, l', sch') \<Longrightarrow> tx_open l' = tx_open l"
  by (induction sch l ms rule: inject_all.induct) (auto split: if_splits)

lemma move_tx_open: "move a l p = (l', p') \<Longrightarrow> tx_open l' = tx_open l"
  by (cases a) (auto dest: collect_step_prog)

lemma collect_loop_tx_open: "collect_loop sch l p = Some (r, l', sch') \<Longrightarrow> tx_open l' = tx_open l"
  by (induction rule: collect_run_induct) (auto dest: move_tx_open)

lemma exchange_tx_open:
  assumes "exchange sch l ms = Some (r, l')"
  shows "tx_open l' = tx_open l"
  using assms
  by (cases rule: exchange_cases)
     (auto dest: inject_all_tx_open collect_loop_tx_open simp: collect_batch_def)

lemma exchange_blocks: "stuck l \<Longrightarrow> exchange sch l [] = None"
  by (simp add: exchange_def collect_batch_def stuck_collect)

text \<open>A batch is what was queued plus what the task sent, and the queue is empty after it.\<close>

lemma exchange_batch:
  assumes "exchange sch l ms = Some (Inr (Some (batch, d)), l')"
  obtains l1 sch1 where "inject_all sch l ms = Some (Inr (), l1, sch1)"
    and "batch = outq l1 @ sent_during sch1 l1 Enter" and "outq l' = []" and "batch \<noteq> []"
  using assms
proof (cases rule: exchange_cases)
  case failed
  then show thesis by simp
next
  case (collected l1 sch1 out sch2)
  then have "collect_loop sch1 l1 Enter = Some (Some (batch, d), l', sch2)"
    by (simp add: collect_batch_def)
  from collect_batch_exact [OF this] collect_nonempty [OF this] collected(1) show thesis
    by (intro that [of l1 sch1]) simp_all
qed

section \<open>Batches\<close>

definition batch_env :: "codecs \<Rightarrow> string \<Rightarrow> protocol_type \<Rightarrow> byte \<Rightarrow> bytes list \<Rightarrow> wire_envelope" where
  "batch_env C sid p rnd msgs =
     wire_envelope_new_batch sid p rnd 0 (Some 1) (map (b64_encode C) msgs) None"

lemma batch_reads:
  assumes "json_law C"
  shows "\<exists>s. make_in_progress_batch C sid p rnd msgs = Inr s \<and> is_continue C rnd (batch_env C sid p rnd msgs) s"
  using continue_reads [OF assms, of "batch_env C sid p rnd msgs" rnd]
  by (simp add: make_in_progress_batch_def batch_env_def)

lemma decode_batch:
  assumes "b64_law C"
  shows "decode_all_payloads C (batch_env C sid p rnd msgs) = Inr msgs"
  using assms
  by (simp add: decode_all_payloads_def batch_env_def wire_envelope_new_batch_def codec_simps
        collect_results_map)

text \<open>
  A batch of protocol messages reaches the peer whole: the reply is an envelope whose payloads
  decode to exactly these messages, in order, and the same envelope coming from the
  server is accepted with them.
\<close>

lemma batch_roundtrip:
  assumes "b64_law C" and "json_law C"
  shows "\<exists>s env. make_in_progress_batch C sid p rnd msgs = Inr s \<and> is_continue C rnd env s
           \<and> we_from_id env = 0 \<and> we_session_id env = sid \<and> we_protocol env = p
           \<and> decode_all_payloads C env = Inr msgs
           \<and> (\<exists>t. to_json_string C (wire_envelope_json (env\<lparr>we_from_id := 1\<rparr>)) = Inr t
                \<and> parse_server_envelope_batch C t = Inr (env\<lparr>we_from_id := 1\<rparr>, msgs))"
proof -
  let ?env = "batch_env C sid p rnd msgs"
  obtain s where s: "make_in_progress_batch C sid p rnd msgs = Inr s" "is_continue C rnd ?env s"
    using batch_reads [OF assms(2)] by blast
  obtain t where t: "to_json_string C (wire_envelope_json (?env\<lparr>we_from_id := 1\<rparr>)) = Inr t"
    "from_str C dec_wire_envelope t = Inr (?env\<lparr>we_from_id := 1\<rparr>)"
    using wire_envelope.text_roundtrip [OF assms(2)] by blast
  have "decode_all_payloads C (?env\<lparr>we_from_id := 1\<rparr>) = decode_all_payloads C ?env"
    by (simp add: decode_all_payloads_def split: option.split)
  with t(2) decode_batch [OF assms(1)] have
    "parse_server_envelope_batch C t = Inr (?env\<lparr>we_from_id := 1\<rparr>, msgs)"
    by (simp add: parse_server_envelope_batch_def)
  with s t(1) decode_batch [OF assms(1)] show ?thesis
    by (intro exI [of _ s] exI [of _ ?env]) (simp add: batch_env_def wire_envelope_new_batch_def)
qed

section \<open>Guards\<close>

text \<open>
  An envelope that does not come from the server never reaches a protocol task: every
  secp256k1 handler that reads one refuses it and leaves the engine as it is.
\<close>

lemma foreign_envelope_rejected:
  assumes "from_str C dec_wire_envelope p = Inr env" and "we_from_id env \<noteq> 1"
  shows "(\<exists>e. keygen_round1 C D x sid p st = Some (Inl e, st))
         \<and> (\<exists>e. keygen_advance C D x sid p st = Some (Inl e, st))
         \<and> (\<exists>e. recover_round1 C D x sid p bs rv st = Some (Inl e, st))
         \<and> (\<exists>e. sign_round1 C D x sid p share mh st = Some (Inl e, st))
         \<and> (\<exists>e. sign_advance C x sid p st = Some (Inl e, st))"
proof -
  have "parse_server_envelope_batch C p = Inl (BadFromId (we_from_id env))"
    using assms by (simp add: parse_server_envelope_batch_def)
  then show ?thesis
    by (cases "keygen_sessions st sid"; cases "sign_sessions st sid")
       (auto simp: keygen_round1_def keygen_advance_def recover_round1_def sign_round1_def
          sign_prepare_def sign_advance_def)
qed

lemma foreign_envelope_rejected_witness:
  "\<exists>p e. keygen_round1 ex_codecs ex_dkls (ex_ctx []) ''ab'' p init_engine = Some (Inl e, init_engine)"
proof -
  obtain p where p: "from_str ex_codecs dec_wire_envelope p = Inr (frost_env ''ab'' Dkg 1 ''m'')"
    by (rule ex_wire_text)
  have "we_from_id (frost_env ''ab'' Dkg 1 ''m'') \<noteq> 1" by (simp add: frost_env_def)
  from foreign_envelope_rejected [OF p this, of ex_dkls "ex_ctx []" "''ab''" init_engine] show ?thesis
    by blast
qed

text \<open>
  A call may never return. If the task of a session waits for input, nothing of it is
  queued, and the server's envelope carries an empty list of payloads, then the keygen, recover
  and sign calls that take it block under every schedule.
\<close>

lemma empty_payloads_block:
  assumes "parse_server_envelope_batch C p = Inr (env, [])" and "rnd \<noteq> 0" and "rnd \<noteq> 1"
    and "keygen_sessions st k = Some ks" and "parked (ks_link ks)" and "outq (ks_link ks) = []"
    and "recovery_sessions st r = Some rs" and "parked (rs_link rs)" and "outq (rs_link rs) = []"
    and "elapsed (cc_now x) (rs_created_at rs) \<le> SESSION_TTL"
    and "sign_sessions st s = Some ss" and "parked (ss_link ss)" and "outq (ss_link ss) = []"
    and "\<not> ss_consumed ss"
    and "frost_keygen_sessions st k = None" and "frost_recovery_sessions st r = None"
    and "frost_sign_sessions st s = None"
  shows "keygen C F D (x\<lparr>cc_schedule := sch\<rparr>) k rnd p st = None
         \<and> recover C F D (x\<lparr>cc_schedule := sch\<rparr>) r rnd p bs rv st = None
         \<and> sign C F D (x\<lparr>cc_schedule := sch\<rparr>) s rnd p share mh st = None"
  using assms
  by (simp add: keygen_def recover_def sign_def keygen_advance_def recover_advance_def sign_advance_def
        exchange_blocks stuck_def frost_keygen_session_exists_def frost_recovery_session_exists_def
        frost_sign_session_exists_def)

text \<open>A waiting task, sessions around it, and the server's envelope with a list of messages.\<close>

definition ex_waiting :: "'r link" where
  "ex_waiting = new_link (Await (\<lambda>_. Finished (Inl ''done'')))"

definition ex_engine :: engine where
  "ex_engine =
     insert_keygen_session ''k'' \<lparr>ks_link = ex_waiting, ks_has_task = True\<rparr>
       (insert_recovery_session ''r''
          \<lparr>rs_link = ex_waiting, rs_has_task = True, rs_created_at = 0, rs_rotation_version = 1\<rparr>
         (insert_sign_session ''s''
            \<lparr>ss_link = ex_waiting, ss_has_task = True, ss_digest = MessageDigest (replicate 32 0),
             ss_consumed = False, ss_public_key_hex = ''''\<rparr> init_engine))"

lemma ex_engine_simps [simp]:
  "keygen_sessions ex_engine ''k'' = Some \<lparr>ks_link = ex_waiting, ks_has_task = True\<rparr>"
  "recovery_sessions ex_engine ''r'' =
     Some \<lparr>rs_link = ex_waiting, rs_has_task = True, rs_created_at = 0, rs_rotation_version = 1\<rparr>"
  "sign_sessions ex_engine ''s'' =
     Some \<lparr>ss_link = ex_waiting, ss_has_task = True, ss_digest = MessageDigest (replicate 32 0),
           ss_consumed = False, ss_public_key_hex = ''''\<rparr>"
  "frost_keygen_sessions ex_engine = Map.empty"
  "frost_recovery_sessions ex_engine = Map.empty"
  "frost_sign_sessions ex_engine = Map.empty"
  "exported_keys ex_engine = {}"
  by (simp_all add: ex_engine_def session_defs init_engine_def)

lemma ex_server_envelope:
  obtains p where "parse_server_envelope_batch ex_codecs p =
    Inr ((batch_env ex_codecs sid prot rnd msgs)\<lparr>we_from_id := 1\<rparr>, msgs)"
proof -
  let ?env = "(batch_env ex_codecs sid prot rnd msgs)\<lparr>we_from_id := 1\<rparr>"
  obtain p where p: "from_str ex_codecs dec_wire_envelope p = Inr ?env"
    by (rule ex_wire_text)
  have "decode_all_payloads ex_codecs ?env = decode_all_payloads ex_codecs (batch_env ex_codecs sid prot rnd msgs)"
    by (simp add: decode_all_payloads_def split: option.split)
  with p decode_batch [OF ex_b64_law] show thesis
    by (intro that [of p]) (simp add: parse_server_envelope_batch_def)
qed

lemma empty_payloads_block_witness:
  "\<exists>p. \<forall>sch. keygen ex_codecs ex_frost ex_dkls (ex_ctx sch) ''k'' 2 p ex_engine = None"
proof -
  obtain p env where p: "parse_server_envelope_batch ex_codecs p = Inr (env, [])"
    using ex_server_envelope by blast
  have waiting: "parked ex_waiting" "outq ex_waiting = []"
    by (simp_all add: ex_waiting_def new_link_def parked_def)
  have "keygen ex_codecs ex_frost ex_dkls ((ex_ctx [])\<lparr>cc_schedule := sch\<rparr>) ''k'' 2 p ex_engine = None" for sch
    by (rule conjunct1 [OF empty_payloads_block
          [OF p _ _ ex_engine_simps(1) _ _ ex_engine_simps(2) _ _ _ ex_engine_simps(3)]])
       (simp_all add: waiting elapsed_def ex_ctx_def)
  moreover have "(ex_ctx [])\<lparr>cc_schedule := sch\<rparr> = ex_ctx sch" for sch
    by (simp add: ex_ctx_def)
  ultimately show ?thesis by auto
qed

section \<open>Rounds\<close>

text \<open>
  A keygen round hands on what the protocol sent. If a round after the first answers
  with the session still open, then the answer's envelope carries exactly the messages that were
  queued when the server's messages had gone in and those the task sent until the call
  returned, in order, at least one, and none of them is left for a later call.
\<close>

lemma keygen_round_delivers:
  assumes "json_law C" and "b64_law C" and "parse_server_envelope_batch C p = Inr (env, msgs)"
    and "keygen_advance C D x sid p st = Some (Inr r, st')" and "keygen_sessions st' sid = Some s'"
  shows "\<exists>s l1 sch1 batch. keygen_sessions st sid = Some s
           \<and> inject_all (cc_schedule x) (ks_link s) msgs = Some (Inr (), l1, sch1)
           \<and> batch = outq l1 @ sent_during sch1 l1 Enter \<and> batch \<noteq> [] \<and> outq (ks_link s') = []
           \<and> is_continue C (we_round env) (batch_env C sid Dkg (we_round env) batch) r
           \<and> decode_all_payloads C (batch_env C sid Dkg (we_round env) batch) = Inr batch"
proof -
  obtain s where s: "keygen_sessions st sid = Some s"
    using assms(4) by (auto simp: keygen_advance_def attempt_eq_Some)
  obtain out l where ex: "exchange (cc_schedule x) (ks_link s) msgs = Some (Inr out, l)"
    using assms(3,4) s
    by (auto simp: keygen_advance_def attempt_eq_Some bind_eq_Some_conv Let_def)
  obtain batch d where out: "out = Some (batch, d)"
    using assms(3,4,5) s ex
    by (cases out) (auto simp: keygen_advance_def session_defs bind_eq_Some_conv Let_def split: if_splits)
  from assms(3,4,5) s ex have "make_in_progress_batch C sid Dkg (we_round env) batch = Inr r"
    and s': "ks_link s' = l"
    by (auto simp: keygen_advance_def session_defs out)
  with batch_reads [OF assms(1)] have "is_continue C (we_round env) (batch_env C sid Dkg (we_round env) batch) r"
    by (metis sum.inject(2))
  with s s' decode_batch [OF assms(2)] ex [unfolded out] show ?thesis
    by (auto elim!: exchange_batch)
qed

text \<open>A protocol that answers one message, and a schedule on which an exchange with it returns.\<close>

definition ex_schedule :: schedule where
  "ex_schedule = [Caller, Caller, Task, Task, Task, Caller, Caller, Caller]"

lemma ex_exchange:
  "exchange ex_schedule (new_link (ex_run m r)) [q] =
     Some (Inr (Some ([m], False)),
           \<lparr>inq = [], tx_open = True, outq = [], permit = False, waiter = NoWaiter,
            prog = Await (\<lambda>_. Finished (Inr r))\<rparr>)"
  by (simp add: exchange_def ex_schedule_def new_link_def ex_run_def in_capacity_def
        collect_batch_def collect_loop.simps enable_def task_step_def poll_next_def
        start_send_def out_capacity_def notify_one_def)

section \<open>The collect mode\<close>

text \<open>A join that returns, in terms of what the task does by itself once its sender is dropped.\<close>

definition ends_alone :: "'r link \<Rightarrow> bool" where
  "ends_alone l \<longleftrightarrow> (\<exists>n. task_done (prog ((task_step ^^ n) (l\<lparr>tx_open := False\<rparr>))))"

lemma join_ends_alone: "(\<exists>j. join_link (l\<lparr>tx_open := False\<rparr>) = Some j) \<longleftrightarrow> ends_alone l"
  by (simp add: join_link_returns ends_alone_def)

lemma keygen_collect_returns:
  "(\<exists>r st'. keygen_collect C D sid st = Some (r, st')) \<longleftrightarrow>
     (\<forall>s. keygen_sessions st sid = Some s \<longrightarrow> ks_has_task s \<longrightarrow> ends_alone (ks_link s))"
  by (cases "keygen_sessions st sid")
     (simp_all add: keygen_collect_def session_defs bind_eq_Some_conv flip: join_ends_alone)

lemma recover_collect_returns:
  "(\<exists>r st'. recover_collect C D x sid st = Some (r, st')) \<longleftrightarrow>
     (\<forall>s. recovery_sessions st sid = Some s \<longrightarrow> rs_has_task s \<longrightarrow> ends_alone (rs_link s))"
  by (cases "recovery_sessions st sid")
     (simp_all add: recover_collect_def session_defs bind_eq_Some_conv Let_def flip: join_ends_alone)

lemma collect_closes:
  "keygen_collect C D sid st = Some (r, st') \<Longrightarrow> keygen_sessions st' sid = None"
  "recover_collect C D x sid st = Some (r, st') \<Longrightarrow> recovery_sessions st' sid = None"
  by (auto simp: keygen_collect_def recover_collect_def session_defs bind_eq_Some_conv Let_def attempt_eq_Some
        split: option.splits if_splits)

lemma finalize_closes:
  "frost_keygen C F x sid 0 p st = (r, st') \<Longrightarrow> frost_keygen_sessions st' sid = None"
  "frost_recover C F x sid 0 p bs rv st = (r, st') \<Longrightarrow> frost_recovery_sessions st' sid = None"
proof -
  have "frost_keygen_sessions (snd (frost_keygen C F x sid 0 p st)) sid = None"
    by (auto simp: frost_keygen_def frost_keygen_finalize_def session_defs split: question_split)
  then show "frost_keygen C F x sid 0 p st = (r, st') \<Longrightarrow> frost_keygen_sessions st' sid = None" by simp
  have "frost_recovery_sessions (snd (frost_recover C F x sid 0 p bs rv st)) sid = None"
    by (auto simp: frost_recover_def frost_recover_finalize_def session_defs split: question_split)
  then show "frost_recover C F x sid 0 p bs rv st = (r, st') \<Longrightarrow> frost_recovery_sessions st' sid = None" by simp
qed

text \<open>
  Property C30: when the collect mode ends. Round 0 of keygen and of recover returns exactly when the
  ed25519 session of that id takes the call, or there is no session or no task to join, or the
  task, after the sender is dropped, comes to its end in finitely many steps of its own; a protocol
  that goes on sending or polling for ever blocks the caller. If it returns, no session of that id
  is left in the table the call went to.
\<close>

theorem collect_mode_returns:
  "((\<exists>r st'. keygen C F D x sid 0 p st = Some (r, st')) \<longleftrightarrow>
      frost_keygen_sessions st sid \<noteq> None
      \<or> (case keygen_sessions st sid of None \<Rightarrow> True | Some s \<Rightarrow> ks_has_task s \<longrightarrow> ends_alone (ks_link s)))
   \<and> ((\<exists>r st'. recover C F D x sid 0 p bs rv st = Some (r, st')) \<longleftrightarrow>
      frost_recovery_sessions st sid \<noteq> None
      \<or> (case recovery_sessions st sid of None \<Rightarrow> True | Some s \<Rightarrow> rs_has_task s \<longrightarrow> ends_alone (rs_link s)))
   \<and> (keygen C F D x sid 0 p st = Some (r, st') \<longrightarrow>
      (if frost_keygen_sessions st sid = None then keygen_sessions st' sid = None
       else frost_keygen_sessions st' sid = None))
   \<and> (recover C F D x sid 0 p bs rv st = Some (r, st') \<longrightarrow>
      (if frost_recovery_sessions st sid = None then recovery_sessions st' sid = None
       else frost_recovery_sessions st' sid = None))"
proof -
  have kg: "keygen C F D x sid 0 p st =
      (if frost_keygen_sessions st sid = None then keygen_collect C D sid st
       else Some (frost_keygen C F x sid 0 p st))"
    by (simp add: keygen_def frost_keygen_session_exists_def)
  have rc: "recover C F D x sid 0 p bs rv st =
      (if frost_recovery_sessions st sid = None then recover_collect C D x sid st
       else Some (frost_recover C F x sid 0 p bs rv st))"
    by (simp add: recover_def frost_recovery_session_exists_def)
  show ?thesis
    unfolding kg rc using keygen_collect_returns [of C D sid st] recover_collect_returns [of C D x sid st]
    by (auto simp: collect_closes dest: finalize_closes split: option.splits)
qed

text \<open>A protocol that polls for ever: the collect mode of its session does not return.\<close>

primcorec polls_forever :: "'r task" where
  "polls_forever = Await (\<lambda>_. polls_forever)"

lemma polls_forever_not_ends: "\<not> ends_alone (new_link (polls_forever :: 'r task))"
proof -
  let ?l = "(new_link (polls_forever :: 'r task))\<lparr>tx_open := False\<rparr>"
  have await: "prog ?l = Await (\<lambda>_. polls_forever)"
    by (subst polls_forever.ctr) (simp add: new_link_def)
  have "task_step ?l = ?l"
    unfolding task_step_def await by (simp add: poll_next_def new_link_def)
  then have "(task_step ^^ n) ?l = ?l" for n by (induction n) simp_all
  with await show ?thesis unfolding ends_alone_def by simp
qed

theorem collect_mode_returns_witness:
  "(\<nexists>r st'. keygen ex_codecs ex_frost ex_dkls (ex_ctx []) ''k'' 0 ''p''
     (insert_keygen_session ''k'' \<lparr>ks_link = new_link polls_forever, ks_has_task = True\<rparr> init_engine) = Some (r, st'))
   \<and> (\<exists>r st'. keygen ex_codecs ex_frost ex_dkls (ex_ctx []) ''k'' 0 ''p''
     (insert_keygen_session ''k'' \<lparr>ks_link = new_link (Finished (Inr ex_ks)), ks_has_task = True\<rparr> init_engine) =
       Some (r, st') \<and> keygen_sessions st' ''k'' = None)"
proof (rule conjI)
  let ?run = "keygen ex_codecs ex_frost ex_dkls (ex_ctx []) ''k'' 0 ''p''"
  let ?a = "insert_keygen_session ''k'' \<lparr>ks_link = new_link polls_forever, ks_has_task = True\<rparr> init_engine"
  let ?b = "insert_keygen_session ''k'' \<lparr>ks_link = new_link (Finished (Inr ex_ks)), ks_has_task = True\<rparr> init_engine"
  note law = collect_mode_returns [of ex_codecs ex_frost ex_dkls "ex_ctx []" "''k''" "''p''"]
  have a: "frost_keygen_sessions ?a ''k'' = None"
    "keygen_sessions ?a ''k'' = Some \<lparr>ks_link = new_link polls_forever, ks_has_task = True\<rparr>"
    by (simp_all add: session_defs init_engine_def)
  show "\<nexists>r st'. ?run ?a = Some (r, st')"
    using law [of ?a, THEN conjunct1] a polls_forever_not_ends by simp
  have b: "frost_keygen_sessions ?b ''k'' = None"
    "keygen_sessions ?b ''k'' = Some \<lparr>ks_link = new_link (Finished (Inr ex_ks)), ks_has_task = True\<rparr>"
    by (simp_all add: session_defs init_engine_def)
  have "ends_alone (new_link (Finished (Inr ex_ks)))"
    unfolding ends_alone_def by (rule exI [of _ 0]) (simp add: new_link_def)
  then obtain r st' where run: "?run ?b = Some (r, st')"
    using law [of ?b, THEN conjunct1] b by auto
  with law [of ?b None None r st'] b show "\<exists>r st'. ?run ?b = Some (r, st') \<and> keygen_sessions st' ''k'' = None"
    by auto
qed

lemma extract_address:
  assumes "keyshare_from_bytes D ks_bytes = Some ks" and "encoded_point D (public_key D ks) False = pk"
    and "length pk = 65" and "pk ! 0 = 4"
  shows "\<exists>addr. derive_evm_address C pk = Inr addr
           \<and> extract_pubkey_and_address C D ks_bytes = Inr (addr, hex_encode C pk, pk)"
  using assms by (simp add: extract_pubkey_and_address_def derive_evm_address_def Let_def)

text \<open>The reply of a recovery, from the call to its payload.\<close>

lemma recover_mode_completes:
  assumes "json_law C" and "extract_pubkey_and_address C D ks_bytes = Inr (addr, pk_hex, pk)"
    and "frost_recovery_sessions st q = None"
    and "recovery_sessions st q = Some \<lparr>rs_link = l, rs_has_task = True, rs_created_at = t, rs_rotation_version = v\<rparr>"
    and "join_link (l\<lparr>tx_open := False\<rparr>) = Some (Inr (Inr ks_bytes))" and "v \<noteq> 0x7FFFFFFF"
  shows "\<exists>r. recover C F D x q 0 p bs rv st =
               Some (Inr r, st\<lparr>recovery_sessions := (recovery_sessions st)(q := None)\<rparr>)
           \<and> is_completed C 0 (recovery_completed_json
                \<lparr>rc_mpc_key_id = q, rc_address = addr, rc_public_key = pk_hex,
                 rc_rotation_version = v + 1, rc_local_encrypted_share = b64_encode C ks_bytes\<rparr>) r
           \<and> sint (v + 1) = sint v + 1"
proof -
  have add: "add_i32 (cc_overflow_checks x) v 1 = Inr (v + 1)" "sint (v + 1) = sint v + 1"
    using add_i32_one [of "cc_overflow_checks x" v] add_i32_one [of True v] assms(6)
    by (simp_all add: add_i32_def split: if_splits)
  obtain r where r: "recovery_completed_reply C D x q 0 v ks_bytes = Inr r"
    "is_completed C 0 (recovery_completed_json
                \<lparr>rc_mpc_key_id = q, rc_address = addr, rc_public_key = pk_hex,
                 rc_rotation_version = v + 1, rc_local_encrypted_share = b64_encode C ks_bytes\<rparr>) r"
    using completed_reads [OF assms(1) payload_json_plain(4), of _ 0] assms(2) add(1)
    by (fastforce simp: recovery_completed_reply_def make_completed_def)
  then show ?thesis
    using assms(3-5) add(2)
    by (simp add: recover_def frost_recovery_session_exists_def recover_collect_def session_defs join_result_def)
qed

text \<open>
  Property C31: what the collect mode answers when the protocol has produced a keyshare whose
  uncompressed public key is a point of 65 bytes: round 0 of keygen, for a session with a task and
  no ed25519 session of its id, answers the completed payload with the EVM address and the
  uncompressed key of that keyshare, version 1 and the raw keyshare in base64; round 0 of recover,
  for its own session under the same conditions and below the greatest version, answers the same
  key with the version after the session's. The keyshare is never wrapped in a share envelope, and
  only the session is gone.
\<close>

theorem collect_mode_completes:
  assumes "json_law C"
    and "keyshare_from_bytes D ks_bytes = Some ks" and "encoded_point D (public_key D ks) False = pk"
    and "length pk = 65" and "pk ! 0 = 4"
  shows "\<exists>addr. derive_evm_address C pk = Inr addr
    \<and> (frost_keygen_sessions st k = None \<longrightarrow> keygen_sessions st k = Some \<lparr>ks_link = l, ks_has_task = True\<rparr> \<longrightarrow>
        join_link (l\<lparr>tx_open := False\<rparr>) = Some (Inr (Inr ks_bytes)) \<longrightarrow>
        (\<exists>r. keygen C F D x k 0 p st = Some (Inr r, st\<lparr>keygen_sessions := (keygen_sessions st)(k := None)\<rparr>)
           \<and> is_completed C 0 (keygen_completed_json
                \<lparr>kc_mpc_key_id = k, kc_address = addr, kc_public_key = hex_encode C pk,
                 kc_curve = ''secp256k1'', kc_threshold = 2, kc_key_ref = k, kc_backup_state = ''none'',
                 kc_rotation_version = 1, kc_local_encrypted_share = b64_encode C ks_bytes\<rparr>) r))
    \<and> (frost_recovery_sessions st' q = None \<longrightarrow>
        recovery_sessions st' q =
          Some \<lparr>rs_link = l', rs_has_task = True, rs_created_at = t, rs_rotation_version = v\<rparr> \<longrightarrow>
        join_link (l'\<lparr>tx_open := False\<rparr>) = Some (Inr (Inr ks_bytes)) \<longrightarrow> v \<noteq> 0x7FFFFFFF \<longrightarrow>
        (\<exists>r. recover C F D x q 0 p bs rv st' =
               Some (Inr r, st'\<lparr>recovery_sessions := (recovery_sessions st')(q := None)\<rparr>)
           \<and> is_completed C 0 (recovery_completed_json
                \<lparr>rc_mpc_key_id = q, rc_address = addr, rc_public_key = hex_encode C pk,
                 rc_rotation_version = v + 1, rc_local_encrypted_share = b64_encode C ks_bytes\<rparr>) r
           \<and> sint (v + 1) = sint v + 1))"
proof -
  obtain addr where addr: "derive_evm_address C pk = Inr addr"
    "extract_pubkey_and_address C D ks_bytes = Inr (addr, hex_encode C pk, pk)"
    using extract_address [OF assms(2-5)] by blast
  let ?j = "keygen_completed_json
                \<lparr>kc_mpc_key_id = k, kc_address = addr, kc_public_key = hex_encode C pk,
                 kc_curve = ''secp256k1'', kc_threshold = 2, kc_key_ref = k, kc_backup_state = ''none'',
                 kc_rotation_version = 1, kc_local_encrypted_share = b64_encode C ks_bytes\<rparr>"
  obtain r where r: "keygen_completed_reply C D k 0 ks_bytes = Inr r" "is_completed C 0 ?j r"
    using completed_reads [OF assms(1) payload_json_plain(3), of _ 0] addr(2)
    by (fastforce simp: keygen_completed_reply_def make_completed_def)
  have "keygen C F D x k 0 p st = Some (Inr r, st\<lparr>keygen_sessions := (keygen_sessions st)(k := None)\<rparr>)"
    if "frost_keygen_sessions st k = None" "keygen_sessions st k = Some \<lparr>ks_link = l, ks_has_task = True\<rparr>"
      "join_link (l\<lparr>tx_open := False\<rparr>) = Some (Inr (Inr ks_bytes))"
    using that r(1)
    by (simp add: keygen_def frost_keygen_session_exists_def keygen_collect_def session_defs join_result_def)
  with addr(1) r(2) show ?thesis
    by - (rule exI [of _ addr], intro conjI impI, blast, blast, rule recover_mode_completes [OF assms(1) addr(2)])
qed

theorem collect_mode_completes_witness:
  "(\<exists>r. keygen ex_codecs ex_frost ex_dkls (ex_ctx []) ''k'' 0 ''p''
       (insert_keygen_session ''k'' \<lparr>ks_link = new_link (Finished (Inr ex_ks)), ks_has_task = True\<rparr> init_engine)
       = Some (Inr r, init_engine))
   \<and> (\<exists>r. recover ex_codecs ex_frost ex_dkls (ex_ctx []) ''q'' 0 ''p'' None None
       (insert_recovery_session ''q'' \<lparr>rs_link = new_link (Emit [1] (\<lambda>_. Finished (Inr ex_ks))),
          rs_has_task = True, rs_created_at = 0, rs_rotation_version = 3\<rparr> init_engine) = Some (Inr r, init_engine))"
proof -
  let ?l = "new_link (Finished (Inr ex_ks)) :: bytes link"
  let ?l' = "new_link (Emit [1] (\<lambda>_. Finished (Inr ex_ks))) :: bytes link"
  let ?a = "insert_keygen_session ''k'' \<lparr>ks_link = ?l, ks_has_task = True\<rparr> init_engine"
  let ?b = "insert_recovery_session ''q'' \<lparr>rs_link = ?l', rs_has_task = True,
            rs_created_at = 0, rs_rotation_version = 3\<rparr> init_engine"
  have lib: "keyshare_from_bytes ex_dkls ex_ks = Some (Keyshare ex_ks)"
    "encoded_point ex_dkls (public_key ex_dkls (Keyshare ex_ks)) False = 4 # replicate 64 6"
    by (simp_all add: ex_dkls_def)
  have pk: "length (4 # replicate 64 6 :: bytes) = 65" "(4 # replicate 64 6 :: bytes) ! 0 = 4"
    by simp_all
  have a: "frost_keygen_sessions ?a ''k'' = None"
    "keygen_sessions ?a ''k'' = Some \<lparr>ks_link = ?l, ks_has_task = True\<rparr>"
    "join_link (?l\<lparr>tx_open := False\<rparr>) = Some (Inr (Inr ex_ks))"
    "?a\<lparr>keygen_sessions := (keygen_sessions ?a)(''k'' := None)\<rparr> = init_engine"
    by (simp_all add: session_defs init_engine_def join_link_def new_link_def)
  have b: "frost_recovery_sessions ?b ''q'' = None"
    "recovery_sessions ?b ''q'' = Some \<lparr>rs_link = ?l', rs_has_task = True, rs_created_at = 0,
       rs_rotation_version = 3\<rparr>"
    "join_link (?l'\<lparr>tx_open := False\<rparr>) = Some (Inr (Inr ex_ks))" "(3 :: i32) \<noteq> 0x7FFFFFFF"
    "?b\<lparr>recovery_sessions := (recovery_sessions ?b)(''q'' := None)\<rparr> = init_engine"
    by (simp_all add: session_defs init_engine_def join_link_def new_link_def task_step_def start_send_def
          out_capacity_def)
  from collect_mode_completes [OF ex_json_law lib pk, where st = ?a and k = "''k''" and l = ?l and F = ex_frost
      and x = "ex_ctx []" and p = "''p''" and st' = ?b and q = "''q''" and l' = ?l' and t = 0 and v = 3
      and bs = None and rv = None]
  show ?thesis unfolding a(4) b(5) using a(1-3) b(1-4) by blast
qed

section \<open>Expiry\<close>

text \<open>Which steps cannot be the ones that report an expired session.\<close>

lemma no_expiry_in_to_json [simp]: "to_json_string C j \<noteq> Inl (Expired k sid)"
  by (simp add: to_json_string_def split: sum.split)

lemma no_expiry_in_reply: "frost_reply C sid p rnd inner \<noteq> Inl (Expired k sid')"
  by (auto simp: frost_reply_def encode_wire_payload_from_inner_def frost_make_in_progress_def
        andThen_def Let_def split: sum.split dest: sym)

lemma no_expiry_in_collect: "\<forall>y. f y \<noteq> Inl e \<Longrightarrow> collect_results f ys \<noteq> Inl e"
  by (induction ys) (auto split: sum.split)

lemma no_expiry_in_batch: "parse_server_envelope_batch C p \<noteq> Inl (Expired k sid)"
  using no_expiry_in_collect [of "\<lambda>p. wrap_err ''base64 decode failed'' (b64_decode C p)"]
  by (auto simp: parse_server_envelope_batch_def decode_all_payloads_def andThen_def serde_err_def
        wrap_err_def split: sum.splits option.splits if_splits)

lemma no_expiry_in_completed:
  "andThen (join_result c1 c2 j) (\<lambda>b. recovery_completed_reply C D x sid rnd v b) \<noteq> Inl (Expired k sid')"
  by (auto simp: recovery_completed_reply_def join_result_def make_completed_def
        extract_pubkey_and_address_def derive_evm_address_def andThen_def wrap_err_def ok_or_def
        add_i32_def Let_def split: sum.splits option.splits if_splits prod.splits dest: sym)

lemma no_expiry_in_inject: "inject_all sch l ms \<noteq> Some (Inl (Expired k sid), l', sch')"
  by (induction sch l ms rule: inject_all.induct) auto

lemma no_expiry_in_exchange: "exchange sch l ms \<noteq> Some (Inl (Expired k sid), l')"
  by (auto elim!: exchange_cases simp: no_expiry_in_inject)

lemma no_expiry_in_batch_reply: "make_in_progress_batch C sid p rnd ms \<noteq> Inl (Expired k sid')"
  by (auto simp: make_in_progress_batch_def andThen_def Let_def split: sum.split dest: sym)

text \<open>
  Property C32: a recovery session older than five minutes answers with the expiry error and is
  evicted in the second round on ed25519 and, where no ed25519 session has its id, in every round but
  0 and 1 on secp256k1; a younger one is never reported as expired there. Round 0, the ed25519 finalize and the collect mode of
  secp256k1, does the same whatever the clock says: it takes a session of any age.
\<close>

theorem recover_expires:
  assumes "frost_recovery_sessions st f = Some s" and "frost_recovery_sessions st2 q = None"
    and "recovery_sessions st2 q = Some s'" and "rnd \<noteq> 0" and "rnd \<noteq> 1"
  shows "(if elapsed (cc_now x) (fr_created_at s) > SESSION_TTL
          then recover C F D x f 2 p bs rv st =
                 Some (Inl (Expired ''ed25519 recovery'' f),
                       st\<lparr>frost_recovery_sessions := (frost_recovery_sessions st)(f := None)\<rparr>)
          else \<forall>st'. recover C F D x f 2 p bs rv st \<noteq> Some (Inl (Expired ''ed25519 recovery'' f), st'))
       \<and> (if elapsed (cc_now x) (rs_created_at s') > SESSION_TTL
          then recover C F D x q rnd p bs rv st2 =
                 Some (Inl (Expired ''recovery'' q),
                       st2\<lparr>recovery_sessions := (recovery_sessions st2)(q := None)\<rparr>)
          else \<forall>st'. recover C F D x q rnd p bs rv st2 \<noteq> Some (Inl (Expired ''recovery'' q), st'))
       \<and> recover C F D (x\<lparr>cc_now := now\<rparr>) sid 0 p bs rv st3 = recover C F D x sid 0 p bs rv st3"
proof (intro conjI)
  have frost: "recover C F D x f 2 p bs rv st = Some (frost_recover_round2 C F x f p st)"
    using assms(1) by (simp add: recover_def frost_recovery_session_exists_def frost_recover_def)
  have young: "fst (frost_recover_round2 C F x f p st) \<noteq> Inl (Expired ''ed25519 recovery'' f)"
    if "\<not> elapsed (cc_now x) (fr_created_at s) > SESSION_TTL"
    using assms(1) that no_expiry_in_reply [of C f Rotation 2]
    by (auto simp: frost_recover_round2_def frost_recover_ttl_check_def session_defs parse_wire_def
          serde_err_def wrap_err_def split: sum.splits)
  then show "if elapsed (cc_now x) (fr_created_at s) > SESSION_TTL
          then recover C F D x f 2 p bs rv st =
                 Some (Inl (Expired ''ed25519 recovery'' f),
                       st\<lparr>frost_recovery_sessions := (frost_recovery_sessions st)(f := None)\<rparr>)
          else \<forall>st'. recover C F D x f 2 p bs rv st \<noteq> Some (Inl (Expired ''ed25519 recovery'' f), st')"
    unfolding frost using assms(1)
    by (auto simp: frost_recover_round2_def frost_recover_ttl_check_def session_defs)
  have secp: "recover C F D x q rnd p bs rv st2 = recover_advance C D x q p st2"
    using assms(2,4,5) by (simp add: recover_def frost_recovery_session_exists_def)
  have young': "recover_advance C D x q p st2 \<noteq> Some (Inl (Expired ''recovery'' q), st')"
    if "\<not> elapsed (cc_now x) (rs_created_at s') > SESSION_TTL" for st'
    using assms(3) that by (auto simp: no_expiry_in_batch no_expiry_in_completed no_expiry_in_exchange no_expiry_in_batch_reply recover_advance_def Let_def attempt_eq_Some bind_eq_Some_conv
          split: option.splits if_splits)
  show "if elapsed (cc_now x) (rs_created_at s') > SESSION_TTL
          then recover C F D x q rnd p bs rv st2 =
                 Some (Inl (Expired ''recovery'' q),
                       st2\<lparr>recovery_sessions := (recovery_sessions st2)(q := None)\<rparr>)
          else \<forall>st'. recover C F D x q rnd p bs rv st2 \<noteq> Some (Inl (Expired ''recovery'' q), st')"
    unfolding secp using assms(3) young' by (auto simp: recover_advance_def session_defs)
  show "recover C F D (x\<lparr>cc_now := now\<rparr>) sid 0 p bs rv st3 = recover C F D x sid 0 p bs rv st3"
    by (simp add: recover_def frost_recover_def frost_recover_finalize_def recover_collect_def
          recovery_completed_reply_def cong: if_cong)
qed

theorem recover_expires_witness:
  "\<exists>st'. recover ex_codecs ex_frost ex_dkls ((ex_ctx [])\<lparr>cc_now := SESSION_TTL + 1\<rparr>) ''r'' 2 ''x'' None None
     (insert_frost_recovery_session ''f''
        \<lparr>fr_created_at = 0, fr_rotation_version = 4, fr_lib_state = RecoveryState ex_vk,
         fr_pending_server_inner = ''q2''\<rparr> ex_engine) =
     Some (Inl (Expired ''recovery'' ''r''), st')"
proof -
  let ?s = "\<lparr>fr_created_at = 0, fr_rotation_version = 4, fr_lib_state = RecoveryState ex_vk,
         fr_pending_server_inner = ''q2''\<rparr>"
  let ?st = "insert_frost_recovery_session ''f'' ?s ex_engine"
  have st: "frost_recovery_sessions ?st ''f'' = Some ?s" "frost_recovery_sessions ?st ''r'' = None"
    "recovery_sessions ?st ''r'' =
       Some \<lparr>rs_link = ex_waiting, rs_has_task = True, rs_created_at = 0, rs_rotation_version = 1\<rparr>"
    "(2 :: i32) \<noteq> 0" "(2 :: i32) \<noteq> 1"
    by (simp_all add: session_defs)
  from recover_expires [OF st, of "(ex_ctx [])\<lparr>cc_now := SESSION_TTL + 1\<rparr>" ex_codecs ex_frost ex_dkls "''x''" None None]
  show ?thesis by (simp add: elapsed_def)
qed

section \<open>Exported keys\<close>

text \<open>What a successful export leaves in the registry.\<close>

lemma frost_export_Inr:
  assumes "frost_export_private_key C F S s1 s2 st = (Inr r, st')"
  shows "\<exists>kp pkp vk. extract_share_material C F s1 = Inr (kp, pkp) \<and> verifying_key_bytes F pkp = Inr vk
           \<and> hex_encode C vk \<in> exported_keys st'"
proof -
  have "hex_encode C vk \<in> exported_keys (insert_exported_key (hex_encode C vk) st)" for vk
    by (simp add: insert_exported_key_def)
  with assms show ?thesis
    by (auto simp: frost_export_private_key_def Let_def question_Inr_iff split: if_splits)
qed

lemma secp_export_Inr:
  assumes "secp_export_private_key C D s1 s2 st = (Inr r, st')"
  shows "\<exists>raw ks. b64_decode C s1 = Inr raw \<and> keyshare_from_bytes D raw = Some ks
           \<and> hex_encode C (encoded_point D (public_key D ks) True) \<in> exported_keys st'"
proof -
  have "k \<in> exported_keys (insert_exported_key k st)" for k
    by (simp add: insert_exported_key_def)
  with assms show ?thesis
    by (auto simp: secp_export_private_key_def Let_def question_Inr_iff split: if_splits)
qed

lemma frost_sign_round1_exported:
  assumes "extract_share_material C F s = Inr (kp, pkp)" and "verifying_key_bytes F pkp = Inr vk"
    and "hex_encode C vk \<in> exported_keys st"
  shows "\<exists>e. frost_sign_round1 C F x sid p (Some s) mh st = (Inl e, st)"
proof -
  have "\<exists>e. frost_sign_round1_checks C F p (Some s) mh st = Inl e"
    using assms by (auto simp: frost_sign_round1_checks_def andThen_def Let_def split: sum.split)
  then show ?thesis
    by (auto simp: frost_sign_round1_def)
qed

lemma sign_round1_exported:
  assumes "b64_decode C s = Inr raw" and "from_slice C dec_share_envelope raw = Inl e"
    and "keyshare_from_bytes D raw = Some ks"
    and "hex_encode C (encoded_point D (public_key D ks) True) \<in> exported_keys st"
  shows "\<exists>e. sign_round1 C D x sid p (Some s) mh st = Some (Inl e, st)"
proof -
  have "share_envelope_decode C s = Inr (Secp256k1, raw)"
    using assms(1,2) by (simp add: share_envelope_decode_def)
  then have "\<exists>e. sign_prepare C D sid p (Some s) mh st = Inl e"
    using assms(3,4) by (auto simp: sign_prepare_def andThen_def Let_def split: sum.split)
  then show ?thesis
    by (auto simp: sign_round1_def)
qed

text \<open>
  After an export no signing session opens for the share, on either curve, in any state whose
  registry still holds the keys. A raw DKLs23 keyshare is binary and no JSON envelope.
\<close>

definition keyshares_not_json :: "codecs \<Rightarrow> dkls_lib \<Rightarrow> bool" where
  "keyshares_not_json C D \<longleftrightarrow>
     (\<forall>raw ks. keyshare_from_bytes D raw = Some ks \<longrightarrow> (\<exists>e. from_slice C dec_share_envelope raw = Inl e))"

lemma export_blocks_signing:
  assumes "export_private_key C F D S share server st = (Inr r, st1)"
    and "exported_keys st1 \<subseteq> exported_keys st2" and "keyshares_not_json C D"
  shows "\<exists>e. sign C F D x sid 1 p (Some share) mh st2 = Some (Inl e, st2)"
proof (cases "share_is_ed25519 C share")
  case True
  with assms(1) have "frost_export_private_key C F S share server st = (Inr r, st1)"
    by (simp add: export_private_key_def)
  with frost_export_Inr assms(2) obtain kp pkp vk where
    "extract_share_material C F share = Inr (kp, pkp)" "verifying_key_bytes F pkp = Inr vk"
    "hex_encode C vk \<in> exported_keys st2"
    by blast
  from frost_sign_round1_exported [OF this] True show ?thesis
    by (simp add: sign_def opt_share_is_ed25519_def frost_sign_def)
next
  case False
  with assms(1) have "secp_export_private_key C D share server st = (Inr r, st1)"
    by (simp add: export_private_key_def)
  with secp_export_Inr assms(2,3) [unfolded keyshares_not_json_def] obtain raw ks e where
    "b64_decode C share = Inr raw" "from_slice C dec_share_envelope raw = Inl e"
    "keyshare_from_bytes D raw = Some ks"
    "hex_encode C (encoded_point D (public_key D ks) True) \<in> exported_keys st2"
    by blast
  from sign_round1_exported [OF this] False show ?thesis
    by (simp add: sign_def opt_share_is_ed25519_def)
qed

text \<open>A secp256k1 export of the example library.\<close>

lemma ex_not_envelope: "\<exists>e. from_slice ex_codecs dec_share_envelope ex_ks = Inl e"
  by (simp add: ex_ks_def from_slice_def ex_codecs_def ex_json_parse_def)

lemma ex_secp_export:
  obtains r st1 where "export_private_key ex_codecs ex_frost ex_dkls ex_scalars
     (b64_encode ex_codecs ex_ks) (b64_encode ex_codecs ex_ks) init_engine = (Inr r, st1)"
proof -
  obtain e where "from_slice ex_codecs dec_share_envelope ex_ks = Inl e"
    using ex_not_envelope by blast
  then have "\<not> share_is_ed25519 ex_codecs (b64_encode ex_codecs ex_ks)"
    by (simp add: share_is_ed25519_def share_envelope_decode_def codec_simps ex_b64_law)
  moreover obtain addr where "derive_evm_address ex_codecs (4 # replicate 64 6) = Inr addr"
    by (simp add: derive_evm_address_def Let_def)
  moreover obtain r where "to_json_string ex_codecs (export_result_json
      \<lparr>er_private_key = hex_encode ex_codecs [6], er_address = addr, er_exported = True\<rparr>) = Inr r"
    using to_json_reads [OF ex_json_law payload_json_plain(5)] by blast
  ultimately show thesis
    by (intro that)
       (simp add: export_private_key_def secp_export_private_key_def codec_simps ex_b64_law,
        simp add: ex_dkls_def list_get_def Let_def)
qed

lemma ex_keyshares_not_json: "keyshares_not_json ex_codecs ex_dkls"
  using ex_not_envelope by (auto simp: keyshares_not_json_def ex_dkls_def split: if_splits)

text \<open>
  Property C34: only opening a session consults the registry. Round 2 of an ed25519 signature and
  the later rounds of a secp256k1 one answer the same whatever keys have been exported since.
\<close>

theorem open_sessions_ignore_exports:
  "frost_sign C F x sid 2 p share mh (st\<lparr>exported_keys := K\<rparr>) =
     apsnd (\<lambda>st'. st'\<lparr>exported_keys := K\<rparr>) (frost_sign C F x sid 2 p share mh st)
   \<and> sign_advance C x sid p (st\<lparr>exported_keys := K\<rparr>) =
     map_option (apsnd (\<lambda>st'. st'\<lparr>exported_keys := K\<rparr>)) (sign_advance C x sid p st)"
proof (rule conjI)
  show "frost_sign C F x sid 2 p share mh (st\<lparr>exported_keys := K\<rparr>) =
     apsnd (\<lambda>st'. st'\<lparr>exported_keys := K\<rparr>) (frost_sign C F x sid 2 p share mh st)"
    by (auto simp: frost_sign_def frost_sign_round2_def frost_sign_round2_open_def session_defs
          question_def Let_def split: sum.splits)
  show "sign_advance C x sid p (st\<lparr>exported_keys := K\<rparr>) =
     map_option (apsnd (\<lambda>st'. st'\<lparr>exported_keys := K\<rparr>)) (sign_advance C x sid p st)"
    by (auto simp: sign_advance_def session_defs attempt_def ok_or_def Let_def
          split: sum.splits option.splits prod.splits Option.bind_splits)
qed

section \<open>Secp256k1 signatures\<close>

text \<open>
  Property C29: a secp256k1 signing session is opened for one 32-byte digest and one key that has
  not been exported, and the protocol is set up with just these: party 0 of the parties 0 and 1,
  the root derivation path, the keyshare of the given share.
\<close>

theorem sign_round1_opens:
  assumes "sign_round1 C D x sid p share mh st = Some (Inr r, st')"
  shows "\<exists>env msgs share_text hash digest raw ks inst path l out.
           parse_server_envelope_batch C p = Inr (env, msgs)
           \<and> share = Some share_text \<and> share_envelope_decode C share_text = Inr (Secp256k1, raw)
           \<and> keyshare_from_bytes D raw = Some ks
           \<and> mh = Some hash \<and> hex_decode C hash = Inr digest \<and> length digest = 32
           \<and> hex_encode C (encoded_point D (public_key D ks) True) \<notin> exported_keys st
           \<and> exchange (cc_schedule x) (new_link (map_task (sign_output D) (sign_run D
                 \<lparr>ds_instance = inst, ds_party = 0, ds_verifying_keys = [0, 1], ds_keyshare = ks,
                  ds_hash = digest, ds_chain_path = path\<rparr> (random_seed x)))) msgs =
               Some (Inr (Some out), l)
           \<and> parse_derivation_path D ''m'' = Inr path
           \<and> sign_sessions st' sid = Some \<lparr>ss_link = l, ss_has_task = True,
                ss_digest = MessageDigest digest, ss_consumed = False,
                ss_public_key_hex = hex_encode C (encoded_point D (public_key D ks) True)\<rparr>
           \<and> make_in_progress_batch C sid Dsg (we_round env) (fst out) = Inr r"
  using assms
  by (auto simp: sign_round1_def sign_prepare_def message_digest_from_hex_def message_digest_new_def
        attempt_eq_Some bind_eq_Some_conv session_defs Let_def split: option.splits if_splits)
     blast

lemma ex_exchange_new:
  "exchange ex_schedule (new_link (map_task f (ex_run m r))) [q] =
     Some (Inr (Some ([m], False)),
           \<lparr>inq = [], tx_open = True, outq = [], permit = False, waiter = NoWaiter,
            prog = Await (\<lambda>_. Finished (Inr (f r)))\<rparr>)"
proof -
  have "map_task f (ex_run m r) = ex_run m (f r)" by (simp add: ex_run_def comp_def)
  then show ?thesis by (simp add: ex_exchange)
qed

theorem sign_round1_opens_witness:
  "\<exists>p r st' s. sign_round1 ex_codecs ex_dkls (ex_ctx ex_schedule) (hex_encode ex_codecs (replicate 32 1)) p
       (Some (b64_encode ex_codecs ex_ks)) (Some (hex_encode ex_codecs (replicate 32 2))) init_engine =
       Some (Inr r, st')
     \<and> sign_sessions st' (hex_encode ex_codecs (replicate 32 1)) = Some s
     \<and> ss_digest s = MessageDigest (replicate 32 2)"
proof -
  let ?sid = "hex_encode ex_codecs (replicate 32 1)"
  let ?mh = "hex_encode ex_codecs (replicate 32 2)"
  obtain p env where p: "parse_server_envelope_batch ex_codecs p = Inr (env, [[9]])"
    using ex_server_envelope by blast
  obtain e where e: "from_slice ex_codecs dec_share_envelope ex_ks = Inl e"
    using ex_not_envelope by blast
  obtain r where r: "make_in_progress_batch ex_codecs ?sid Dsg (we_round env) [[3]] = Inr r"
    using batch_reads [OF ex_json_law] by blast
  have lib: "keyshare_from_bytes ex_dkls ex_ks = Some (Keyshare ex_ks)"
    "parse_derivation_path ex_dkls ''m'' = Inr (DerivationPath ''m'')"
    "sign_run ex_dkls su seed = ex_run [3] (EcdsaSignature (replicate 64 4), RecoveryId [1])"
    "exported_keys init_engine = {}" "cc_schedule (ex_ctx sch) = sch" for su seed sch
    by (simp_all add: ex_dkls_def init_engine_def ex_ctx_def)
  obtain st' where run: "sign_round1 ex_codecs ex_dkls (ex_ctx ex_schedule) ?sid p
       (Some (b64_encode ex_codecs ex_ks)) (Some ?mh) init_engine = Some (Inr r, st')"
    using p e r
    by (simp add: sign_round1_def sign_prepare_def message_digest_from_hex_def codec_simps ex_laws
          try_into_array_def share_envelope_decode_def lib instance_id_from_session_def ex_exchange_new)
  have "hex_decode ex_codecs ?mh = Inr (replicate 32 2)"
    by (rule hex_decode_encode [OF ex_hex_law])
  with sign_round1_opens [OF run] run show ?thesis by fastforce
qed



end
