(* ===== verification/Runs.thy ===== *)
theory Runs
  imports Dkls_Proofs "HOL-Library.Multiset"
begin

text \<open>
  Runs of the engine: the API as a step relation on the process-wide state. The bridge exports
  the dispatching functions of \<open>mpc_engine.rs\<close> and beside them keygen, recover and sign of
  \<open>engine_ed25519.rs\<close>, which skip the dispatch. A step is a call that returns, with
  any clock, randomness and schedule, or a move a protocol task makes on its own between calls.
  The invariant of the engine state and the frame of a call are proved here by rule induction,
  and the theorems about whole runs in \<open>Spec2Isabelle\<close> rest on them.
\<close>

section \<open>The API as a step relation\<close>

datatype api_call =
    CallKeygen string i32 string
  | CallRecover string i32 string "string option" "i32 option"
  | CallSign string i32 string "string option" "string option"
  | CallExport string string
  | CallFrostKeygen string i32 string
  | CallFrostRecover string i32 string "string option" "i32 option"
  | CallFrostSign string i32 string "string option" "string option"

record 's crates =
  the_codecs :: codecs
  the_frost :: frost_lib
  the_dkls :: dkls_lib
  the_scalars :: "'s scalar_lib"

fun perform :: "('s::comm_ring_1) crates \<Rightarrow> call_ctx \<Rightarrow> api_call \<Rightarrow> engine \<Rightarrow> outcome" where
  "perform W x (CallKeygen sid rnd p) st =
     keygen (the_codecs W) (the_frost W) (the_dkls W) x sid rnd p st"
| "perform W x (CallRecover sid rnd p share rv) st =
     recover (the_codecs W) (the_frost W) (the_dkls W) x sid rnd p share rv st"
| "perform W x (CallSign sid rnd p share mh) st =
     sign (the_codecs W) (the_frost W) (the_dkls W) x sid rnd p share mh st"
| "perform W x (CallExport local server) st =
     Some (export_private_key (the_codecs W) (the_frost W) (the_dkls W) (the_scalars W) local server st)"
| "perform W x (CallFrostKeygen sid rnd p) st =
     Some (frost_keygen (the_codecs W) (the_frost W) x sid rnd p st)"
| "perform W x (CallFrostRecover sid rnd p share rv) st =
     Some (frost_recover (the_codecs W) (the_frost W) x sid rnd p share rv st)"
| "perform W x (CallFrostSign sid rnd p share mh) st =
     Some (frost_sign (the_codecs W) (the_frost W) x sid rnd p share mh st)"

text \<open>The nonces a call commits to, and the nonces it takes out of a session to sign with.\<close>

fun issued :: "('s::comm_ring_1) crates \<Rightarrow> call_ctx \<Rightarrow> api_call \<Rightarrow> engine \<Rightarrow> signing_nonces list" where
  "issued W x (CallSign sid rnd p share mh) st =
     (if rnd = 1 \<and> opt_share_is_ed25519 (the_codecs W) share then
        case frost_sign_round1_checks (the_codecs W) (the_frost W) p share mh st of
          Inr (_, _, kp, _, _) \<Rightarrow> [fst (commit (the_frost W) kp (cc_entropy x))]
        | Inl _ \<Rightarrow> []
      else [])"
| "issued W x (CallFrostSign sid rnd p share mh) st =
     (if rnd = 1 then
        case frost_sign_round1_checks (the_codecs W) (the_frost W) p share mh st of
          Inr (_, _, kp, _, _) \<Rightarrow> [fst (commit (the_frost W) kp (cc_entropy x))]
        | Inl _ \<Rightarrow> []
      else [])"
| "issued W x _ st = []"

fun spent :: "('s::comm_ring_1) crates \<Rightarrow> api_call \<Rightarrow> engine \<Rightarrow> signing_nonces list" where
  "spent W (CallSign sid rnd p share mh) st =
     (if rnd = 2 then
        case fst (frost_sign_round2_open (the_codecs W) (the_frost W) sid p st) of
          Inr (_, _, _, nonces) \<Rightarrow> [nonces]
        | Inl _ \<Rightarrow> []
      else [])"
| "spent W (CallFrostSign sid rnd p share mh) st =
     (if rnd = 2 then
        case fst (frost_sign_round2_open (the_codecs W) (the_frost W) sid p st) of
          Inr (_, _, _, nonces) \<Rightarrow> [nonces]
        | Inl _ \<Rightarrow> []
      else [])"
| "spent W _ st = []"

text \<open>
  A run from the process's start: the nonces issued and spent in it, the latest first, and the
  state it has reached.
\<close>

inductive run ::
  "('s::comm_ring_1) crates \<Rightarrow> signing_nonces list \<Rightarrow> signing_nonces list \<Rightarrow> engine \<Rightarrow> bool"
  for W :: "('s::comm_ring_1) crates" where
  Start: "run W [] [] init_engine"
| Call: "run W i u st \<Longrightarrow> perform W x c st = Some (r, st') \<Longrightarrow>
     run W (issued W x c st @ i) (spent W c st @ u) st'"
| Keygen_task: "run W i u st \<Longrightarrow> keygen_sessions st sid = Some s \<Longrightarrow>
     run W i u (insert_keygen_session sid (s\<lparr>ks_link := task_step (ks_link s)\<rparr>) st)"
| Recovery_task: "run W i u st \<Longrightarrow> recovery_sessions st sid = Some s \<Longrightarrow>
     run W i u (insert_recovery_session sid (s\<lparr>rs_link := task_step (rs_link s)\<rparr>) st)"
| Sign_task: "run W i u st \<Longrightarrow> sign_sessions st sid = Some s \<Longrightarrow>
     run W i u (insert_sign_session sid (s\<lparr>ss_link := task_step (ss_link s)\<rparr>) st)"

section \<open>The invariant\<close>

text \<open>
  Between calls every channel session has its task, its channels within their capacity and the
  sender alive; every signing session is unconsumed, holds its nonces, the commitments of just
  the two parties, or a digest of 32 bytes.
\<close>

definition link_alive :: "'r link \<Rightarrow> bool" where
  "link_alive l \<longleftrightarrow> link_ok l \<and> tx_open l"

definition keygen_session_ok :: "keygen_session \<Rightarrow> bool" where
  "keygen_session_ok s \<longleftrightarrow> ks_has_task s \<and> link_alive (ks_link s)"

definition recovery_session_ok :: "recovery_session \<Rightarrow> bool" where
  "recovery_session_ok s \<longleftrightarrow> rs_has_task s \<and> link_alive (rs_link s)"

definition sign_session_ok :: "sign_session \<Rightarrow> bool" where
  "sign_session_ok s \<longleftrightarrow>
     ss_has_task s \<and> link_alive (ss_link s) \<and> \<not> ss_consumed s \<and> length (into_bytes (ss_digest s)) = 32"

definition frost_sign_session_ok :: "frost_sign_session \<Rightarrow> bool" where
  "frost_sign_session_ok s \<longleftrightarrow>
     fs_nonces s \<noteq> None \<and> \<not> fs_consumed s
     \<and> dom (fs_commitments s) = {frost_client_identifier, frost_server_identifier}"

definition engine_ok :: "engine \<Rightarrow> bool" where
  "engine_ok st \<longleftrightarrow>
     (\<forall>s \<in> ran (keygen_sessions st). keygen_session_ok s)
     \<and> (\<forall>s \<in> ran (recovery_sessions st). recovery_session_ok s)
     \<and> (\<forall>s \<in> ran (sign_sessions st). sign_session_ok s)
     \<and> (\<forall>s \<in> ran (frost_sign_sessions st). frost_sign_session_ok s)
     \<and> finite (dom (frost_sign_sessions st))"

lemma ran_upd_ok: "(\<forall>s \<in> ran m. P s) \<Longrightarrow> P t \<Longrightarrow> (\<forall>s \<in> ran (m(k \<mapsto> t)). P s)"
  by (auto simp: ran_def)

lemma ran_del_ok: "(\<forall>s \<in> ran m. P s) \<Longrightarrow> (\<forall>s \<in> ran (m(k := None)). P s)"
  by (auto simp: ran_def)

lemma ran_lookup: "(\<forall>s \<in> ran m. P s) \<Longrightarrow> m k = Some s \<Longrightarrow> P s"
  by (auto simp: ran_def)

lemma engine_ok_insert [intro!]:
  "engine_ok st \<Longrightarrow> keygen_session_ok k \<Longrightarrow> engine_ok (insert_keygen_session sid k st)"
  "engine_ok st \<Longrightarrow> recovery_session_ok r \<Longrightarrow> engine_ok (insert_recovery_session sid r st)"
  "engine_ok st \<Longrightarrow> sign_session_ok s \<Longrightarrow> engine_ok (insert_sign_session sid s st)"
  "engine_ok st \<Longrightarrow> frost_sign_session_ok f \<Longrightarrow> engine_ok (insert_frost_sign_session sid f st)"
  "engine_ok st \<Longrightarrow> engine_ok (insert_frost_keygen_session sid g st)"
  "engine_ok st \<Longrightarrow> engine_ok (insert_frost_recovery_session sid h st)"
  "engine_ok st \<Longrightarrow> engine_ok (insert_exported_key key st)"
  unfolding engine_ok_def session_defs by (auto intro!: ran_upd_ok simp: ran_def)

lemma engine_ok_remove [intro!]:
  "engine_ok st \<Longrightarrow> engine_ok (snd (remove_keygen_session sid st))"
  "engine_ok st \<Longrightarrow> engine_ok (snd (remove_recovery_session sid st))"
  "engine_ok st \<Longrightarrow> engine_ok (snd (remove_sign_session sid st))"
  "engine_ok st \<Longrightarrow> engine_ok (snd (remove_frost_sign_session sid st))"
  "engine_ok st \<Longrightarrow> engine_ok (snd (remove_frost_keygen_session sid st))"
  "engine_ok st \<Longrightarrow> engine_ok (snd (remove_frost_recovery_session sid st))"
  unfolding engine_ok_def session_defs by (auto simp: ran_def)

lemma engine_ok_lookup:
  "engine_ok st \<Longrightarrow> keygen_sessions st sid = Some k \<Longrightarrow> keygen_session_ok k"
  "engine_ok st \<Longrightarrow> recovery_sessions st sid = Some r \<Longrightarrow> recovery_session_ok r"
  "engine_ok st \<Longrightarrow> sign_sessions st sid = Some s \<Longrightarrow> sign_session_ok s"
  "engine_ok st \<Longrightarrow> frost_sign_sessions st sid = Some f \<Longrightarrow> frost_sign_session_ok f"
  by (auto simp: engine_ok_def ran_def)

lemma link_alive_exchange: "link_alive l \<Longrightarrow> exchange sch l ms = Some (r, l') \<Longrightarrow> link_alive l'"
  by (simp add: link_alive_def exchange_link_ok exchange_tx_open)

lemma link_alive_new: "link_alive (new_link t)"
  by (simp add: link_alive_def link_ok_def new_link_def)

lemma link_alive_exchange_new: "exchange sch (new_link t) ms = Some (r, l') \<Longrightarrow> link_alive l'"
  using link_alive_exchange link_alive_new by blast

lemma link_alive_task_step: "link_alive l \<Longrightarrow> link_alive (task_step l)"
  by (simp add: link_alive_def task_step_ok)

text \<open>Through the \<open>?\<close> operator: the state an early return leaves, and the one of the rest.\<close>

lemmas ok_question = snd_question [where R = engine_ok]

lemma keygen_frost_ok: "engine_ok st \<Longrightarrow> engine_ok (snd (frost_keygen C F x sid rnd p st))"
  by (auto simp: frost_keygen_def frost_keygen_round1_def frost_keygen_round2_def
        frost_keygen_finalize_def Let_def case_prod_beta intro!: ok_question)

lemma recover_frost_ok: "engine_ok st \<Longrightarrow> engine_ok (snd (frost_recover C F x sid rnd p bs rv st))"
proof -
  assume ok: "engine_ok st"
  then have "engine_ok (snd (frost_recover_ttl_check x sid st))"
    by (auto simp: frost_recover_ttl_check_def split: option.split)
  then have "engine_ok (snd (frost_recover_round2 C F x sid p st))"
    by (cases "frost_recover_ttl_check x sid st")
       (auto simp: frost_recover_round2_def Let_def case_prod_beta intro!: ok_question split: sum.split)
  with ok show ?thesis
    by (auto simp: frost_recover_def frost_recover_round1_def frost_recover_finalize_def Let_def
          case_prod_beta intro!: ok_question)
qed

lemma sign_frost_ok: "engine_ok st \<Longrightarrow> engine_ok (snd (frost_sign C F x sid rnd p share mh st))"
proof -
  assume ok: "engine_ok st"
  have "engine_ok (snd (frost_sign_round2_open C F sid p st))"
    using ok by (auto simp: frost_sign_round2_open_def Let_def case_prod_beta intro!: ok_question)
  then have "engine_ok (snd (frost_sign_round2 C F sid p st))"
    by (auto simp: frost_sign_round2_def split: prod.split sum.split)
  moreover have "engine_ok (snd (frost_sign_round1 C F x sid p share mh st))"
    using ok
    by (auto simp: frost_sign_round1_def Let_def case_prod_beta frost_sign_session_ok_def
          frost_client_identifier_def frost_server_identifier_def intro!: ok_question)
  ultimately show ?thesis
    using ok by (simp add: frost_sign_def)
qed

text \<open>How a channel handler goes on from an exchange: with a batch, or at the end.\<close>

lemma case_out:
  "(case out of Some (m, _) \<Rightarrow> A m | None \<Rightarrow> B) = Some z \<longleftrightarrow>
     (\<exists>m d. out = Some (m, d) \<and> A m = Some z) \<or> (out = None \<and> B = Some z)"
  by (auto split: option.splits)

lemma keygen_secp_state:
  "keygen_collect C D sid st = Some (r, st') \<Longrightarrow> st' = snd (remove_keygen_session sid st)"
  "keygen_round1 C D x sid p st = Some (r, st') \<Longrightarrow>
     st' = st \<or> (\<exists>l. link_alive l \<and> st' = insert_keygen_session sid \<lparr>ks_link = l, ks_has_task = True\<rparr> st)"
  "keygen_advance C D x sid p st = Some (r, st') \<Longrightarrow>
     st' = st \<or> (\<exists>s l ms r'. keygen_sessions st sid = Some s \<and> exchange (cc_schedule x) (ks_link s) ms = Some (r', l)
       \<and> (st' = insert_keygen_session sid (s\<lparr>ks_link := l\<rparr>) st
          \<or> st' = snd (remove_keygen_session sid (insert_keygen_session sid (s\<lparr>ks_link := l\<rparr>) st))))"
proof -
  show "st' = snd (remove_keygen_session sid st)" if "keygen_collect C D sid st = Some (r, st')"
    using that
    by (auto simp: keygen_collect_def attempt_eq_Some bind_eq_Some_conv Let_def case_prod_beta
          split: if_splits)
  show "st' = st \<or> (\<exists>l. link_alive l \<and> st' = insert_keygen_session sid \<lparr>ks_link = l, ks_has_task = True\<rparr> st)"
    if "keygen_round1 C D x sid p st = Some (r, st')"
    using that
    by (auto simp: keygen_round1_def case_out attempt_eq_Some bind_eq_Some_conv Let_def
          dest: link_alive_exchange_new)
  show "st' = st \<or> (\<exists>s l ms r'. keygen_sessions st sid = Some s \<and> exchange (cc_schedule x) (ks_link s) ms = Some (r', l)
       \<and> (st' = insert_keygen_session sid (s\<lparr>ks_link := l\<rparr>) st
          \<or> st' = snd (remove_keygen_session sid (insert_keygen_session sid (s\<lparr>ks_link := l\<rparr>) st))))"
    if "keygen_advance C D x sid p st = Some (r, st')"
    using that
    by (auto simp: keygen_advance_def case_out attempt_eq_Some bind_eq_Some_conv Let_def
          split: if_splits)
qed

lemma recover_secp_state:
  "recover_collect C D x sid st = Some (r, st') \<Longrightarrow> st' = snd (remove_recovery_session sid st)"
  "recover_round1 C D x sid p bs rv st = Some (r, st') \<Longrightarrow>
     st' = st \<or> (\<exists>l t v. link_alive l \<and> st' = insert_recovery_session sid
       \<lparr>rs_link = l, rs_has_task = True, rs_created_at = t, rs_rotation_version = v\<rparr> st)"
  "recover_advance C D x sid p st = Some (r, st') \<Longrightarrow>
     st' = st \<or> st' = snd (remove_recovery_session sid st)
     \<or> (\<exists>s l ms r'. recovery_sessions st sid = Some s \<and> exchange (cc_schedule x) (rs_link s) ms = Some (r', l)
       \<and> (st' = insert_recovery_session sid (s\<lparr>rs_link := l\<rparr>) st
          \<or> st' = snd (remove_recovery_session sid (insert_recovery_session sid (s\<lparr>rs_link := l\<rparr>) st))))"
proof -
  show "st' = snd (remove_recovery_session sid st)" if "recover_collect C D x sid st = Some (r, st')"
    using that
    by (auto simp: recover_collect_def attempt_eq_Some bind_eq_Some_conv Let_def case_prod_beta
          split: if_splits)
  show "st' = st \<or> (\<exists>l t v. link_alive l \<and> st' = insert_recovery_session sid
       \<lparr>rs_link = l, rs_has_task = True, rs_created_at = t, rs_rotation_version = v\<rparr> st)"
    if "recover_round1 C D x sid p bs rv st = Some (r, st')"
    using that
    by (auto simp: recover_round1_def case_out attempt_eq_Some bind_eq_Some_conv Let_def
          dest: link_alive_exchange_new)
  show "st' = st \<or> st' = snd (remove_recovery_session sid st)
     \<or> (\<exists>s l ms r'. recovery_sessions st sid = Some s \<and> exchange (cc_schedule x) (rs_link s) ms = Some (r', l)
       \<and> (st' = insert_recovery_session sid (s\<lparr>rs_link := l\<rparr>) st
          \<or> st' = snd (remove_recovery_session sid (insert_recovery_session sid (s\<lparr>rs_link := l\<rparr>) st))))"
    if "recover_advance C D x sid p st = Some (r, st')"
  proof (cases "recovery_sessions st sid")
    case (Some s)
    with that show ?thesis
      by (auto simp: recover_advance_def case_out attempt_eq_Some bind_eq_Some_conv Let_def
            split: if_splits)
  qed (use that in \<open>simp add: recover_advance_def\<close>)
qed

lemma sign_round1_state:
  assumes "sign_round1 C D x sid p share mh st = Some (r, st')"
  shows "st' = st \<or> (\<exists>l h k. link_alive l \<and> length h = 32 \<and> st' = insert_sign_session sid
       \<lparr>ss_link = l, ss_has_task = True, ss_digest = MessageDigest h, ss_consumed = False,
        ss_public_key_hex = k\<rparr> st)"
proof (cases "sign_prepare C D sid p share mh st")
  case (Inl e)
  with assms show ?thesis by (simp add: sign_round1_def)
next
  case (Inr v)
  obtain env ms digest k su where v: "v = (env, ms, digest, k, su)" by (cases v)
  have "\<exists>h. digest = MessageDigest h \<and> length h = 32"
    using Inr unfolding v
    by (auto simp: sign_prepare_def message_digest_from_hex_def message_digest_new_def Let_def
          split: if_splits)
  with assms Inr show ?thesis
    by (auto simp: sign_round1_def v case_out attempt_eq_Some bind_eq_Some_conv Let_def
          dest: link_alive_exchange_new)
qed

lemma sign_advance_state:
  assumes "sign_advance C x sid p st = Some (r, st')"
  shows "st' = st \<or> (\<exists>s l ms r'. sign_sessions st sid = Some s \<and> \<not> ss_consumed s
       \<and> exchange (cc_schedule x) (ss_link s) ms = Some (r', l)
       \<and> (st' = insert_sign_session sid (s\<lparr>ss_link := l\<rparr>) st
          \<or> st' = insert_sign_session sid (s\<lparr>ss_link := l, ss_consumed := False\<rparr>) st
          \<or> st' = snd (remove_sign_session sid (insert_sign_session sid (s\<lparr>ss_link := l\<rparr>) st))))"
  using assms
  by (auto simp: sign_advance_def case_out attempt_eq_Some bind_eq_Some_conv Let_def
        split: if_splits)

lemma keygen_ok:
  assumes ok: "engine_ok st" and run: "keygen C F D x sid rnd p st = Some (r, st')"
  shows "engine_ok st'"
  using run keygen_frost_ok [OF ok, of C F x sid rnd p] ok engine_ok_lookup(1) [OF ok, of sid]
  by (auto simp: keygen_def keygen_session_ok_def split: if_splits
        dest!: keygen_secp_state dest: link_alive_exchange)

lemma recover_ok:
  assumes ok: "engine_ok st" and run: "recover C F D x sid rnd p bs rv st = Some (r, st')"
  shows "engine_ok st'"
  using run recover_frost_ok [OF ok, of C F x sid rnd p bs rv] ok engine_ok_lookup(2) [OF ok, of sid]
  by (auto simp: recover_def recovery_session_ok_def split: if_splits
        dest!: recover_secp_state dest: link_alive_exchange)

lemma sign_ok:
  assumes ok: "engine_ok st" and run: "sign C F D x sid rnd p share mh st = Some (r, st')"
  shows "engine_ok st'"
  using run sign_frost_ok [OF ok, of C F x sid rnd p share mh] ok engine_ok_lookup(3) [OF ok, of sid]
  by (auto simp: sign_def sign_session_ok_def split: if_splits
        dest!: sign_round1_state sign_advance_state dest: link_alive_exchange)

lemma export_ok: "engine_ok st \<Longrightarrow> engine_ok (snd (export_private_key C F D S s1 s2 st))"
  by (auto simp: export_private_key_def frost_export_private_key_def secp_export_private_key_def Let_def
        case_prod_beta intro!: ok_question)

lemma perform_ok:
  assumes ok: "engine_ok st" and run: "perform W x c st = Some (r, st')"
  shows "engine_ok st'"
proof (cases c)
  case (CallExport s1 s2)
  with run export_ok [OF ok, of "the_codecs W" "the_frost W" "the_dkls W" "the_scalars W" s1 s2]
  show ?thesis by simp
next
  case (CallFrostKeygen sid rnd p)
  with run keygen_frost_ok [OF ok, of "the_codecs W" "the_frost W" x sid rnd p] show ?thesis by simp
next
  case (CallFrostRecover sid rnd p share rv)
  with run recover_frost_ok [OF ok, of "the_codecs W" "the_frost W" x sid rnd p share rv] show ?thesis by simp
next
  case (CallFrostSign sid rnd p share mh)
  with run sign_frost_ok [OF ok, of "the_codecs W" "the_frost W" x sid rnd p share mh] show ?thesis by simp
qed (use run in \<open>auto dest: keygen_ok [OF ok] recover_ok [OF ok] sign_ok [OF ok]\<close>)

lemma init_ok: "engine_ok init_engine"
  by (simp add: engine_ok_def init_engine_def)

lemma run_ok: "run W i u st \<Longrightarrow> engine_ok st"
proof (induction rule: run.induct)
  case Start
  show ?case by (rule init_ok)
next
  case (Call i u st x c r st')
  then show ?case by (blast intro: perform_ok)
next
  case (Keygen_task i u st sid s)
  then have "keygen_session_ok (s\<lparr>ks_link := task_step (ks_link s)\<rparr>)"
    using engine_ok_lookup(1) [of st sid s] by (simp add: keygen_session_ok_def link_alive_task_step)
  with Keygen_task show ?case by blast
next
  case (Recovery_task i u st sid s)
  then have "recovery_session_ok (s\<lparr>rs_link := task_step (rs_link s)\<rparr>)"
    using engine_ok_lookup(2) [of st sid s] by (simp add: recovery_session_ok_def link_alive_task_step)
  with Recovery_task show ?case by blast
next
  case (Sign_task i u st sid s)
  then have "sign_session_ok (s\<lparr>ss_link := task_step (ss_link s)\<rparr>)"
    using engine_ok_lookup(3) [of st sid s] by (simp add: sign_session_ok_def link_alive_task_step)
  with Sign_task show ?case by blast
qed

section \<open>The frame of a call\<close>

text \<open>
  What a call leaves alone: the tables of the other operations, in its own tables every other
  session id, and, but for the export, the registry of exported keys.
\<close>

definition keygen_frame :: "string \<Rightarrow> engine \<Rightarrow> engine \<Rightarrow> bool" where
  "keygen_frame sid st st' \<longleftrightarrow>
     recovery_sessions st' = recovery_sessions st \<and> sign_sessions st' = sign_sessions st
     \<and> frost_recovery_sessions st' = frost_recovery_sessions st
     \<and> frost_sign_sessions st' = frost_sign_sessions st \<and> exported_keys st' = exported_keys st
     \<and> (\<forall>k. k \<noteq> sid \<longrightarrow> keygen_sessions st' k = keygen_sessions st k
          \<and> frost_keygen_sessions st' k = frost_keygen_sessions st k)"

definition recover_frame :: "string \<Rightarrow> engine \<Rightarrow> engine \<Rightarrow> bool" where
  "recover_frame sid st st' \<longleftrightarrow>
     keygen_sessions st' = keygen_sessions st \<and> sign_sessions st' = sign_sessions st
     \<and> frost_keygen_sessions st' = frost_keygen_sessions st
     \<and> frost_sign_sessions st' = frost_sign_sessions st \<and> exported_keys st' = exported_keys st
     \<and> (\<forall>k. k \<noteq> sid \<longrightarrow> recovery_sessions st' k = recovery_sessions st k
          \<and> frost_recovery_sessions st' k = frost_recovery_sessions st k)"

definition sign_frame :: "string \<Rightarrow> engine \<Rightarrow> engine \<Rightarrow> bool" where
  "sign_frame sid st st' \<longleftrightarrow>
     keygen_sessions st' = keygen_sessions st \<and> recovery_sessions st' = recovery_sessions st
     \<and> frost_keygen_sessions st' = frost_keygen_sessions st
     \<and> frost_recovery_sessions st' = frost_recovery_sessions st \<and> exported_keys st' = exported_keys st
     \<and> (\<forall>k. k \<noteq> sid \<longrightarrow> sign_sessions st' k = sign_sessions st k
          \<and> frost_sign_sessions st' k = frost_sign_sessions st k)"

lemmas frame_defs = keygen_frame_def recover_frame_def sign_frame_def

lemma frame_refl [simp, intro!]:
  "keygen_frame sid st st" "recover_frame sid st st" "sign_frame sid st st"
  by (simp_all add: frame_defs)

lemma keygen_frame_ops [intro!]:
  "keygen_frame sid st st' \<Longrightarrow> keygen_frame sid st (insert_keygen_session sid s st')"
  "keygen_frame sid st st' \<Longrightarrow> keygen_frame sid st (insert_frost_keygen_session sid f st')"
  "keygen_frame sid st st' \<Longrightarrow> keygen_frame sid st (snd (remove_keygen_session sid st'))"
  "keygen_frame sid st st' \<Longrightarrow> keygen_frame sid st (snd (remove_frost_keygen_session sid st'))"
  by (simp_all add: frame_defs session_defs)

lemma recover_frame_ops [intro!]:
  "recover_frame sid st st' \<Longrightarrow> recover_frame sid st (insert_recovery_session sid s st')"
  "recover_frame sid st st' \<Longrightarrow> recover_frame sid st (insert_frost_recovery_session sid f st')"
  "recover_frame sid st st' \<Longrightarrow> recover_frame sid st (snd (remove_recovery_session sid st'))"
  "recover_frame sid st st' \<Longrightarrow> recover_frame sid st (snd (remove_frost_recovery_session sid st'))"
  by (simp_all add: frame_defs session_defs)

lemma sign_frame_ops [intro!]:
  "sign_frame sid st st' \<Longrightarrow> sign_frame sid st (insert_sign_session sid s st')"
  "sign_frame sid st st' \<Longrightarrow> sign_frame sid st (insert_frost_sign_session sid f st')"
  "sign_frame sid st st' \<Longrightarrow> sign_frame sid st (snd (remove_sign_session sid st'))"
  "sign_frame sid st st' \<Longrightarrow> sign_frame sid st (snd (remove_frost_sign_session sid st'))"
  by (simp_all add: frame_defs session_defs)

lemmas frame_question =
  snd_question [where R = "keygen_frame sid st" for sid st]
  snd_question [where R = "recover_frame sid st" for sid st]
  snd_question [where R = "sign_frame sid st" for sid st]

lemma frost_keygen_frame: "keygen_frame sid st (snd (frost_keygen C F x sid rnd p st))"
  by (auto simp: frost_keygen_def frost_keygen_round1_def frost_keygen_round2_def
        frost_keygen_finalize_def Let_def case_prod_beta intro!: frame_question)

lemma frost_recover_frame: "recover_frame sid st (snd (frost_recover C F x sid rnd p bs rv st))"
proof -
  have "recover_frame sid st (snd (frost_recover_ttl_check x sid st))"
    by (auto simp: frost_recover_ttl_check_def split: option.split)
  then have "recover_frame sid st (snd (frost_recover_round2 C F x sid p st))"
    by (cases "frost_recover_ttl_check x sid st")
       (auto simp: frost_recover_round2_def Let_def case_prod_beta intro!: frame_question split: sum.split)
  then show ?thesis
    by (auto simp: frost_recover_def frost_recover_round1_def frost_recover_finalize_def Let_def
          case_prod_beta intro!: frame_question)
qed

lemma frost_sign_frame: "sign_frame sid st (snd (frost_sign C F x sid rnd p share mh st))"
proof -
  have "sign_frame sid st (snd (frost_sign_round2_open C F sid p st))"
    by (auto simp: frost_sign_round2_open_def Let_def case_prod_beta intro!: frame_question)
  then have "sign_frame sid st (snd (frost_sign_round2 C F sid p st))"
    by (auto simp: frost_sign_round2_def split: prod.split sum.split)
  moreover have "sign_frame sid st (snd (frost_sign_round1 C F x sid p share mh st))"
    by (auto simp: frost_sign_round1_def Let_def case_prod_beta intro!: frame_question)
  ultimately show ?thesis
    by (simp add: frost_sign_def)
qed

lemma keygen_call_frame: "keygen C F D x sid rnd p st = Some (r, st') \<Longrightarrow> keygen_frame sid st st'"
  using frost_keygen_frame [of sid st C F x rnd p]
  by (auto simp: keygen_def split: if_splits dest!: keygen_secp_state)

lemma recover_call_frame: "recover C F D x sid rnd p bs rv st = Some (r, st') \<Longrightarrow> recover_frame sid st st'"
  using frost_recover_frame [of sid st C F x rnd p bs rv]
  by (auto simp: recover_def split: if_splits dest!: recover_secp_state)

lemma sign_call_frame: "sign C F D x sid rnd p share mh st = Some (r, st') \<Longrightarrow> sign_frame sid st st'"
  using frost_sign_frame [of sid st C F x rnd p share mh]
  by (auto simp: sign_def split: if_splits dest!: sign_round1_state sign_advance_state)

definition export_frame :: "engine \<Rightarrow> engine \<Rightarrow> bool" where
  "export_frame st st' \<longleftrightarrow>
     keygen_sessions st' = keygen_sessions st \<and> recovery_sessions st' = recovery_sessions st
     \<and> sign_sessions st' = sign_sessions st \<and> frost_keygen_sessions st' = frost_keygen_sessions st
     \<and> frost_sign_sessions st' = frost_sign_sessions st
     \<and> frost_recovery_sessions st' = frost_recovery_sessions st
     \<and> exported_keys st \<subseteq> exported_keys st'"

lemma export_frame_ops [intro!]:
  "export_frame st st"
  "export_frame st st' \<Longrightarrow> export_frame st (insert_exported_key k st')"
  by (auto simp: export_frame_def insert_exported_key_def)

lemmas export_frame_question = snd_question [where R = "export_frame st" for st]

lemma export_call_frame: "export_frame st (snd (export_private_key C F D S s1 s2 st))"
  by (auto simp: export_private_key_def frost_export_private_key_def secp_export_private_key_def Let_def
        case_prod_beta intro!: export_frame_question)

text \<open>The frame of each call of the API.\<close>

fun call_frame :: "api_call \<Rightarrow> engine \<Rightarrow> engine \<Rightarrow> bool" where
  "call_frame (CallKeygen sid _ _) = keygen_frame sid"
| "call_frame (CallRecover sid _ _ _ _) = recover_frame sid"
| "call_frame (CallSign sid _ _ _ _) = sign_frame sid"
| "call_frame (CallExport _ _) = export_frame"
| "call_frame (CallFrostKeygen sid _ _) = keygen_frame sid"
| "call_frame (CallFrostRecover sid _ _ _ _) = recover_frame sid"
| "call_frame (CallFrostSign sid _ _ _ _) = sign_frame sid"

lemma perform_frame:
  assumes "perform W x c st = Some (r, st')"
  shows "call_frame c st st'"
proof (cases c)
  case (CallExport s1 s2)
  with assms export_call_frame [of st "the_codecs W" "the_frost W" "the_dkls W" "the_scalars W" s1 s2]
  show ?thesis by simp
next
  case (CallFrostKeygen sid rnd p)
  with assms frost_keygen_frame [of sid st "the_codecs W" "the_frost W" x rnd p] show ?thesis by simp
next
  case (CallFrostRecover sid rnd p share rv)
  with assms frost_recover_frame [of sid st "the_codecs W" "the_frost W" x rnd p share rv] show ?thesis by simp
next
  case (CallFrostSign sid rnd p share mh)
  with assms frost_sign_frame [of sid st "the_codecs W" "the_frost W" x rnd p share mh] show ?thesis by simp
qed (use assms in \<open>auto intro: keygen_call_frame recover_call_frame sign_call_frame\<close>)

section \<open>Nonces\<close>

lemma distinct_submset:
  assumes "mset u \<subseteq># mset i" and "distinct i"
  shows "distinct u"
  unfolding distinct_count_atmost_1
proof
  fix a
  have "count (mset u) a \<le> count (mset i) a" using assms(1) by (rule mset_subset_eq_count)
  moreover have "count (mset i) a \<le> 1" using assms(2) by (simp add: distinct_count_atmost_1)
  moreover have "count (mset u) a > 0 \<longleftrightarrow> a \<in> set u" by simp
  ultimately show "count (mset u) a = (if a \<in> set u then 1 else 0)"
    by (simp only: split: if_split) linarith
qed

text \<open>The nonces the open signing sessions hold.\<close>

definition live_nonces :: "engine \<Rightarrow> signing_nonces multiset" where
  "live_nonces st = tokens_in (\<lambda>s. the (fs_nonces s)) (frost_sign_sessions st)"

lemma live_same_table:
  "frost_sign_sessions st' = frost_sign_sessions st \<Longrightarrow> live_nonces st' = live_nonces st"
  by (simp add: live_nonces_def)

lemma live_remove_some:
  assumes "finite (dom (frost_sign_sessions st))" and "frost_sign_sessions st sid = Some s"
  shows "add_mset (the (fs_nonces s)) (live_nonces (snd (remove_frost_sign_session sid st))) = live_nonces st"
  unfolding live_nonces_def by (rule frost_sign_table.tokens_taken [OF assms])

lemma live_remove_le:
  assumes "finite (dom (frost_sign_sessions st))"
  shows "live_nonces (snd (remove_frost_sign_session sid st)) \<subseteq># live_nonces st"
  unfolding live_nonces_def by (rule frost_sign_table.tokens_left [OF assms])

lemma live_insert_le:
  assumes "finite (dom (frost_sign_sessions st))"
  shows "live_nonces (insert_frost_sign_session sid s st) \<subseteq># add_mset (the (fs_nonces s)) (live_nonces st)"
  unfolding live_nonces_def by (rule frost_sign_table.tokens_put [OF assms])

lemma round2_open_state:
  assumes "frost_sign_round2_open C F sid p st = (r, st')"
  shows "st' = st \<or> st' = snd (remove_frost_sign_session sid st)"
  using assms
  by (auto simp: frost_sign_round2_open_def Let_def case_prod_beta
        split: question_split_asm if_splits dest!: sym)

text \<open>What a signing call does to the nonces: each one spent was live, each new one was issued.\<close>

lemma sign_round2_nonces:
  assumes "engine_ok st" and "frost_sign_round2_open C F sid p st = (r, st')"
  shows "(case r of Inr (_, _, _, nonces) \<Rightarrow> add_mset nonces (live_nonces st') | Inl _ \<Rightarrow> live_nonces st')
           \<subseteq># live_nonces st"
proof -
  have fin: "finite (dom (frost_sign_sessions st))"
    using assms(1) by (simp add: engine_ok_def)
  show ?thesis
  proof (cases r)
    case (Inl e)
    then show ?thesis
      using round2_open_state [OF assms(2)] live_remove_le [OF fin, of sid] by auto
  next
    case (Inr v)
    obtain pkg ss session nonces where v: "v = (pkg, ss, session, nonces)" by (cases v)
    from round2_open_Inr [OF assms(2) [unfolded Inr v]] obtain s where
      "frost_sign_sessions st sid = Some s" "fs_nonces s = Some nonces"
      "st' = snd (remove_frost_sign_session sid st)"
      by (auto simp: session_defs)
    with live_remove_some [OF fin, of sid s] Inr v show ?thesis by simp
  qed
qed

lemma sign_round1_nonces:
  assumes "engine_ok st"
  shows "live_nonces (snd (frost_sign_round1 C F x sid p share mh st)) \<subseteq>#
           live_nonces st + mset (case frost_sign_round1_checks C F p share mh st of
             Inr (_, _, kp, _, _) \<Rightarrow> [fst (commit F kp (cc_entropy x))] | Inl _ \<Rightarrow> [])"
proof (cases "frost_sign_round1_checks C F p share mh st")
  case (Inl e)
  then show ?thesis by (simp add: frost_sign_round1_def)
next
  case (Inr v)
  obtain sc msg kp pkp vk where v: "v = (sc, msg, kp, pkp, vk)" by (cases v)
  have fin: "finite (dom (frost_sign_sessions st))"
    using assms by (simp add: engine_ok_def)
  obtain nonces oc where c: "commit F kp (cc_entropy x) = (nonces, oc)" by fastforce
  let ?s = "\<lparr>fs_created_at = cc_now x, fs_key_package = kp, fs_public_key_package = pkp,
             fs_message = msg, fs_nonces = Some nonces,
             fs_commitments = Map.empty(frost_client_identifier \<mapsto> oc, frost_server_identifier \<mapsto> sc),
             fs_consumed = False, fs_verifying_key_hex = vk\<rparr>"
  have "snd (frost_sign_round1 C F x sid p share mh st) = insert_frost_sign_session sid ?s st"
    by (simp add: frost_sign_round1_def Inr v c Let_def split: question_split)
  with live_insert_le [OF fin, of sid ?s] Inr v c show ?thesis
    by simp
qed

lemma secp_sign_live:
  assumes "sign_round1 C D x sid p share mh st = Some (r, st') \<or> sign_advance C x sid p st = Some (r, st')"
  shows "live_nonces st' = live_nonces st"
  using assms
  by (elim disjE) (auto simp: session_defs intro!: live_same_table dest!: sign_round1_state sign_advance_state)

lemma sign_round2_unknown:
  assumes "frost_sign_sessions st sid = None"
  shows "\<exists>e. fst (frost_sign_round2_open C F sid p st) = Inl e"
proof -
  have "fst (remove_frost_sign_session sid st) = None" using assms by (simp add: session_defs)
  then show ?thesis
    by (auto simp: frost_sign_round2_open_def Let_def case_prod_beta split: question_split)
qed

lemma frost_sign_call_nonces:
  assumes ok: "engine_ok st" and run: "perform W x (CallFrostSign sid rnd p share mh) st = Some (r, st')"
  shows "mset (spent W (CallFrostSign sid rnd p share mh) st) + live_nonces st'
           \<subseteq># live_nonces st + mset (issued W x (CallFrostSign sid rnd p share mh) st)"
proof -
  let ?C = "the_codecs W" and ?F = "the_frost W"
  obtain q st1 where q: "frost_sign_round2_open ?C ?F sid p st = (q, st1)" by fastforce
  have "st' = snd (frost_sign ?C ?F x sid rnd p share mh st)" using run by simp
  then consider "rnd = 1" "st' = snd (frost_sign_round1 ?C ?F x sid p share mh st)"
    | "rnd = 2" "st' = st1" | "rnd \<noteq> 1" "rnd \<noteq> 2" "st' = st"
    using q by (cases "rnd = 1"; cases "rnd = 2")
      (auto simp: frost_sign_def frost_sign_round2_def split: sum.splits prod.splits)
  then show ?thesis
  proof cases
    case 1
    with sign_round1_nonces [OF ok] show ?thesis by simp
  next
    case 2
    with sign_round2_nonces [OF ok q] q show ?thesis by (auto split: sum.splits prod.splits)
  qed simp
qed

lemma sign_call_nonces:
  assumes ok: "engine_ok st" and run: "perform W x (CallSign sid rnd p share mh) st = Some (r, st')"
  shows "mset (spent W (CallSign sid rnd p share mh) st) + live_nonces st'
           \<subseteq># live_nonces st + mset (issued W x (CallSign sid rnd p share mh) st)"
proof -
  let ?C = "the_codecs W" and ?F = "the_frost W" and ?D = "the_dkls W"
  note secp = secp_sign_live [of ?C ?D x sid p share mh st r st']
  note direct = frost_sign_call_nonces [OF ok, of W x sid rnd p share mh r st']
  show ?thesis
  proof (cases "rnd = 1")
    case True
    with run secp direct show ?thesis
      by (cases "opt_share_is_ed25519 ?C share") (simp_all add: sign_def)
  next
    case False
    show ?thesis
    proof (cases "frost_sign_sessions st sid")
      case None
      then obtain e where "fst (frost_sign_round2_open ?C ?F sid p st) = Inl e"
        using sign_round2_unknown by blast
      with None False run secp show ?thesis
        by (simp add: sign_def frost_sign_session_exists_def)
    next
      case (Some s)
      with False run direct show ?thesis by (simp add: sign_def frost_sign_session_exists_def)
    qed
  qed
qed

lemma call_nonces:
  assumes "engine_ok st" and "perform W x c st = Some (r, st')"
  shows "mset (spent W c st) + live_nonces st' \<subseteq># live_nonces st + mset (issued W x c st)"
proof (cases c)
  case (CallSign sid rnd p share mh)
  from assms(2) show ?thesis unfolding CallSign by (rule sign_call_nonces [OF assms(1)])
next
  case (CallFrostSign sid rnd p share mh)
  from assms(2) show ?thesis unfolding CallFrostSign by (rule frost_sign_call_nonces [OF assms(1)])
qed (use perform_frame [OF assms(2)] in
      \<open>simp_all add: frame_defs export_frame_def live_same_table [of st' st]\<close>)

lemma run_nonces: "run W i u st \<Longrightarrow> mset u + live_nonces st \<subseteq># mset i"
proof (induction rule: run.induct)
  case Start
  show ?case by (simp add: live_nonces_def init_engine_def)
next
  case (Call i u st x c r st')
  have "mset (spent W c st) + live_nonces st' \<subseteq># live_nonces st + mset (issued W x c st)"
    by (rule call_nonces [OF run_ok [OF Call.hyps(1)] Call.hyps(2)])
  then have "mset u + (mset (spent W c st) + live_nonces st') \<subseteq># mset u + (live_nonces st + mset (issued W x c st))"
    by (rule subset_mset.add_left_mono)
  also have "\<dots> = (mset u + live_nonces st) + mset (issued W x c st)" by simp
  also have "\<dots> \<subseteq># mset i + mset (issued W x c st)"
    using Call.IH by (rule subset_mset.add_right_mono)
  finally show ?case by (simp add: ac_simps)
next
  case (Keygen_task i u st sid s)
  have "live_nonces (insert_keygen_session sid t st) = live_nonces st" for t
    by (rule live_same_table) (simp add: session_defs)
  with Keygen_task.IH show ?case by simp
next
  case (Recovery_task i u st sid s)
  have "live_nonces (insert_recovery_session sid t st) = live_nonces st" for t
    by (rule live_same_table) (simp add: session_defs)
  with Recovery_task.IH show ?case by simp
next
  case (Sign_task i u st sid s)
  have "live_nonces (insert_sign_session sid t st) = live_nonces st" for t
    by (rule live_same_table) (simp add: session_defs)
  with Sign_task.IH show ?case by simp
qed

section \<open>Later states\<close>

text \<open>One call, on any input, in any context; and any number of them.\<close>

definition call_step :: "('s::comm_ring_1) crates \<Rightarrow> (engine \<times> engine) set" where
  "call_step W = {(st, st'). \<exists>x c r. perform W x c st = Some (r, st')}"

lemma call_keeps_exports: "perform W x c st = Some (r, st') \<Longrightarrow> exported_keys st \<subseteq> exported_keys st'"
  by (drule perform_frame, cases c) (simp_all add: frame_defs export_frame_def)

lemma calls_keep_exports: "(st, st') \<in> (call_step W)\<^sup>* \<Longrightarrow> exported_keys st \<subseteq> exported_keys st'"
  by (induction rule: rtrancl_induct) (auto simp: call_step_def dest: call_keeps_exports)

text \<open>A first sign round that the dispatch refuses is refused directly, too.\<close>

lemma direct_sign_blocked:
  assumes "sign C F D x sid 1 p (Some share) mh st = Some (Inl e, st)"
  shows "\<exists>e. frost_sign C F x sid 1 p (Some share) mh st = (Inl e, st)"
proof (cases "share_is_ed25519 C share")
  case True
  with assms show ?thesis by (simp add: sign_def opt_share_is_ed25519_def)
next
  case False
  have "frost_sign_round1_checks C F p (Some share) mh st \<noteq> Inr v" for v
    using False
    by (auto simp: frost_sign_round1_checks_def extract_share_material_def share_is_ed25519_def
          split: if_splits)
  then obtain e where "frost_sign_round1_checks C F p (Some share) mh st = Inl e"
    by (meson sumE)
  then show ?thesis by (simp add: frost_sign_def frost_sign_round1_def)
qed

end
