(* ===== verification/Contract.thy ===== *)
theory Contract
  imports Runs
begin

text \<open>
  What the engine promises about signing, as an abstract machine: a ledger of the open signing
  sessions, each with its key and what it is to sign, and of the keys that were exported. Every
  call of the API is a step of this machine, so what holds of its steps holds of the engine.
\<close>

section \<open>The ledger\<close>

record ledger =
  open_ed25519 :: "string \<rightharpoonup> string \<times> bytes"
  open_secp256k1 :: "string \<rightharpoonup> string \<times> bytes"
  marked :: "string set"

definition ledger_of :: "engine \<Rightarrow> ledger" where
  "ledger_of st =
     \<lparr>open_ed25519 = (\<lambda>sid. map_option (\<lambda>s. (fs_verifying_key_hex s, fs_message s)) (frost_sign_sessions st sid)),
      open_secp256k1 = (\<lambda>sid. map_option (\<lambda>s. (ss_public_key_hex s, into_bytes (ss_digest s))) (sign_sessions st sid)),
      marked = exported_keys st\<rparr>"

text \<open>
  A step is labelled by the call and by whether it answered without an error. A session is opened
  by the first round of sign only, for a key that is not marked; a later round never changes
  what an open session signs, and an answered signature closes it; an export marks one key;
  keygen and recover do nothing here.
\<close>

fun signs :: "api_call \<Rightarrow> (string \<times> i32 \<times> string option \<times> string option) option" where
  "signs (CallSign sid rnd p share mh) = Some (sid, rnd, share, mh)"
| "signs (CallFrostSign sid rnd p share mh) = Some (sid, rnd, share, mh)"
| "signs _ = None"

inductive ledger_step :: "ledger \<Rightarrow> api_call \<Rightarrow> bool \<Rightarrow> ledger \<Rightarrow> bool" where
  Keygen: "ledger_step a (CallKeygen sid rnd p) ok a"
| Recover: "ledger_step a (CallRecover sid rnd p share rv) ok a"
| Frost_keygen: "ledger_step a (CallFrostKeygen sid rnd p) ok a"
| Frost_recover: "ledger_step a (CallFrostRecover sid rnd p share rv) ok a"
| Refused: "signs c \<noteq> None \<Longrightarrow> ledger_step a c False a"
| Open_ed25519:
    "k \<notin> marked a \<Longrightarrow> signs c = Some (sid, 1, Some share, Some mh) \<Longrightarrow>
     ledger_step a c ok
       (a\<lparr>open_ed25519 := (open_ed25519 a)(sid \<mapsto> (k, m))\<rparr>)"
| Open_secp256k1:
    "k \<notin> marked a \<Longrightarrow> length d = 32 \<Longrightarrow>
     ledger_step a (CallSign sid 1 p (Some share) (Some mh)) ok
       (a\<lparr>open_secp256k1 := (open_secp256k1 a)(sid \<mapsto> (k, d))\<rparr>)"
| Between:
    "rnd \<noteq> 1 \<Longrightarrow> open_ed25519 a sid = None \<Longrightarrow> open_secp256k1 a sid = Some e \<Longrightarrow>
     ledger_step a (CallSign sid rnd p share mh) ok a"
| Close_ed25519:
    "open_ed25519 a sid = Some e \<Longrightarrow> signs c = Some (sid, 2, share, mh) \<Longrightarrow>
     ledger_step a c ok (a\<lparr>open_ed25519 := (open_ed25519 a)(sid := None)\<rparr>)"
| Close_secp256k1:
    "rnd \<noteq> 1 \<Longrightarrow> open_ed25519 a sid = None \<Longrightarrow> open_secp256k1 a sid = Some e \<Longrightarrow>
     ledger_step a (CallSign sid rnd p share mh) ok
       (a\<lparr>open_secp256k1 := (open_secp256k1 a)(sid := None)\<rparr>)"
| Mark: "ledger_step a (CallExport s1 s2) ok (a\<lparr>marked := insert k (marked a)\<rparr>)"
| Unmarked: "ledger_step a (CallExport s1 s2) False a"

definition answered :: "string res \<Rightarrow> bool" where
  "answered r \<longleftrightarrow> (\<exists>v. r = Inr v)"

lemma answered_simps [simp]: "answered (Inr v)" "\<not> answered (Inl e)"
  by (simp_all add: answered_def)

section \<open>The engine's steps on the ledger\<close>

lemma ledger_of_fields [simp]:
  "marked (ledger_of st) = exported_keys st"
  "open_ed25519 (ledger_of st) sid =
     map_option (\<lambda>s. (fs_verifying_key_hex s, fs_message s)) (frost_sign_sessions st sid)"
  "open_secp256k1 (ledger_of st) sid =
     map_option (\<lambda>s. (ss_public_key_hex s, into_bytes (ss_digest s))) (sign_sessions st sid)"
  by (simp_all add: ledger_of_def)

lemma ledger_of_frames:
  "keygen_frame sid st st' \<Longrightarrow> ledger_of st' = ledger_of st"
  "recover_frame sid st st' \<Longrightarrow> ledger_of st' = ledger_of st"
  by (simp_all add: frame_defs ledger_of_def)

lemma ledger_of_sign_ops:
  "ledger_of (insert_frost_sign_session sid f st) =
     (ledger_of st)\<lparr>open_ed25519 := (open_ed25519 (ledger_of st))(sid \<mapsto> (fs_verifying_key_hex f, fs_message f))\<rparr>"
  "ledger_of (insert_sign_session sid s st) =
     (ledger_of st)\<lparr>open_secp256k1 := (open_secp256k1 (ledger_of st))(sid \<mapsto> (ss_public_key_hex s, into_bytes (ss_digest s)))\<rparr>"
  "ledger_of (st\<lparr>frost_sign_sessions := (frost_sign_sessions st)(sid := None)\<rparr>) =
     (ledger_of st)\<lparr>open_ed25519 := (open_ed25519 (ledger_of st))(sid := None)\<rparr>"
  "ledger_of (st\<lparr>sign_sessions := (sign_sessions st)(sid := None)\<rparr>) =
     (ledger_of st)\<lparr>open_secp256k1 := (open_secp256k1 (ledger_of st))(sid := None)\<rparr>"
  "ledger_of (insert_exported_key k st) = (ledger_of st)\<lparr>marked := insert k (marked (ledger_of st))\<rparr>"
  by (auto simp: ledger_of_def session_defs insert_exported_key_def)

text \<open>An insertion that keeps the key and the digest does not show in the ledger.\<close>

lemma ledger_of_advance:
  assumes "sign_sessions st sid = Some s"
    and "ss_public_key_hex t = ss_public_key_hex s" and "ss_digest t = ss_digest s"
  shows "ledger_of (insert_sign_session sid t st) = ledger_of st"
  using assms by (auto simp: ledger_of_def session_defs)

lemma frost_round1_ledger:
  assumes "frost_sign_round1 C F x sid p share mh st = (r, st')" and c: "signs c = Some (sid, 1, share, mh)"
  shows "ledger_step (ledger_of st) c (answered r) (ledger_of st')"
proof (cases "frost_sign_round1_checks C F p share mh st")
  case (Inl e)
  with assms show ?thesis by (auto simp: frost_sign_round1_def intro!: Refused)
next
  case (Inr v)
  obtain sc m kp pkp k where v: "v = (sc, m, kp, pkp, k)" by (cases v)
  from Inr obtain sh h where share: "share = Some sh" "mh = Some h" and k: "k \<notin> exported_keys st"
    by (auto simp: frost_sign_round1_checks_def v Let_def split: if_splits)
  from assms(1) Inr obtain f where "st' = insert_frost_sign_session sid f st"
    and "fs_verifying_key_hex f = k" and "fs_message f = m"
    by (auto simp: frost_sign_round1_def v Let_def split: prod.splits question_split_asm)
  with k show ?thesis
    by (simp add: ledger_of_sign_ops Open_ed25519 [OF _ c [unfolded share]] del: ledger_of_fields(2))
qed

lemma frost_round2_ledger:
  assumes run: "frost_sign_round2 C F sid p st = (r, st')" and c: "signs c = Some (sid, 2, share, mh)"
  shows "ledger_step (ledger_of st) c (answered r) (ledger_of st')"
proof (cases "frost_sign_sessions st sid")
  case None
  with run have "st' = st" and "\<not> answered r"
    by (auto simp: frost_sign_round2_def frost_sign_round2_open_def session_defs fun_upd_idem
          split: question_split_asm)
  then show ?thesis by (simp add: Refused c)
next
  case (Some s)
  with run have "st' = st \<and> \<not> answered r \<or> st' = st\<lparr>frost_sign_sessions := (frost_sign_sessions st)(sid := None)\<rparr>"
    by (auto simp: frost_sign_round2_def frost_sign_round2_open_def session_defs Let_def
          split: question_split_asm if_splits)
  moreover have "open_ed25519 (ledger_of st) sid = Some (fs_verifying_key_hex s, fs_message s)"
    using Some by simp
  ultimately show ?thesis
    by (elim disjE) (simp_all only: ledger_of_sign_ops Refused Close_ed25519 [OF _ c] c answered_def simp_thms option.distinct)
qed

lemma frost_sign_ledger:
  assumes "frost_sign C F x sid rnd p share mh st = (r, st')" and "signs c = Some (sid, rnd, share, mh)"
  shows "ledger_step (ledger_of st) c (answered r) (ledger_of st')"
  using assms frost_round1_ledger frost_round2_ledger
  by (auto simp: frost_sign_def Refused split: if_splits)

lemma sign_round1_ledger:
  assumes "sign_round1 C D x sid p share mh st = Some (r, st')"
  shows "ledger_step (ledger_of st) (CallSign sid 1 p share mh) (answered r) (ledger_of st')"
proof (cases "sign_prepare C D sid p share mh st")
  case (Inl e)
  with assms show ?thesis by (auto simp: sign_round1_def intro!: Refused)
next
  case (Inr v)
  obtain env msgs d k su where v: "v = (env, msgs, d, k, su)" by (cases v)
  from Inr obtain sh h where share: "share = Some sh" "mh = Some h" and k: "k \<notin> exported_keys st"
    and d: "length (into_bytes d) = 32"
    by (auto simp: sign_prepare_def v Let_def message_digest_from_hex_def message_digest_new_def split: if_splits)
  from assms Inr consider "st' = st" "\<not> answered r"
    | s where "st' = insert_sign_session sid s st" "ss_public_key_hex s = k" "ss_digest s = d"
    by (auto simp: sign_round1_def v Let_def attempt_eq_Some bind_eq_Some_conv split: option.splits)
  then show ?thesis
    by cases (use k d in \<open>simp_all add: share Refused ledger_of_sign_ops Open_secp256k1 del: ledger_of_fields(3)\<close>)
qed

lemma sign_advance_ledger:
  assumes "sign_advance C x sid p st = Some (r, st')" and "rnd \<noteq> 1"
    and "frost_sign_sessions st sid = None"
  shows "ledger_step (ledger_of st) (CallSign sid rnd p share mh) (answered r) (ledger_of st')"
proof (cases "sign_sessions st sid")
  case None
  with assms show ?thesis by (auto simp: sign_advance_def intro!: Refused)
next
  case (Some s)
  then have e: "open_secp256k1 (ledger_of st) sid = Some (ss_public_key_hex s, into_bytes (ss_digest s))" by simp
  have f: "open_ed25519 (ledger_of st) sid = None" using assms(3) by simp
  from assms(1) Some consider "st' = st" "\<not> answered r"
    | t where "st' = insert_sign_session sid t st" "ss_public_key_hex t = ss_public_key_hex s" "ss_digest t = ss_digest s"
    | "st' = st\<lparr>sign_sessions := (sign_sessions st)(sid := None)\<rparr>"
    by (auto simp: sign_advance_def Let_def attempt_eq_Some bind_eq_Some_conv session_defs
          split: option.splits if_splits)
  then show ?thesis
  proof cases
    case 1
    then show ?thesis by (simp add: Refused)
  next
    case 2
    with ledger_of_advance [OF Some] Between [OF assms(2) f e] show ?thesis by simp
  next
    case 3
    with Close_secp256k1 [OF assms(2) f e] show ?thesis by (simp only: ledger_of_sign_ops)
  qed
qed

lemma export_ledger:
  assumes "export_private_key C F D S s1 s2 st = (r, st')"
  shows "ledger_step (ledger_of st) (CallExport s1 s2) (answered r) (ledger_of st')"
proof -
  have "st' = st \<and> \<not> answered r \<or> (\<exists>k. st' = insert_exported_key k st)"
    using assms
    by (auto simp: export_private_key_def frost_export_private_key_def secp_export_private_key_def Let_def
          dest: sym split: question_split_asm if_splits prod.splits)
  then show ?thesis
    by (elim disjE exE) (simp_all only: ledger_of_sign_ops Mark Unmarked answered_def simp_thms)
qed

text \<open>Every call of the API is a step of the ledger.\<close>

lemma call_ledger_step:
  assumes "perform W x c st = Some (r, st')"
  shows "ledger_step (ledger_of st) c (answered r) (ledger_of st')"
proof (cases c)
  case (CallKeygen sid rnd p)
  with assms have "keygen_frame sid st st'" by (auto dest: keygen_call_frame)
  then show ?thesis by (simp add: CallKeygen Keygen ledger_of_frames)
next
  case (CallRecover sid rnd p share rv)
  with assms have "recover_frame sid st st'" by (auto dest: recover_call_frame)
  then show ?thesis by (simp add: CallRecover Recover ledger_of_frames)
next
  case (CallSign sid rnd p share mh)
  with assms show ?thesis
    by (auto simp: sign_def frost_sign_session_exists_def split: if_splits
          intro: frost_sign_ledger dest: sign_round1_ledger sign_advance_ledger)
next
  case (CallExport s1 s2)
  with assms show ?thesis by (auto dest: export_ledger)
next
  case (CallFrostKeygen sid rnd p)
  with perform_frame [OF assms] have "keygen_frame sid st st'" by simp
  then show ?thesis by (simp add: CallFrostKeygen Frost_keygen ledger_of_frames)
next
  case (CallFrostRecover sid rnd p share rv)
  with perform_frame [OF assms] have "recover_frame sid st st'" by simp
  then show ?thesis by (simp add: CallFrostRecover Frost_recover ledger_of_frames)
next
  case (CallFrostSign sid rnd p share mh)
  with assms show ?thesis by (auto intro: frost_sign_ledger)
qed

text \<open>What a step can do to the entry of an open session.\<close>

lemma ledger_step_entry:
  assumes "ledger_step a c ok b"
  shows "open_ed25519 a sid = Some e \<Longrightarrow>
           open_ed25519 b sid = Some e
           \<or> (\<exists>share mh. signs c = Some (sid, 2, share, mh) \<and> open_ed25519 b sid = None)
           \<or> (\<exists>share mh k m. signs c = Some (sid, 1, Some share, Some mh) \<and> k \<notin> marked a
                \<and> open_ed25519 b sid = Some (k, m))"
    and "open_secp256k1 a sid = Some e \<Longrightarrow>
           open_secp256k1 b sid = Some e
           \<or> (\<exists>rnd p share mh. c = CallSign sid rnd p share mh \<and> rnd \<noteq> 1 \<and> open_secp256k1 b sid = None)
           \<or> (\<exists>p share mh k m. c = CallSign sid 1 p (Some share) (Some mh) \<and> k \<notin> marked a
                \<and> open_secp256k1 b sid = Some (k, m))"
  using assms by (auto elim!: ledger_step.cases split: if_splits)

text \<open>An answered round 2 closes the ed25519 session it went to.\<close>

lemma ledger_answer_closes:
  assumes "ledger_step a c True b" and "signs c = Some (sid, 2, share, mh)" and "open_ed25519 a sid \<noteq> None"
  shows "open_ed25519 b sid = None"
  using assms(1) by cases (use assms(2,3) in auto)

text \<open>The tasks' own moves between calls do not show in the ledger.\<close>

lemma run_ledger:
  "run W i u st \<Longrightarrow> (\<lambda>a b. \<exists>c ok. ledger_step a c ok b)\<^sup>*\<^sup>* (ledger_of init_engine) (ledger_of st)"
proof (induction rule: run.induct)
  case (Call i u st x c r st')
  from call_ledger_step [OF Call.hyps(2)] show ?case
    by (intro rtranclp.rtrancl_into_rtrancl [OF Call.IH]) blast
next
  case (Sign_task i u st sid s)
  then have "ledger_of (insert_sign_session sid (s\<lparr>ss_link := task_step (ss_link s)\<rparr>) st) = ledger_of st"
    by (intro ledger_of_advance) simp_all
  with Sign_task.IH show ?case by simp
qed (simp_all add: ledger_of_def session_defs)

end
