(* ===== verification/Backup.thy ===== *)
theory Backup
  imports Api_Types Crates Example_Libs
begin

text \<open>
  The password backup of a keyshare, \<open>derive_backup_envelope\<close> and \<open>decrypt_backup_share\<close> of
  \<open>rust/src/api/mpc_engine.rs\<close>: an HKDF key, AES-256-GCM under a random 12-byte nonce that
  leads the payload, hex, and a JSON envelope.
\<close>

definition derive_aes_key :: "aead_lib \<Rightarrow> string \<Rightarrow> bytes res" where
  "derive_aes_key A user_backup_secret =
     ok_or (hkdf_sha256_expand A (as_bytes user_backup_secret) (as_bytes ''ceres-mpc-backup-v1'') 32)
       (Panicked ''32 bytes is valid HKDF-SHA256 output length'')"

definition encrypt_share ::
  "codecs \<Rightarrow> aead_lib \<Rightarrow> call_ctx \<Rightarrow> bytes \<Rightarrow> bytes \<Rightarrow> string res" where
  "encrypt_share C A x plaintext key_bytes =
     (let nonce = os_rng 12 x in
      andThen (wrap_err ''aes-gcm encrypt failed'' (aes_gcm_encrypt A key_bytes nonce plaintext))
        (\<lambda>ciphertext. Inr (hex_encode C (nonce @ ciphertext))))"

definition decrypt_share_bytes :: "codecs \<Rightarrow> aead_lib \<Rightarrow> string \<Rightarrow> bytes \<Rightarrow> bytes res" where
  "decrypt_share_bytes C A payload_hex key_bytes =
     andThen (wrap_err ''hex decode failed'' (hex_decode C payload_hex)) (\<lambda>combined.
       if length combined < 12 then
         Inl (Msg ''payload too short: must be at least 12 bytes (nonce)'')
       else
         case aes_gcm_decrypt A key_bytes (take 12 combined) (drop 12 combined) of
           Inl _ \<Rightarrow> Inl (Msg ''aes-gcm decrypt failed: wrong key or corrupted payload'')
         | Inr plaintext \<Rightarrow> Inr plaintext)"

definition derive_backup_envelope ::
  "codecs \<Rightarrow> aead_lib \<Rightarrow> call_ctx \<Rightarrow> string \<Rightarrow> string \<Rightarrow> string \<Rightarrow> string res" where
  "derive_backup_envelope C A x local_encrypted_share user_backup_secret created_at =
     andThen (derive_aes_key A user_backup_secret) (\<lambda>key.
     andThen (encrypt_share C A x (as_bytes local_encrypted_share) key) (\<lambda>payload.
       to_json_string C (backup_envelope_json
         \<lparr>be_version = ''1'', be_algorithm = ''aes-256-gcm-hkdf-sha256'',
          be_created_at = created_at, be_payload = payload\<rparr>)))"

text \<open>The device share of the result, before it is serialised, and the whole function.\<close>

definition open_backup_envelope ::
  "codecs \<Rightarrow> aead_lib \<Rightarrow> string \<Rightarrow> string \<Rightarrow> string res" where
  "open_backup_envelope C A encrypted_envelope user_backup_secret =
     andThen (serde_err ''invalid BackupEnvelope JSON'' (from_str C dec_backup_envelope encrypted_envelope))
       (\<lambda>envelope.
     andThen (derive_aes_key A user_backup_secret) (\<lambda>key.
     andThen (decrypt_share_bytes C A (be_payload envelope) key) (\<lambda>plaintext_bytes.
       ok_or (from_utf8 plaintext_bytes) (Msg ''decrypted bytes are not valid UTF-8''))))"

definition decrypt_backup_share ::
  "codecs \<Rightarrow> aead_lib \<Rightarrow> string \<Rightarrow> string \<Rightarrow> string res" where
  "decrypt_backup_share C A encrypted_envelope user_backup_secret =
     andThen (open_backup_envelope C A encrypted_envelope user_backup_secret)
       (\<lambda>device_backup_share.
       to_json_string C (decrypt_backup_result_json
         \<lparr>dr_device_backup_share = device_backup_share\<rparr>))"

section \<open>Properties\<close>

lemma hkdf_32: "(32 :: nat) \<le> 255 * 32"
  by simp

lemma backup_key:
  assumes "aead_law A"
  obtains key where "derive_aes_key A secret = Inr key" and "length key = 32"
proof -
  obtain key where "hkdf_sha256_expand A (as_bytes secret) (as_bytes ''ceres-mpc-backup-v1'') 32 = Some key"
    and "length key = 32"
    using assms unfolding aead_law_def by (metis hkdf_32)
  then show thesis
    by (intro that) (simp_all add: derive_aes_key_def)
qed

text \<open>
  Property C38: a backup opens with the secret it was made with. The envelope is version 1, names
  its algorithm and the given date, its payload is the hex of a 12-byte nonce and the ciphertext,
  and decrypting its text gives the share back.
\<close>

theorem backup_roundtrip:
  assumes "json_law C" and "hex_law C" and "aead_law A"
    and "utf8_valid (as_bytes share)" and "length share \<le> aes_gcm_max"
  shows "\<exists>t e c r. derive_backup_envelope C A x share secret created = Inr t
           \<and> from_str C dec_backup_envelope t = Inr e
           \<and> be_version e = ''1'' \<and> be_algorithm e = ''aes-256-gcm-hkdf-sha256'' \<and> be_created_at e = created
           \<and> hex_decode C (be_payload e) = Inr (os_rng 12 x @ c)
           \<and> decrypt_backup_share C A t secret = Inr r
           \<and> json_parse C (as_bytes r) = Inr (decrypt_backup_result_json \<lparr>dr_device_backup_share = share\<rparr>)"
proof -
  obtain key where key: "derive_aes_key A secret = Inr key" "length key = 32"
    using backup_key [OF assms(3)] by blast
  obtain c where c: "aes_gcm_encrypt A key (os_rng 12 x) (as_bytes share) = Inr c"
    "aes_gcm_decrypt A key (os_rng 12 x) c = Inr (as_bytes share)"
    using assms(3,5) key(2) unfolding aead_law_def by (metis length_as_bytes length_os_rng)
  let ?e = "\<lparr>be_version = ''1'', be_algorithm = ''aes-256-gcm-hkdf-sha256'', be_created_at = created,
             be_payload = hex_encode C (os_rng 12 x @ c)\<rparr>"
  obtain t where t: "to_json_string C (backup_envelope_json ?e) = Inr t"
    "from_str C dec_backup_envelope t = Inr ?e"
    using backup_envelope.text_roundtrip [OF assms(1)] by blast
  let ?j = "decrypt_backup_result_json \<lparr>dr_device_backup_share = share\<rparr>"
  obtain r where r: "to_json_string C ?j = Inr r" "json_parse C (as_bytes r) = Inr ?j"
    using to_json_reads [OF assms(1) payload_json_plain(2)] by blast
  have "derive_backup_envelope C A x share secret created = Inr t"
    using key c(1) t(1) by (simp add: derive_backup_envelope_def encrypt_share_def Let_def)
  moreover have "decrypt_backup_share C A t secret = Inr r"
    using key c(2) t(2) r(1) assms(2,4)
    by (simp add: decrypt_backup_share_def open_backup_envelope_def decrypt_share_bytes_def codec_simps
          from_utf8_as_bytes)
  ultimately show ?thesis
    using t(2) r(2) assms(2) by (intro exI [of _ t] exI [of _ ?e] exI [of _ c] exI [of _ r])
      (simp add: codec_simps)
qed

theorem backup_roundtrip_witness:
  "\<exists>t r. derive_backup_envelope ex_codecs ex_aead (ex_ctx []) ''share'' ''secret'' ''today'' = Inr t
     \<and> decrypt_backup_share ex_codecs ex_aead t ''secret'' = Inr r"
proof -
  have "utf8_valid (as_bytes ''share'')"
    by (rule utf8_valid_ascii) (simp add: as_bytes_def byte_of_char_def)
  moreover have "length ''share'' \<le> aes_gcm_max"
    by (simp add: aes_gcm_max_def)
  ultimately show ?thesis
    using backup_roundtrip [OF ex_json_law ex_hex_law ex_aead_law] by blast
qed

text \<open>
  Opening an envelope never panics, and what it answers depends on the payload alone:
  fewer than 12 bytes, a failed authentication and bytes that are not UTF-8 are errors, everything
  else is the share.
\<close>

lemma backup_open_cases:
  assumes "aead_law A"
    and "from_str C dec_backup_envelope t = Inr e" and "hex_decode C (be_payload e) = Inr bs"
    and "derive_aes_key A secret = Inr key"
  shows "decrypt_backup_share C A t secret =
           (if length bs < 12 then Inl (Msg ''payload too short: must be at least 12 bytes (nonce)'')
            else case aes_gcm_decrypt A key (take 12 bs) (drop 12 bs) of
              Inl e \<Rightarrow> Inl (Msg ''aes-gcm decrypt failed: wrong key or corrupted payload'')
            | Inr m \<Rightarrow>
                if utf8_valid m
                then to_json_string C (decrypt_backup_result_json
                       \<lparr>dr_device_backup_share = string_of_bytes m\<rparr>)
                else Inl (Msg ''decrypted bytes are not valid UTF-8''))
         \<and> (\<forall>t' secret' msg. decrypt_backup_share C A t' secret' \<noteq> Inl (Panicked msg))"
proof (rule conjI)
  show "decrypt_backup_share C A t secret =
           (if length bs < 12 then Inl (Msg ''payload too short: must be at least 12 bytes (nonce)'')
            else case aes_gcm_decrypt A key (take 12 bs) (drop 12 bs) of
              Inl e \<Rightarrow> Inl (Msg ''aes-gcm decrypt failed: wrong key or corrupted payload'')
            | Inr m \<Rightarrow>
                if utf8_valid m
                then to_json_string C (decrypt_backup_result_json
                       \<lparr>dr_device_backup_share = string_of_bytes m\<rparr>)
                else Inl (Msg ''decrypted bytes are not valid UTF-8''))"
    using assms(2-4)
    by (simp add: decrypt_backup_share_def open_backup_envelope_def decrypt_share_bytes_def
          from_utf8_def split: sum.split)
  show "\<forall>t' secret' msg. decrypt_backup_share C A t' secret' \<noteq> Inl (Panicked msg)"
  proof (intro allI)
    fix t' secret' msg
    obtain key' where "derive_aes_key A secret' = Inr key'"
      using backup_key [OF assms(1)] by blast
    then show "decrypt_backup_share C A t' secret' \<noteq> Inl (Panicked msg)"
      by (auto simp: decrypt_backup_share_def open_backup_envelope_def decrypt_share_bytes_def
            andThen_def serde_err_def wrap_err_def ok_or_def to_json_string_def
            split: sum.splits option.splits if_splits)
  qed
qed

lemma backup_open_cases_witness:
  "\<exists>t. decrypt_backup_share ex_codecs ex_aead t ''secret'' =
     Inl (Msg ''payload too short: must be at least 12 bytes (nonce)'')"
proof -
  let ?e = "\<lparr>be_version = ''1'', be_algorithm = ''a'', be_created_at = ''c'',
             be_payload = hex_encode ex_codecs [1, 2]\<rparr>"
  obtain t where t: "from_str ex_codecs dec_backup_envelope t = Inr ?e"
    using backup_envelope.text_roundtrip [OF ex_json_law] by blast
  obtain key where "derive_aes_key ex_aead ''secret'' = Inr key"
    using backup_key [OF ex_aead_law] by blast
  from backup_open_cases [OF ex_aead_law t _ this, of "[1, 2]"] show ?thesis
    by (intro exI [of _ t]) (simp add: codec_simps ex_hex_law)
qed

end
