(* ===== verification/Sse.thy ===== *)
theory Sse
  imports Api_Types Example_Libs "HOL-Library.Sublist"
begin

text \<open>
  The binary format of the foreign function interface: the \<open>SseDecode\<close> and \<open>SseEncode\<close>
  instances of \<open>rust/src/frb_generated.rs\<close>. A decoder reads from a cursor; it is a function
  from the bytes that are left to a value and the bytes after it, or to the panic it ends in
  (every \<open>unwrap\<close> and \<open>unreachable!\<close> of the generated code is one). An encoder appends to a
  growing buffer and cannot fail. The two directions of a type are an instance of the locale
  \<open>sse_type\<close>, in which the facts about messages are proved once; every type of the interface
  is an interpretation of it.
\<close>

section \<open>The cursor\<close>

datatype ffi_panic =
    Bridge_panic string
  | Capacity_overflow
  | Not_utf8 bytes
  | Invalid_variant string i32
  | Unreachable_function i32
  | Call_panic string

type_synonym 'a sse_decoder = "bytes \<Rightarrow> ffi_panic + 'a \<times> bytes"

definition sse_return :: "'a \<Rightarrow> 'a sse_decoder" where
  "sse_return x bs = Inr (x, bs)"

definition sse_panic :: "ffi_panic \<Rightarrow> 'a sse_decoder" where
  "sse_panic p bs = Inl p"

definition sse_bind :: "'a sse_decoder \<Rightarrow> ('a \<Rightarrow> 'b sse_decoder) \<Rightarrow> 'b sse_decoder" where
  "sse_bind d k bs = (case d bs of Inl p \<Rightarrow> Inl p | Inr (x, rest) \<Rightarrow> k x rest)"

text \<open>A read of the bridge, \<open>unwrap\<close>ped.\<close>

definition sse_unwrap :: "(bytes \<Rightarrow> string + 'a \<times> bytes) \<Rightarrow> 'a sse_decoder" where
  "sse_unwrap rd bs = (case rd bs of Inl e \<Rightarrow> Inl (Bridge_panic e) | Inr v \<Rightarrow> Inr v)"

lemma sse_monad_simps [simp]:
  "sse_return x bs = Inr (x, bs)"
  "sse_panic p bs = Inl p"
  "d bs = Inr (x, rest) \<Longrightarrow> sse_bind d k bs = k x rest"
  "d bs = Inl p \<Longrightarrow> sse_bind d k bs = Inl p"
  by (simp_all add: sse_return_def sse_panic_def sse_bind_def)

text \<open>
  What a decoder establishes: when it returns, the value satisfies \<open>P\<close>, what it leaves is a
  part of what it was given, and bytes behind would have been left, too.
\<close>

definition sse_reads :: "'a sse_decoder \<Rightarrow> ('a \<Rightarrow> bool) \<Rightarrow> bool" where
  "sse_reads d P \<longleftrightarrow> (\<forall>bs x rest. d bs = Inr (x, rest) \<longrightarrow>
     P x \<and> suffix rest bs \<and> (\<forall>tail. d (bs @ tail) = Inr (x, rest @ tail)))"

lemma sse_readsD:
  "sse_reads d P \<Longrightarrow> d bs = Inr (x, rest) \<Longrightarrow>
     P x \<and> suffix rest bs \<and> d (bs @ tail) = Inr (x, rest @ tail)"
  by (simp add: sse_reads_def)

named_theorems sse_reads_intros \<open>decoders and what they establish\<close>

lemma sse_reads_return [sse_reads_intros]: "P x \<Longrightarrow> sse_reads (sse_return x) P"
  by (simp add: sse_reads_def)

lemma sse_reads_panic [sse_reads_intros]: "sse_reads (sse_panic p) P"
  by (simp add: sse_reads_def)

lemma sse_reads_bind [sse_reads_intros]:
  "sse_reads d P \<Longrightarrow> (\<And>x. P x \<Longrightarrow> sse_reads (k x) Q) \<Longrightarrow> sse_reads (sse_bind d k) Q"
  by (fastforce simp: sse_reads_def sse_bind_def split: sum.splits
        intro: suffix_order.trans)

text \<open>
  Two messages that say the same. The decoder of a boolean, and so of an option, takes any tag but 0
  for true, where the encoder writes 1; this is why a message that is read can differ from the
  encoding of its value. The relation allows the difference at every byte at which the encoding
  has a 1, whether it is a tag or not, and no other.
\<close>

definition same_message :: "bytes \<Rightarrow> bytes \<Rightarrow> bool" where
  "same_message p q \<longleftrightarrow> list_all2 (\<lambda>a b. a = b \<or> a \<noteq> 0 \<and> b = 1) p q"

lemma same_message_refl [simp]: "same_message p p"
  by (simp add: same_message_def list_all2_refl)

lemma same_message_append [intro]: "same_message p q \<Longrightarrow> same_message p' q' \<Longrightarrow> same_message (p @ p') (q @ q')"
  by (simp add: same_message_def list_all2_appendI)

lemma same_message_append3 [intro]:
  "same_message p q \<Longrightarrow> same_message p' q' \<Longrightarrow> same_message p'' q'' \<Longrightarrow> same_message (p @ p' @ p'') (q @ q' @ q'')"
  by (intro same_message_append)

text \<open>What a decoder has consumed when it returns: \<open>R\<close> relates the value and the bytes.\<close>

definition sse_consumes :: "'a sse_decoder \<Rightarrow> ('a \<Rightarrow> bytes \<Rightarrow> bool) \<Rightarrow> bool" where
  "sse_consumes d R \<longleftrightarrow> (\<forall>bs x rest. d bs = Inr (x, rest) \<longrightarrow> (\<exists>p. bs = p @ rest \<and> R x p))"

named_theorems sse_consumes_intros \<open>decoders and what they consume\<close>

lemma sse_consumes_return [sse_consumes_intros]: "R x [] \<Longrightarrow> sse_consumes (sse_return x) R"
  by (simp add: sse_consumes_def)

lemma sse_consumes_panic [sse_consumes_intros]: "sse_consumes (sse_panic p) R"
  by (simp add: sse_consumes_def)

lemma sse_consumes_bind:
  assumes "sse_consumes d R" and "\<And>x. sse_consumes (k x) (\<lambda>y q. \<forall>p. R x p \<longrightarrow> S y (p @ q))"
  shows "sse_consumes (sse_bind d k) S"
  unfolding sse_consumes_def
proof (intro allI impI)
  fix bs y rest assume "sse_bind d k bs = Inr (y, rest)"
  then obtain x mid where "d bs = Inr (x, mid)" "k x mid = Inr (y, rest)"
    by (auto simp: sse_bind_def split: sum.splits)
  with assms obtain p q where "bs = p @ mid" "R x p" "mid = q @ rest" "S y (p @ q)"
    unfolding sse_consumes_def by metis
  then show "\<exists>p. bs = p @ rest \<and> S y p" by (intro exI [of _ "p @ q"]) simp
qed

section \<open>Numbers\<close>

definition sse_decode_u8 :: "bridge \<Rightarrow> byte sse_decoder" where
  "sse_decode_u8 B = sse_unwrap (read_u8 B)"

definition sse_encode_u8 :: "bridge \<Rightarrow> byte \<Rightarrow> bytes" where
  "sse_encode_u8 B b = write_u8 B b"

definition sse_decode_bool :: "bridge \<Rightarrow> bool sse_decoder" where
  "sse_decode_bool B = sse_bind (sse_unwrap (read_u8 B)) (\<lambda>b. sse_return (b \<noteq> 0))"

definition sse_encode_bool :: "bridge \<Rightarrow> bool \<Rightarrow> bytes" where
  "sse_encode_bool B b = write_u8 B (if b then 1 else 0)"

definition sse_decode_i32 :: "bridge \<Rightarrow> i32 sse_decoder" where
  "sse_decode_i32 B = sse_unwrap (read_i32 B)"

definition sse_encode_i32 :: "bridge \<Rightarrow> i32 \<Rightarrow> bytes" where
  "sse_encode_i32 B w = write_i32 B w"

section \<open>Vectors and options\<close>

text \<open>
  The shape the generator gives every \<open>Vec\<close>: the length as an \<open>i32\<close>, then the elements.
  \<open>self.len() as _\<close> keeps the low 32 bits of the length. \<open>len_ as usize\<close> of a negative length is
  beyond \<open>isize::MAX\<close>, so \<open>Vec::with_capacity\<close> panics. (A length the
  machine has no memory for is not modelled.)
\<close>

primrec sse_read :: "nat \<Rightarrow> 'a sse_decoder \<Rightarrow> 'a list sse_decoder" where
  "sse_read 0 d = sse_return []"
| "sse_read (Suc n) d = sse_bind d (\<lambda>x. sse_bind (sse_read n d) (\<lambda>xs. sse_return (x # xs)))"

definition sse_decode_vec :: "(bridge \<Rightarrow> 'a sse_decoder) \<Rightarrow> bridge \<Rightarrow> 'a list sse_decoder" where
  "sse_decode_vec d B =
     sse_bind (sse_decode_i32 B) (\<lambda>len.
       if sint len < 0 then sse_panic Capacity_overflow else sse_read (nat (sint len)) (d B))"

definition sse_encode_vec :: "(bridge \<Rightarrow> 'a \<Rightarrow> bytes) \<Rightarrow> bridge \<Rightarrow> 'a list \<Rightarrow> bytes" where
  "sse_encode_vec enc B xs = sse_encode_i32 B (word_of_nat (length xs)) @ concat (map (enc B) xs)"

definition fits_vec :: "('a \<Rightarrow> bool) \<Rightarrow> 'a list \<Rightarrow> bool" where
  "fits_vec P xs \<longleftrightarrow> length xs < 2 ^ 31 \<and> list_all P xs"

definition sse_decode_opt :: "(bridge \<Rightarrow> 'a sse_decoder) \<Rightarrow> bridge \<Rightarrow> 'a option sse_decoder" where
  "sse_decode_opt d B =
     sse_bind (sse_decode_bool B) (\<lambda>some.
       if some then sse_bind (d B) (\<lambda>x. sse_return (Some x)) else sse_return None)"

definition sse_encode_opt :: "(bridge \<Rightarrow> 'a \<Rightarrow> bytes) \<Rightarrow> bridge \<Rightarrow> 'a option \<Rightarrow> bytes" where
  "sse_encode_opt enc B x =
     sse_encode_bool B (x \<noteq> None) @ (case x of Some v \<Rightarrow> enc B v | None \<Rightarrow> [])"

definition fits_opt :: "('a \<Rightarrow> bool) \<Rightarrow> 'a option \<Rightarrow> bool" where
  "fits_opt P x \<longleftrightarrow> (case x of Some v \<Rightarrow> P v | None \<Rightarrow> True)"

lemma fits_opt_simps [simp]: "fits_opt P None" "fits_opt P (Some x) \<longleftrightarrow> P x"
  by (simp_all add: fits_opt_def)

lemma sint_of_length: "n < 2 ^ 31 \<Longrightarrow> sint (word_of_nat n :: i32) = int n"
  by (simp add: signed_of_nat signed_take_bit_int_eq_self)

lemma sint_of_long_length:
  assumes "2 ^ 31 \<le> n" and "n < 2 ^ 32"
  shows "sint (word_of_nat n :: i32) < 0"
proof -
  have "int n + 2 ^ 31 = (int n - 2 ^ 31) + 2 ^ 32" by simp
  then have "(int n + 2 ^ 31) mod 2 ^ 32 = (int n - 2 ^ 31) mod 2 ^ 32"
    by (simp only: mod_add_self2)
  also have "\<dots> = int n - 2 ^ 31"
    using assms by (intro mod_pos_pos_trivial) simp_all
  finally have "signed_take_bit 31 (int n) = int n - 2 ^ 32"
    by (simp add: signed_take_bit_eq_take_bit_shift take_bit_eq_mod)
  with assms(2) show ?thesis by (simp add: signed_of_nat)
qed

section \<open>The interface of a type\<close>

text \<open>
  \<open>fits x\<close> says that a value can cross the bridge: its lists are short enough for a length in
  an \<open>i32\<close> and its strings are UTF-8.
\<close>

locale sse_type =
  fixes enc :: "bridge \<Rightarrow> 'a \<Rightarrow> bytes" and dec :: "bridge \<Rightarrow> 'a sse_decoder" and fits :: "'a \<Rightarrow> bool"
  assumes dec_enc: "bridge_law B \<Longrightarrow> fits x \<Longrightarrow> dec B (enc B x @ rest) = Inr (x, rest)"
    and reads: "bridge_law B \<Longrightarrow> sse_reads (dec B) fits"
    and consumes: "bridge_law B \<Longrightarrow> sse_consumes (dec B) (\<lambda>x p. same_message p (enc B x))"
begin

text \<open>A message is read in one way only, and what is read can be sent back.\<close>

lemma unique_parse:
  assumes "bridge_law B" "fits x" "fits y" and "enc B x @ r = enc B y @ s"
  shows "x = y \<and> r = s"
proof -
  have "Inr (x, r) = dec B (enc B y @ s)"
    using dec_enc [OF assms(1,2), of r] by (simp only: assms(4))
  also have "\<dots> = Inr (y, s)" by (rule dec_enc [OF assms(1,3)])
  finally show ?thesis by simp
qed

lemma resend:
  assumes "bridge_law B" and "dec B bs = Inr (x, rest)"
  shows "fits x \<and> suffix rest bs \<and> dec B (enc B x @ rest') = Inr (x, rest')"
  using sse_readsD [OF reads [OF assms(1)] assms(2)] dec_enc [OF assms(1)] by simp

text \<open>A message cut short is refused.\<close>

lemma prefix_panics:
  assumes "bridge_law B" "fits x" and "enc B x = p @ q" "q \<noteq> []"
  shows "\<exists>e. dec B p = Inl e"
proof (rule ccontr)
  assume "\<nexists>e. dec B p = Inl e"
  then obtain y r where "dec B p = Inr (y, r)" by (metis old.sum.exhaust surj_pair)
  with sse_readsD [OF reads [OF assms(1)]] have "dec B (p @ q) = Inr (y, r @ q)" by blast
  moreover have "dec B (p @ q) = Inr (x, [])"
    using dec_enc [OF assms(1,2), of "[]"] assms(3) by simp
  ultimately show False using assms(4) by simp
qed

lemma read_enc:
  "bridge_law B \<Longrightarrow> list_all fits xs \<Longrightarrow>
     sse_read (length xs) (dec B) (concat (map (enc B) xs) @ rest) = Inr (xs, rest)"
  by (induction xs) (simp_all add: dec_enc)

lemma consumes_bind:
  "bridge_law B \<Longrightarrow> (\<And>x. sse_consumes (k x) (\<lambda>y q. \<forall>p. same_message p (enc B x) \<longrightarrow> S y (p @ q))) \<Longrightarrow>
     sse_consumes (sse_bind (dec B) k) S"
  by (rule sse_consumes_bind [OF consumes])

lemma read_consumes:
  "bridge_law B \<Longrightarrow> sse_consumes (sse_read n (dec B))
     (\<lambda>xs p. length xs = n \<and> same_message p (concat (map (enc B) xs)))"
proof (induction n)
  case (Suc n)
  show ?case
    unfolding sse_read.simps
    by (rule consumes_bind [OF Suc.prems], rule sse_consumes_bind [OF Suc.IH [OF Suc.prems]])
       (auto intro!: sse_consumes_return)
qed (simp add: sse_consumes_return)

lemma read_reads: "bridge_law B \<Longrightarrow> sse_reads (sse_read n (dec B)) (\<lambda>xs. length xs = n \<and> list_all fits xs)"
proof (induction n)
  case (Suc n)
  show ?case
    unfolding sse_read.simps
    by (rule sse_reads_bind [OF reads [OF Suc.prems]], rule sse_reads_bind [OF Suc.IH [OF Suc.prems]])
       (simp add: sse_reads_return)
qed (simp add: sse_reads_def)

end

interpretation sse_u8: sse_type sse_encode_u8 sse_decode_u8 "\<lambda>_. True"
proof
  fix B :: bridge and b :: byte and rest assume B: "bridge_law B"
  then show "sse_decode_u8 B (sse_encode_u8 B b @ rest) = Inr (b, rest)"
    by (simp add: bridge_law_def sse_decode_u8_def sse_encode_u8_def sse_unwrap_def)
  obtain e where nil: "sse_decode_u8 B [] = Inl e"
    using B by (auto simp: bridge_law_def sse_decode_u8_def sse_unwrap_def)
  have cons: "sse_decode_u8 B (b # bs) = Inr (b, bs)" for b bs
    using B by (simp add: bridge_law_def sse_decode_u8_def sse_unwrap_def)
  show "sse_reads (sse_decode_u8 B) (\<lambda>_. True)"
    unfolding sse_reads_def
  proof (intro allI impI)
    fix bs x rest assume "sse_decode_u8 B bs = Inr (x, rest)"
    with nil cons have "bs = x # rest" by (cases bs) simp_all
    with cons show "True \<and> suffix rest bs \<and> (\<forall>tail. sse_decode_u8 B (bs @ tail) = Inr (x, rest @ tail))"
      by (simp add: suffix_Cons)
  qed
  show "sse_consumes (sse_decode_u8 B) (\<lambda>b p. same_message p (sse_encode_u8 B b))"
    unfolding sse_consumes_def
  proof (intro allI impI)
    fix bs b rest assume "sse_decode_u8 B bs = Inr (b, rest)"
    with nil cons have "bs = [b] @ rest" by (cases bs) simp_all
    moreover have "sse_encode_u8 B b = [b]" using B by (simp add: bridge_law_def sse_encode_u8_def)
    ultimately show "\<exists>p. bs = p @ rest \<and> same_message p (sse_encode_u8 B b)" by fastforce
  qed
qed

interpretation sse_i32: sse_type sse_encode_i32 sse_decode_i32 "\<lambda>_. True"
proof
  fix B :: bridge and w :: i32 and rest assume B: "bridge_law B"
  have enc: "sse_decode_i32 B (sse_encode_i32 B w @ rest) = Inr (w, rest)" for w rest
    using B by (simp add: bridge_law_def sse_decode_i32_def sse_encode_i32_def sse_unwrap_def)
  then show "sse_decode_i32 B (sse_encode_i32 B w @ rest) = Inr (w, rest)" .
  have dec: "bs = sse_encode_i32 B x @ rest" if *: "sse_decode_i32 B bs = Inr (x, rest)" for bs x rest
  proof -
    have "\<not> length bs < 4"
      using B * by (auto simp: bridge_law_def sse_decode_i32_def sse_unwrap_def split: sum.splits)
    moreover from B have "\<forall>bs. 4 \<le> length bs \<longrightarrow> (\<exists>w. write_i32 B w = take 4 bs)"
      by (simp add: bridge_law_def)
    ultimately obtain v where "sse_encode_i32 B v = take 4 bs"
      by (metis not_less sse_encode_i32_def)
    then have bs: "bs = sse_encode_i32 B v @ drop 4 bs" by simp
    with * enc [of v "drop 4 bs"] have "x = v" "rest = drop 4 bs" by simp_all
    with bs show ?thesis by simp
  qed
  show "sse_reads (sse_decode_i32 B) (\<lambda>_. True)"
    unfolding sse_reads_def using enc by (auto dest!: dec intro: suffixI)
  show "sse_consumes (sse_decode_i32 B) (\<lambda>w p. same_message p (sse_encode_i32 B w))"
    unfolding sse_consumes_def by (auto dest!: dec)
qed

interpretation sse_bool: sse_type sse_encode_bool sse_decode_bool "\<lambda>_. True"
proof
  fix B :: bridge and b and rest assume B: "bridge_law B"
  have d: "sse_decode_bool B = sse_bind (sse_decode_u8 B) (\<lambda>b. sse_return (b \<noteq> 0))"
    by (simp add: sse_decode_bool_def sse_decode_u8_def)
  have e: "sse_encode_bool B b = sse_encode_u8 B (if b then 1 else 0)"
    by (simp add: sse_encode_bool_def sse_encode_u8_def)
  show "sse_decode_bool B (sse_encode_bool B b @ rest) = Inr (b, rest)"
    by (simp add: d e sse_u8.dec_enc [OF B])
  show "sse_reads (sse_decode_bool B) (\<lambda>_. True)"
    unfolding d by (intro sse_reads_intros) (rule sse_u8.reads [OF B])
  have bit: "same_message p (sse_encode_bool B (b \<noteq> 0))" if "same_message p (sse_encode_u8 B b)" for p b
  proof -
    have w: "write_u8 B b = [b]" for b using B by (simp add: bridge_law_def)
    from that show ?thesis
      unfolding sse_encode_bool_def sse_encode_u8_def w same_message_def
      by (cases p) (auto simp: list_all2_Cons1)
  qed
  show "sse_consumes (sse_decode_bool B) (\<lambda>b p. same_message p (sse_encode_bool B b))"
    unfolding d by (rule sse_u8.consumes_bind [OF B], rule sse_consumes_return) (simp add: bit)
qed

section \<open>Vectors and options of a type\<close>

context sse_type
begin

lemma vec_type: "sse_type (sse_encode_vec enc) (sse_decode_vec dec) (fits_vec fits)"
proof
  fix B :: bridge and xs :: "'a list" and rest assume B: "bridge_law B"
  show "sse_decode_vec dec B (sse_encode_vec enc B xs @ rest) = Inr (xs, rest)" if "fits_vec fits xs"
    using that by (simp add: fits_vec_def sse_decode_vec_def sse_encode_vec_def sse_i32.dec_enc [OF B]
        sint_of_length read_enc [OF B])
  show "sse_reads (sse_decode_vec dec B) (fits_vec fits)"
    unfolding sse_decode_vec_def
  proof (rule sse_reads_bind [OF sse_i32.reads [OF B]])
    fix len :: i32
    have "nat (sint len) < 2 ^ 31" using sint_less [of len] by simp
    then show "sse_reads (if sint len < 0 then sse_panic Capacity_overflow
                 else sse_read (nat (sint len)) (dec B)) (fits_vec fits)"
      using read_reads [OF B, of "nat (sint len)"]
      by (auto simp: sse_reads_def fits_vec_def)
  qed
  show "sse_consumes (sse_decode_vec dec B) (\<lambda>xs p. same_message p (sse_encode_vec enc B xs))"
    unfolding sse_decode_vec_def
  proof (rule sse_i32.consumes_bind [OF B])
    fix len :: i32
    let ?R = "\<lambda>xs q. \<forall>p. same_message p (sse_encode_i32 B len) \<longrightarrow> same_message (p @ q) (sse_encode_vec enc B xs)"
    show "sse_consumes (if sint len < 0 then sse_panic Capacity_overflow
                 else sse_read (nat (sint len)) (dec B)) ?R"
    proof (cases "sint len < 0")
      case False
      then have len: "word_of_nat (nat (sint len)) = len" by simp
      have "?R xs q" if "length xs = nat (sint len) \<and> same_message q (concat (map (enc B) xs))" for xs q
        using that len same_message_append by (simp add: sse_encode_vec_def)
      with read_consumes [OF B, of "nat (sint len)"] False show ?thesis
        unfolding sse_consumes_def by (simp del: of_nat_nat) blast
    qed (simp add: sse_consumes_panic)
  qed
qed

lemma opt_type: "sse_type (sse_encode_opt enc) (sse_decode_opt dec) (fits_opt fits)"
proof
  fix B :: bridge and x :: "'a option" and rest assume B: "bridge_law B"
  show "sse_decode_opt dec B (sse_encode_opt enc B x @ rest) = Inr (x, rest)" if "fits_opt fits x"
    using that by (cases x)
      (simp_all add: sse_decode_opt_def sse_encode_opt_def sse_bind_def sse_bool.dec_enc [OF B]
         dec_enc [OF B])
  show "sse_reads (sse_decode_opt dec B) (fits_opt fits)"
    unfolding sse_decode_opt_def
  proof (rule sse_reads_bind [OF sse_bool.reads [OF B]])
    fix some
    have "sse_reads (sse_bind (dec B) (\<lambda>x. sse_return (Some x))) (fits_opt fits)"
      by (rule sse_reads_bind [OF reads [OF B]]) (simp add: sse_reads_return)
    then show "sse_reads (if some then sse_bind (dec B) (\<lambda>x. sse_return (Some x)) else sse_return None)
                 (fits_opt fits)"
      by (simp add: sse_reads_return)
  qed
  show "sse_consumes (sse_decode_opt dec B) (\<lambda>x p. same_message p (sse_encode_opt enc B x))"
    unfolding sse_decode_opt_def
  proof (rule sse_bool.consumes_bind [OF B])
    fix some
    have "sse_consumes (sse_bind (dec B) (\<lambda>x. sse_return (Some x)))
        (\<lambda>x q. \<forall>p. same_message p (sse_encode_bool B True) \<longrightarrow> same_message (p @ q) (sse_encode_opt enc B x))"
      by (rule consumes_bind [OF B]) (auto intro!: sse_consumes_return simp: sse_encode_opt_def)
    then show "sse_consumes (if some then sse_bind (dec B) (\<lambda>x. sse_return (Some x)) else sse_return None)
        (\<lambda>x q. \<forall>p. same_message p (sse_encode_bool B some) \<longrightarrow> same_message (p @ q) (sse_encode_opt enc B x))"
      by (auto intro!: sse_consumes_return simp: sse_encode_opt_def)
  qed
qed

text \<open>A vector of \<open>2 ^ 31\<close> to \<open>2 ^ 32 - 1\<close> elements is sent with a negative length and not read back.\<close>

lemma long_vec_panics:
  assumes "bridge_law B" and "2 ^ 31 \<le> length xs" and "length xs < 2 ^ 32"
  shows "sse_decode_vec dec B (sse_encode_vec enc B xs @ rest) = Inl Capacity_overflow"
proof -
  note sint_of_long_length [OF assms(2,3)]
  then show ?thesis
    by (simp add: sse_decode_vec_def sse_encode_vec_def sse_i32.dec_enc [OF assms(1)])
qed

end

section \<open>Tuples\<close>

text \<open>One value after the other: a tuple, or the arguments of a call.\<close>

definition sse_decode_pair ::
  "(bridge \<Rightarrow> 'a sse_decoder) \<Rightarrow> (bridge \<Rightarrow> 'b sse_decoder) \<Rightarrow> bridge \<Rightarrow> ('a \<times> 'b) sse_decoder" where
  "sse_decode_pair d e B =
     sse_bind (d B) (\<lambda>x. sse_bind (e B) (\<lambda>y. sse_return (x, y)))"

definition sse_encode_pair ::
  "(bridge \<Rightarrow> 'a \<Rightarrow> bytes) \<Rightarrow> (bridge \<Rightarrow> 'b \<Rightarrow> bytes) \<Rightarrow> bridge \<Rightarrow> 'a \<times> 'b \<Rightarrow> bytes" where
  "sse_encode_pair enc enc' B p = enc B (fst p) @ enc' B (snd p)"

definition fits_pair :: "('a \<Rightarrow> bool) \<Rightarrow> ('b \<Rightarrow> bool) \<Rightarrow> 'a \<times> 'b \<Rightarrow> bool" where
  "fits_pair P Q p \<longleftrightarrow> P (fst p) \<and> Q (snd p)"

lemma fits_pair_simp [simp]: "fits_pair P Q (x, y) \<longleftrightarrow> P x \<and> Q y"
  by (simp add: fits_pair_def)

lemma pair_type:
  assumes "sse_type enc dec P" and "sse_type enc' dec' Q"
  shows "sse_type (sse_encode_pair enc enc') (sse_decode_pair dec dec') (fits_pair P Q)"
proof
  fix B :: bridge and p rest assume B: "bridge_law B"
  show "sse_decode_pair dec dec' B (sse_encode_pair enc enc' B p @ rest) = Inr (p, rest)"
    if "fits_pair P Q p"
    using that by (cases p) (simp add: sse_decode_pair_def sse_encode_pair_def
        sse_type.dec_enc [OF assms(1) B] sse_type.dec_enc [OF assms(2) B])
  show "sse_reads (sse_decode_pair dec dec' B) (fits_pair P Q)"
    unfolding sse_decode_pair_def
    by (rule sse_reads_bind [OF sse_type.reads [OF assms(1) B]],
        rule sse_reads_bind [OF sse_type.reads [OF assms(2) B]]) (simp add: sse_reads_return)
  show "sse_consumes (sse_decode_pair dec dec' B) (\<lambda>x p. same_message p (sse_encode_pair enc enc' B x))"
    unfolding sse_decode_pair_def
    by (rule sse_type.consumes_bind [OF assms(1) B], rule sse_type.consumes_bind [OF assms(2) B])
       (auto intro!: sse_consumes_return simp: sse_encode_pair_def)
qed

section \<open>Byte vectors and strings\<close>

definition sse_decode_bytes :: "bridge \<Rightarrow> bytes sse_decoder" where
  "sse_decode_bytes = sse_decode_vec sse_decode_u8"

definition sse_encode_bytes :: "bridge \<Rightarrow> bytes \<Rightarrow> bytes" where
  "sse_encode_bytes = sse_encode_vec sse_encode_u8"

definition fits_bytes :: "bytes \<Rightarrow> bool" where
  "fits_bytes bs \<longleftrightarrow> length bs < 2 ^ 31"

interpretation sse_bytes: sse_type sse_encode_bytes sse_decode_bytes fits_bytes
proof -
  have fits: "fits_bytes = fits_vec (\<lambda>_. True)"
    by (rule ext) (simp add: fits_bytes_def fits_vec_def list_all_iff)
  show "sse_type sse_encode_bytes sse_decode_bytes fits_bytes"
    unfolding sse_decode_bytes_def sse_encode_bytes_def fits by (rule sse_u8.vec_type)
qed

definition sse_decode_string :: "bridge \<Rightarrow> string sse_decoder" where
  "sse_decode_string B =
     sse_bind (sse_decode_bytes B) (\<lambda>inner.
       case from_utf8 inner of Some s \<Rightarrow> sse_return s | None \<Rightarrow> sse_panic (Not_utf8 inner))"

definition sse_encode_string :: "bridge \<Rightarrow> string \<Rightarrow> bytes" where
  "sse_encode_string B s = sse_encode_bytes B (as_bytes s)"

definition fits_string :: "string \<Rightarrow> bool" where
  "fits_string s \<longleftrightarrow> length s < 2 ^ 31 \<and> utf8_valid (as_bytes s)"

interpretation sse_string: sse_type sse_encode_string sse_decode_string fits_string
proof
  fix B :: bridge and s rest assume B: "bridge_law B"
  show "sse_decode_string B (sse_encode_string B s @ rest) = Inr (s, rest)" if "fits_string s"
    using that by (simp add: sse_decode_string_def sse_encode_string_def fits_string_def
        sse_bytes.dec_enc [OF B] fits_bytes_def from_utf8_as_bytes)
  show "sse_reads (sse_decode_string B) fits_string"
    unfolding sse_decode_string_def
    by (rule sse_reads_bind [OF sse_bytes.reads [OF B]])
       (auto simp: from_utf8_def fits_string_def fits_bytes_def string_of_bytes_def as_bytes_def
          comp_def intro!: sse_reads_intros split: option.split)
  have as_bytes: "as_bytes s = inner" if "from_utf8 inner = Some s" for inner s
    using that by (auto simp: from_utf8_def string_of_bytes_def as_bytes_def comp_def split: if_splits)
  show "sse_consumes (sse_decode_string B) (\<lambda>s p. same_message p (sse_encode_string B s))"
    unfolding sse_decode_string_def
    by (rule sse_bytes.consumes_bind [OF B])
       (auto intro!: sse_consumes_intros simp: sse_encode_string_def as_bytes split: option.split)
qed

definition sse_decode_strings :: "bridge \<Rightarrow> string list sse_decoder" where
  "sse_decode_strings = sse_decode_vec sse_decode_string"

definition sse_encode_strings :: "bridge \<Rightarrow> string list \<Rightarrow> bytes" where
  "sse_encode_strings = sse_encode_vec sse_encode_string"

interpretation sse_strings: sse_type sse_encode_strings sse_decode_strings "fits_vec fits_string"
  unfolding sse_decode_strings_def sse_encode_strings_def by (rule sse_string.vec_type)

definition sse_decode_byte_lists :: "bridge \<Rightarrow> bytes list sse_decoder" where
  "sse_decode_byte_lists = sse_decode_vec sse_decode_bytes"

definition sse_encode_byte_lists :: "bridge \<Rightarrow> bytes list \<Rightarrow> bytes" where
  "sse_encode_byte_lists = sse_encode_vec sse_encode_bytes"

interpretation sse_byte_lists: sse_type sse_encode_byte_lists sse_decode_byte_lists "fits_vec fits_bytes"
  unfolding sse_decode_byte_lists_def sse_encode_byte_lists_def by (rule sse_bytes.vec_type)

section \<open>Options\<close>

definition sse_decode_opt_string :: "bridge \<Rightarrow> string option sse_decoder" where
  "sse_decode_opt_string = sse_decode_opt sse_decode_string"

definition sse_encode_opt_string :: "bridge \<Rightarrow> string option \<Rightarrow> bytes" where
  "sse_encode_opt_string = sse_encode_opt sse_encode_string"

interpretation sse_opt_string: sse_type sse_encode_opt_string sse_decode_opt_string "fits_opt fits_string"
  unfolding sse_decode_opt_string_def sse_encode_opt_string_def by (rule sse_string.opt_type)

definition sse_decode_opt_i32 :: "bridge \<Rightarrow> i32 option sse_decoder" where
  "sse_decode_opt_i32 = sse_decode_opt sse_decode_i32"

definition sse_encode_opt_i32 :: "bridge \<Rightarrow> i32 option \<Rightarrow> bytes" where
  "sse_encode_opt_i32 = sse_encode_opt sse_encode_i32"

interpretation sse_opt_i32: sse_type sse_encode_opt_i32 sse_decode_opt_i32 "fits_opt (\<lambda>_. True)"
  unfolding sse_decode_opt_i32_def sse_encode_opt_i32_def by (rule sse_i32.opt_type)

definition sse_decode_opt_u8 :: "bridge \<Rightarrow> byte option sse_decoder" where
  "sse_decode_opt_u8 = sse_decode_opt sse_decode_u8"

definition sse_encode_opt_u8 :: "bridge \<Rightarrow> byte option \<Rightarrow> bytes" where
  "sse_encode_opt_u8 = sse_encode_opt sse_encode_u8"

interpretation sse_opt_u8: sse_type sse_encode_opt_u8 sse_decode_opt_u8 "fits_opt (\<lambda>_. True)"
  unfolding sse_decode_opt_u8_def sse_encode_opt_u8_def by (rule sse_u8.opt_type)

definition sse_decode_opt_strings :: "bridge \<Rightarrow> string list option sse_decoder" where
  "sse_decode_opt_strings = sse_decode_opt sse_decode_strings"

definition sse_encode_opt_strings :: "bridge \<Rightarrow> string list option \<Rightarrow> bytes" where
  "sse_encode_opt_strings = sse_encode_opt sse_encode_strings"

interpretation sse_opt_strings:
  sse_type sse_encode_opt_strings sse_decode_opt_strings "fits_opt (fits_vec fits_string)"
  unfolding sse_decode_opt_strings_def sse_encode_opt_strings_def by (rule sse_strings.opt_type)

lemma fits_opt_True [simp]: "fits_opt (\<lambda>_. True) x"
  by (cases x) simp_all

section \<open>The types of the API\<close>

text \<open>The arms for other variants of an enum, \<open>unimplemented!\<close> when encoding, are unreachable.\<close>

definition sse_decode_curve :: "bridge \<Rightarrow> curve sse_decoder" where
  "sse_decode_curve B =
     sse_bind (sse_decode_i32 B) (\<lambda>inner.
       if inner = 0 then sse_return Secp256k1 else if inner = 1 then sse_return Ed25519
       else sse_panic (Invalid_variant ''Curve'' inner))"

fun sse_encode_curve :: "bridge \<Rightarrow> curve \<Rightarrow> bytes" where
  "sse_encode_curve B Secp256k1 = sse_encode_i32 B 0"
| "sse_encode_curve B Ed25519 = sse_encode_i32 B 1"

interpretation sse_curve: sse_type sse_encode_curve sse_decode_curve "\<lambda>_. True"
proof
  fix B :: bridge and c rest assume B: "bridge_law B"
  show "sse_decode_curve B (sse_encode_curve B c @ rest) = Inr (c, rest)"
    by (cases c) (simp_all add: sse_decode_curve_def sse_i32.dec_enc [OF B])
  show "sse_reads (sse_decode_curve B) (\<lambda>_. True)"
    unfolding sse_decode_curve_def
    by (rule sse_reads_bind [OF sse_i32.reads [OF B]]) (simp add: sse_reads_intros)
  show "sse_consumes (sse_decode_curve B) (\<lambda>x p. same_message p (sse_encode_curve B x))"
    unfolding sse_decode_curve_def
    by (rule sse_i32.consumes_bind [OF B]) (auto intro!: sse_consumes_intros)
qed

definition sse_decode_protocol :: "bridge \<Rightarrow> protocol_type sse_decoder" where
  "sse_decode_protocol B =
     sse_bind (sse_decode_i32 B) (\<lambda>inner.
       if inner = 0 then sse_return Dkg else if inner = 1 then sse_return Dsg
       else if inner = 2 then sse_return Rotation
       else sse_panic (Invalid_variant ''ProtocolType'' inner))"

fun sse_encode_protocol :: "bridge \<Rightarrow> protocol_type \<Rightarrow> bytes" where
  "sse_encode_protocol B Dkg = sse_encode_i32 B 0"
| "sse_encode_protocol B Dsg = sse_encode_i32 B 1"
| "sse_encode_protocol B Rotation = sse_encode_i32 B 2"

interpretation sse_protocol: sse_type sse_encode_protocol sse_decode_protocol "\<lambda>_. True"
proof
  fix B :: bridge and p rest assume B: "bridge_law B"
  show "sse_decode_protocol B (sse_encode_protocol B p @ rest) = Inr (p, rest)"
    by (cases p) (simp_all add: sse_decode_protocol_def sse_i32.dec_enc [OF B])
  show "sse_reads (sse_decode_protocol B) (\<lambda>_. True)"
    unfolding sse_decode_protocol_def
    by (rule sse_reads_bind [OF sse_i32.reads [OF B]]) (simp add: sse_reads_intros)
  show "sse_consumes (sse_decode_protocol B) (\<lambda>x p. same_message p (sse_encode_protocol B x))"
    unfolding sse_decode_protocol_def
    by (rule sse_i32.consumes_bind [OF B]) (auto intro!: sse_consumes_intros)
qed

definition sse_decode_array32 :: "bridge \<Rightarrow> bytes sse_decoder" where
  "sse_decode_array32 B =
     sse_bind (sse_decode_bytes B) (\<lambda>inner.
       case from_vec_to_array B 32 inner of
         Inr arr \<Rightarrow> sse_return arr | Inl p \<Rightarrow> sse_panic (Bridge_panic p))"

definition sse_encode_array32 :: "bridge \<Rightarrow> bytes \<Rightarrow> bytes" where
  "sse_encode_array32 = sse_encode_bytes"

interpretation sse_array32: sse_type sse_encode_array32 sse_decode_array32 "\<lambda>bs. length bs = 32"
proof
  fix B :: bridge and bs rest assume B: "bridge_law B"
  have arr: "if length bs = 32 then from_vec_to_array B 32 bs = Inr bs
             else \<exists>e. from_vec_to_array B 32 bs = Inl e" for bs
    using B unfolding bridge_law_def by blast
  show "sse_decode_array32 B (sse_encode_array32 B bs @ rest) = Inr (bs, rest)" if "length bs = 32"
    using that arr [of bs]
    by (simp add: sse_decode_array32_def sse_encode_array32_def sse_bytes.dec_enc [OF B] fits_bytes_def)
  show "sse_reads (sse_decode_array32 B) (\<lambda>bs. length bs = 32)"
    unfolding sse_decode_array32_def
  proof (rule sse_reads_bind [OF sse_bytes.reads [OF B]])
    fix inner
    show "sse_reads (case from_vec_to_array B 32 inner of
            Inr arr \<Rightarrow> sse_return arr | Inl p \<Rightarrow> sse_panic (Bridge_panic p)) (\<lambda>bs. length bs = 32)"
      using arr [of inner] by (auto intro!: sse_reads_intros split: sum.split if_splits)
  qed
  show "sse_consumes (sse_decode_array32 B) (\<lambda>bs p. same_message p (sse_encode_array32 B bs))"
    unfolding sse_decode_array32_def sse_encode_array32_def
  proof (rule sse_bytes.consumes_bind [OF B])
    fix inner
    show "sse_consumes (case from_vec_to_array B 32 inner of
            Inr arr \<Rightarrow> sse_return arr | Inl p \<Rightarrow> sse_panic (Bridge_panic p))
         (\<lambda>bs q. \<forall>p. same_message p (sse_encode_bytes B inner) \<longrightarrow> same_message (p @ q) (sse_encode_bytes B bs))"
      using arr [of inner] by (auto intro!: sse_consumes_intros split: sum.split if_splits)
  qed
qed

definition sse_decode_digest :: "bridge \<Rightarrow> message_digest sse_decoder" where
  "sse_decode_digest B = sse_bind (sse_decode_array32 B) (\<lambda>arr. sse_return (MessageDigest arr))"

definition sse_encode_digest :: "bridge \<Rightarrow> message_digest \<Rightarrow> bytes" where
  "sse_encode_digest B d = sse_encode_array32 B (into_bytes d)"

interpretation sse_digest:
  sse_type sse_encode_digest sse_decode_digest "\<lambda>d. length (into_bytes d) = 32"
proof
  fix B :: bridge and d rest assume B: "bridge_law B"
  show "sse_decode_digest B (sse_encode_digest B d @ rest) = Inr (d, rest)"
    if "length (into_bytes d) = 32"
    using that by (simp add: sse_decode_digest_def sse_encode_digest_def sse_array32.dec_enc [OF B])
  show "sse_reads (sse_decode_digest B) (\<lambda>d. length (into_bytes d) = 32)"
    unfolding sse_decode_digest_def
    by (rule sse_reads_bind [OF sse_array32.reads [OF B]]) (simp add: sse_reads_intros)
  show "sse_consumes (sse_decode_digest B) (\<lambda>d p. same_message p (sse_encode_digest B d))"
    unfolding sse_decode_digest_def
    by (rule sse_array32.consumes_bind [OF B]) (auto intro!: sse_consumes_return simp: sse_encode_digest_def)
qed

definition sse_decode_curve_bytes :: "bridge \<Rightarrow> (curve \<times> bytes) sse_decoder" where
  "sse_decode_curve_bytes = sse_decode_pair sse_decode_curve sse_decode_bytes"

definition sse_encode_curve_bytes :: "bridge \<Rightarrow> curve \<times> bytes \<Rightarrow> bytes" where
  "sse_encode_curve_bytes = sse_encode_pair sse_encode_curve sse_encode_bytes"

interpretation sse_curve_bytes:
  sse_type sse_encode_curve_bytes sse_decode_curve_bytes "fits_pair (\<lambda>_. True) fits_bytes"
  unfolding sse_decode_curve_bytes_def sse_encode_curve_bytes_def
  by (rule pair_type [OF sse_curve.sse_type_axioms sse_bytes.sse_type_axioms])

definition sse_decode_share_envelope :: "bridge \<Rightarrow> share_envelope sse_decoder" where
  "sse_decode_share_envelope B =
     sse_bind (sse_decode_u8 B) (\<lambda>v.
     sse_bind (sse_decode_string B) (\<lambda>curve.
     sse_bind (sse_decode_string B) (\<lambda>share.
       sse_return \<lparr>se_v = v, se_curve = curve, se_share = share\<rparr>)))"

definition sse_encode_share_envelope :: "bridge \<Rightarrow> share_envelope \<Rightarrow> bytes" where
  "sse_encode_share_envelope B e =
     sse_encode_u8 B (se_v e) @ sse_encode_string B (se_curve e) @ sse_encode_string B (se_share e)"

definition fits_share_envelope :: "share_envelope \<Rightarrow> bool" where
  "fits_share_envelope e \<longleftrightarrow> fits_string (se_curve e) \<and> fits_string (se_share e)"

interpretation sse_share_envelope:
  sse_type sse_encode_share_envelope sse_decode_share_envelope fits_share_envelope
proof
  fix B :: bridge and e rest assume B: "bridge_law B"
  show "sse_decode_share_envelope B (sse_encode_share_envelope B e @ rest) = Inr (e, rest)"
    if "fits_share_envelope e"
    using that by (simp add: sse_decode_share_envelope_def sse_encode_share_envelope_def
        fits_share_envelope_def sse_u8.dec_enc [OF B] sse_string.dec_enc [OF B])
  note str = sse_reads_bind [OF sse_string.reads [OF B]]
  show "sse_reads (sse_decode_share_envelope B) fits_share_envelope"
    unfolding sse_decode_share_envelope_def
    by (rule sse_reads_bind [OF sse_u8.reads [OF B]], rule str, rule str)
       (simp add: sse_reads_intros fits_share_envelope_def)
  note str = sse_string.consumes_bind [OF B]
  show "sse_consumes (sse_decode_share_envelope B) (\<lambda>e p. same_message p (sse_encode_share_envelope B e))"
    unfolding sse_decode_share_envelope_def
    by (rule sse_u8.consumes_bind [OF B], rule str, rule str, rule sse_consumes_return)
       (auto simp: sse_encode_share_envelope_def)
qed

definition sse_decode_wire_envelope :: "bridge \<Rightarrow> wire_envelope sse_decoder" where
  "sse_decode_wire_envelope B =
     sse_bind (sse_decode_string B) (\<lambda>session_id.
     sse_bind (sse_decode_protocol B) (\<lambda>protocol.
     sse_bind (sse_decode_u8 B) (\<lambda>rnd.
     sse_bind (sse_decode_u8 B) (\<lambda>from_id.
     sse_bind (sse_decode_opt_u8 B) (\<lambda>to_id.
     sse_bind (sse_decode_string B) (\<lambda>payload_encoding.
     sse_bind (sse_decode_string B) (\<lambda>payload.
     sse_bind (sse_decode_opt_string B) (\<lambda>step.
     sse_bind (sse_decode_opt_strings B) (\<lambda>payloads.
     sse_bind (sse_decode_opt_string B) (\<lambda>crv.
       sse_return \<lparr>we_session_id = session_id, we_protocol = protocol, we_round = rnd,
         we_from_id = from_id, we_to_id = to_id, we_payload_encoding = payload_encoding,
         we_payload = payload, we_step = step, we_payloads = payloads, we_curve = crv\<rparr>))))))))))"

definition sse_encode_wire_envelope :: "bridge \<Rightarrow> wire_envelope \<Rightarrow> bytes" where
  "sse_encode_wire_envelope B e =
     sse_encode_string B (we_session_id e) @ sse_encode_protocol B (we_protocol e)
     @ sse_encode_u8 B (we_round e) @ sse_encode_u8 B (we_from_id e)
     @ sse_encode_opt_u8 B (we_to_id e) @ sse_encode_string B (we_payload_encoding e)
     @ sse_encode_string B (we_payload e) @ sse_encode_opt_string B (we_step e)
     @ sse_encode_opt_strings B (we_payloads e) @ sse_encode_opt_string B (we_curve e)"

definition fits_wire_envelope :: "wire_envelope \<Rightarrow> bool" where
  "fits_wire_envelope e \<longleftrightarrow>
     fits_string (we_session_id e) \<and> fits_string (we_payload_encoding e)
     \<and> fits_string (we_payload e) \<and> fits_opt fits_string (we_step e)
     \<and> fits_opt (fits_vec fits_string) (we_payloads e) \<and> fits_opt fits_string (we_curve e)"

interpretation sse_wire_envelope:
  sse_type sse_encode_wire_envelope sse_decode_wire_envelope fits_wire_envelope
proof
  fix B :: bridge and e rest assume B: "bridge_law B"
  show "sse_decode_wire_envelope B (sse_encode_wire_envelope B e @ rest) = Inr (e, rest)"
    if "fits_wire_envelope e"
    using that by (simp add: sse_decode_wire_envelope_def sse_encode_wire_envelope_def
        fits_wire_envelope_def sse_u8.dec_enc [OF B] sse_string.dec_enc [OF B]
        sse_protocol.dec_enc [OF B] sse_opt_u8.dec_enc [OF B] sse_opt_string.dec_enc [OF B]
        sse_opt_strings.dec_enc [OF B])
  note u8 = sse_reads_bind [OF sse_u8.reads [OF B]]
    and str = sse_reads_bind [OF sse_string.reads [OF B]]
    and opt_str = sse_reads_bind [OF sse_opt_string.reads [OF B]]
  show "sse_reads (sse_decode_wire_envelope B) fits_wire_envelope"
    unfolding sse_decode_wire_envelope_def
    by (rule str, rule sse_reads_bind [OF sse_protocol.reads [OF B]], rule u8, rule u8,
        rule sse_reads_bind [OF sse_opt_u8.reads [OF B]], rule str, rule str, rule opt_str,
        rule sse_reads_bind [OF sse_opt_strings.reads [OF B]], rule opt_str)
       (simp add: sse_reads_intros fits_wire_envelope_def)
  note u8 = sse_u8.consumes_bind [OF B] and str = sse_string.consumes_bind [OF B]
    and opt_str = sse_opt_string.consumes_bind [OF B]
  show "sse_consumes (sse_decode_wire_envelope B) (\<lambda>e p. same_message p (sse_encode_wire_envelope B e))"
    unfolding sse_decode_wire_envelope_def
    by (rule str, rule sse_protocol.consumes_bind [OF B], rule u8, rule u8,
        rule sse_opt_u8.consumes_bind [OF B], rule str, rule str, rule opt_str,
        rule sse_opt_strings.consumes_bind [OF B], rule opt_str, rule sse_consumes_return)
       (auto simp: sse_encode_wire_envelope_def intro!: same_message_append)
qed

definition sse_decode_unit :: "bridge \<Rightarrow> unit sse_decoder" where
  "sse_decode_unit B = sse_return ()"

definition sse_encode_unit :: "bridge \<Rightarrow> unit \<Rightarrow> bytes" where
  "sse_encode_unit B u = []"

interpretation sse_unit: sse_type sse_encode_unit sse_decode_unit "\<lambda>_. True"
  by unfold_locales
     (simp_all add: sse_decode_unit_def sse_encode_unit_def sse_reads_intros sse_consumes_return)

section \<open>Properties\<close>

text \<open>
  Property C35: a wire envelope crosses the interface unharmed, whatever follows it, and its bytes
  mean nothing else: two envelopes that are sent as the same bytes are the same, with the same
  rest.
\<close>

theorem wire_envelope_crosses:
  assumes "bridge_law B" and "fits_wire_envelope e"
  shows "sse_decode_wire_envelope B (sse_encode_wire_envelope B e @ rest) = Inr (e, rest)
     \<and> (\<forall>e' rest'. fits_wire_envelope e' \<longrightarrow>
          sse_encode_wire_envelope B e @ rest = sse_encode_wire_envelope B e' @ rest' \<longrightarrow>
            e = e' \<and> rest = rest')"
  using sse_wire_envelope.dec_enc [OF assms] sse_wire_envelope.unique_parse [OF assms] by blast

theorem wire_envelope_crosses_witness:
  "sse_decode_wire_envelope ex_bridge
     (sse_encode_wire_envelope ex_bridge (wire_envelope_new_batch ''ab'' Dsg 3 1 None [''x'', ''yz''] None) @ [7])
   = Inr (wire_envelope_new_batch ''ab'' Dsg 3 1 None [''x'', ''yz''] None, [7])"
proof -
  have "fits_wire_envelope (wire_envelope_new_batch ''ab'' Dsg 3 1 None [''x'', ''yz''] None)"
    by (simp add: wire_envelope_new_batch_def fits_wire_envelope_def fits_vec_def fits_string_def
        as_bytes_def byte_of_char_def)
  from wire_envelope_crosses [OF ex_bridge_law this] show ?thesis by blast
qed

text \<open>
  Property C36: what the decoders return has its type. From any bytes at all, a message digest has
  its 32 bytes, and every string of an envelope is UTF-8 and has a length an \<open>i32\<close> holds; so each
  value received can be sent on and is received as itself.
\<close>

theorem received_values_fit:
  assumes "bridge_law B"
  shows "(sse_decode_digest B bs = Inr (d, rest) \<longrightarrow>
            length (into_bytes d) = 32 \<and> suffix rest bs
            \<and> sse_decode_digest B (sse_encode_digest B d @ r) = Inr (d, r))
     \<and> (sse_decode_share_envelope B bs = Inr (s, rest) \<longrightarrow>
            fits_share_envelope s \<and> suffix rest bs
            \<and> sse_decode_share_envelope B (sse_encode_share_envelope B s @ r) = Inr (s, r))
     \<and> (sse_decode_wire_envelope B bs = Inr (e, rest) \<longrightarrow>
            fits_wire_envelope e \<and> suffix rest bs
            \<and> sse_decode_wire_envelope B (sse_encode_wire_envelope B e @ r) = Inr (e, r))"
  using sse_digest.resend [OF assms] sse_share_envelope.resend [OF assms]
    sse_wire_envelope.resend [OF assms] by blast

theorem received_values_fit_witness:
  "\<exists>d. sse_decode_digest ex_bridge (sse_encode_digest ex_bridge (MessageDigest (replicate 32 7)) @ [1]) =
         Inr (d, [1]) \<and> length (into_bytes d) = 32"
proof -
  let ?d = "MessageDigest (replicate 32 7)"
  have "sse_decode_digest ex_bridge (sse_encode_digest ex_bridge ?d @ [1]) = Inr (?d, [1])"
    by (rule sse_digest.dec_enc [OF ex_bridge_law]) simp
  with received_values_fit [OF ex_bridge_law] show ?thesis by blast
qed

text \<open>
  Property C37: the length of a list crosses as an \<open>i32\<close>. Bytes and lists of strings are received as
  sent when they have fewer than \<open>2 ^ 31\<close> elements; from there to \<open>2 ^ 32 - 1\<close> elements the
  truncated length is negative and the receiver panics before it reads an element.
\<close>

theorem list_length_limit:
  assumes "bridge_law B"
  shows "(length bs < 2 ^ 31 \<longrightarrow> sse_decode_bytes B (sse_encode_bytes B bs @ rest) = Inr (bs, rest))
     \<and> (2 ^ 31 \<le> length bs \<and> length bs < 2 ^ 32 \<longrightarrow>
          sse_decode_bytes B (sse_encode_bytes B bs @ rest) = Inl Capacity_overflow)
     \<and> (length ss < 2 ^ 31 \<and> list_all fits_string ss \<longrightarrow>
          sse_decode_strings B (sse_encode_strings B ss @ rest) = Inr (ss, rest))
     \<and> (2 ^ 31 \<le> length ss \<and> length ss < 2 ^ 32 \<longrightarrow>
          sse_decode_strings B (sse_encode_strings B ss @ rest) = Inl Capacity_overflow)"
  using sse_bytes.dec_enc [OF assms, of bs rest] sse_strings.dec_enc [OF assms, of ss rest]
    sse_u8.long_vec_panics [OF assms, of bs rest] sse_string.long_vec_panics [OF assms, of ss rest]
  by (simp add: fits_bytes_def fits_vec_def sse_decode_bytes_def sse_encode_bytes_def
      sse_decode_strings_def sse_encode_strings_def)

theorem list_length_limit_witness:
  "sse_decode_bytes ex_bridge (sse_encode_bytes ex_bridge (replicate (2 ^ 31) 0)) = Inl Capacity_overflow
   \<and> sse_decode_bytes ex_bridge (sse_encode_bytes ex_bridge [1, 2, 3]) = Inr ([1, 2, 3], [])"
proof -
  define big :: bytes where "big = replicate (2 ^ 31) 0"
  have "length big = 2 ^ 31" unfolding big_def by (rule length_replicate)
  with list_length_limit [OF ex_bridge_law, of big "[]" "[]"]
    list_length_limit [OF ex_bridge_law, of "[1, 2, 3]" "[]" "[]"]
  show ?thesis unfolding big_def [symmetric] by simp
qed

end
