(* ===== verification/Ffi.thy ===== *)
theory Ffi
  imports Runs Backup Address Sse
begin

text \<open>
  The generated glue of \<open>rust/src/frb_generated.rs\<close>: the \<open>wire__*_impl\<close> functions and the two
  dispatchers, with \<open>greet\<close> and \<open>init_app\<close> of \<open>rust/src/api/simple.rs\<close>. A request is a function
  id and the bytes of its arguments. A \<open>wire\<close> function works in two stages, as the code does: it
  reads its arguments to the end of the message, which may panic, and yields the task that the
  bridge's thread pool runs; the task makes the call and encodes its result. The specification
  \<open>answer_request\<close> makes the same calls on values; the lemmas show that a request is the
  encoding of a value or is refused.
\<close>

section \<open>Replies\<close>

text \<open>What goes back through the port: the result encoded, its error encoded, or a panic.\<close>

datatype reply = Ok_message bytes | Err_message bytes | Panic_message ffi_panic

text \<open>The texts of the crates inside an error: \<open>Display\<close> of serde's errors, \<open>Debug\<close> of a round's.\<close>

record texts =
  serde_display :: "serde_error \<Rightarrow> string"
  round1_debug :: "string + bytes \<Rightarrow> string"

text \<open>\<open>Display\<close> of the integer types.\<close>

definition digit :: "nat \<Rightarrow> char" where
  "digit n = char_of (48 + n)"

fun decimal :: "nat \<Rightarrow> string" where
  "decimal n = (if n < 10 then [digit n] else decimal (n div 10) @ [digit (n mod 10)])"

declare decimal.simps [simp del]

definition decimal_int :: "int \<Rightarrow> string" where
  "decimal_int n = (if n < 0 then CHR ''-'' # decimal (nat (- n)) else decimal (nat n))"

text \<open>The strings the crate's functions return as errors: the texts of their \<open>format!\<close> calls.\<close>

fun error_text :: "texts \<Rightarrow> error \<Rightarrow> string" where
  "error_text T (Msg s) = s"
| "error_text T (Wrap ctx e) = ctx @ '': '' @ e"
| "error_text T (SerdeError ctx e) = ctx @ '': '' @ serde_display T e"
| "error_text T (NotFound table sid) = table @ '' session not found: '' @ sid"
| "error_text T (Expired table sid) = table @ '' session expired (TTL): '' @ sid"
| "error_text T (Consumed table sid) = table @ '' session '' @ sid @ '' already consumed (SEC-01)''"
| "error_text T (UnsupportedCurve s) = ''unsupported curve: '' @ s"
| "error_text T (BadFromId b) = ''expected from_id=1 (server), got from_id='' @ decimal (unat b)"
| "error_text T (BadRound ctx rnd) = ctx @ '': '' @ decimal_int (sint rnd)"
| "error_text T (BadLength ctx n) = ctx @ decimal n"
| "error_text T (Round1Failed r) = ''keygen protocol failed on round 1: '' @ round1_debug T r"
| "error_text T (Panicked p) = p"

text \<open>
  What the glue runs in: the crates of the engine, those of the backup, the bridge, the texts.
\<close>

record 's host =
  the_crates :: "'s crates"
  the_aead :: aead_lib
  the_bridge :: bridge
  the_texts :: texts

abbreviation "host_codecs H \<equiv> the_codecs (the_crates H)"
abbreviation "host_frost H \<equiv> the_frost (the_crates H)"
abbreviation "host_dkls H \<equiv> the_dkls (the_crates H)"
abbreviation "host_scalars H \<equiv> the_scalars (the_crates H)"

text \<open>
  \<open>transform_result_sse\<close> of the result of a call whose error is a string, and of one that cannot
  fail. A panic in the call is caught by the bridge and reported.
\<close>

definition answer :: "'s host \<Rightarrow> (bridge \<Rightarrow> 'a \<Rightarrow> bytes) \<Rightarrow> 'a res \<Rightarrow> reply" where
  "answer H enc r =
     (case r of
        Inr v \<Rightarrow> Ok_message (enc (the_bridge H) v)
      | Inl (Panicked p) \<Rightarrow> Panic_message (Call_panic p)
      | Inl e \<Rightarrow> Err_message (sse_encode_string (the_bridge H) (error_text (the_texts H) e)))"

definition answer_ok :: "'s host \<Rightarrow> (bridge \<Rightarrow> 'a \<Rightarrow> bytes) \<Rightarrow> 'a \<Rightarrow> reply" where
  "answer_ok H enc v = Ok_message (enc (the_bridge H) v)"

section \<open>Tasks\<close>

text \<open>
  What the pool runs: \<open>None\<close> is a task that does not return. A function that does not touch the
  engine's state leaves it alone.
\<close>

type_synonym ffi_task = "engine \<Rightarrow> (reply \<times> engine) option"

definition pure_task :: "reply \<Rightarrow> ffi_task" where
  "pure_task r st = Some (r, st)"

definition engine_task :: "'s host \<Rightarrow> (engine \<Rightarrow> outcome) \<Rightarrow> ffi_task" where
  "engine_task H call st = map_option (\<lambda>(r, st'). (answer H sse_encode_string r, st')) (call st)"

text \<open>
  The first stage: decode the arguments, require the end of the message, yield the task. The code
  gets the message as a pointer with two lengths, \<open>rust_vec_len\<close> of the vector and \<open>data_len\<close> of the
  part that is read; here it is the list of the bytes to be read. How the bridge's deserialiser deals
  with lengths that do not belong together is in the bridge and is not modelled.
\<close>

definition wire_call :: "bridge \<Rightarrow> 'a sse_decoder \<Rightarrow> ('a \<Rightarrow> 't) \<Rightarrow> bytes \<Rightarrow> ffi_panic + 't" where
  "wire_call B args body message =
     (case args message of
        Inl p \<Rightarrow> Inl p
      | Inr (v, rest) \<Rightarrow>
          (case deserializer_end B rest of Inl e \<Rightarrow> Inl (Bridge_panic e) | Inr _ \<Rightarrow> Inr (body v)))"

context sse_type
begin

lemma wire_call_enc: "bridge_law B \<Longrightarrow> fits v \<Longrightarrow> wire_call B (dec B) body (enc B v) = Inr (body v)"
  using dec_enc [of B v "[]"]
  by (simp add: wire_call_def bridge_law_def)

lemma wire_call_Inr:
  assumes "bridge_law B" and "wire_call B (dec B) body message = Inr t"
  shows "\<exists>v. fits v \<and> same_message message (enc B v) \<and> t = body v"
proof -
  obtain v rest where v: "dec B message = Inr (v, rest)" "deserializer_end B rest = Inr ()" "t = body v"
    using assms(2) by (auto simp: wire_call_def split: sum.splits)
  then have "rest = []"
    using assms(1) unfolding bridge_law_def by (metis Inl_Inr_False)
  moreover have "fits v" using resend [OF assms(1) v(1)] by blast
  ultimately show ?thesis using v consumes [OF assms(1)] unfolding sse_consumes_def by fastforce
qed

text \<open>A message cut short, or with bytes after it, is refused.\<close>

lemma wire_call_prefix:
  assumes "bridge_law B" "enc B v = p @ q" "q \<noteq> []" "fits v"
  shows "\<exists>e. wire_call B (dec B) body p = Inl e"
  using prefix_panics [OF assms(1,4,2,3)] by (auto simp: wire_call_def)

lemma wire_call_tail:
  assumes "bridge_law B" "fits v" "tail \<noteq> []"
  shows "\<exists>e. wire_call B (dec B) body (enc B v @ tail) = Inl e"
proof -
  obtain e where "deserializer_end B tail = Inl e"
    using assms(1,3) unfolding bridge_law_def by metis
  then show ?thesis using dec_enc [OF assms(1,2), of tail] by (simp add: wire_call_def)
qed

end

section \<open>Arguments\<close>

text \<open>The argument lists of more than one argument, as tuples.\<close>

abbreviation "string_args2 \<equiv> sse_decode_pair sse_decode_string sse_decode_string"
abbreviation "string_args3 \<equiv> sse_decode_pair sse_decode_string string_args2"
abbreviation "keygen_args \<equiv>
  sse_decode_pair sse_decode_string (sse_decode_pair sse_decode_i32 sse_decode_string)"
abbreviation "recover_args \<equiv>
  sse_decode_pair sse_decode_string (sse_decode_pair sse_decode_i32 (sse_decode_pair sse_decode_string
    (sse_decode_pair sse_decode_opt_string sse_decode_opt_i32)))"
abbreviation "sign_args \<equiv>
  sse_decode_pair sse_decode_string (sse_decode_pair sse_decode_i32 (sse_decode_pair sse_decode_string
    (sse_decode_pair sse_decode_opt_string sse_decode_opt_string)))"
abbreviation "envelope_args payload_args \<equiv>
  sse_decode_pair sse_decode_string (sse_decode_pair sse_decode_protocol (sse_decode_pair sse_decode_u8
    (sse_decode_pair sse_decode_u8 (sse_decode_pair sse_decode_opt_u8
      (sse_decode_pair payload_args sse_decode_opt_string)))))"

section \<open>The wire functions\<close>

definition wire_curve_as_str ::
  "('s::comm_ring_1) host \<Rightarrow> bytes \<Rightarrow> ffi_panic + ffi_task" where
  "wire_curve_as_str H =
     wire_call (the_bridge H) (sse_decode_curve (the_bridge H))
       (\<lambda>that. let _ = curve_as_str that in pure_task (answer_ok H sse_encode_unit ()))"

definition wire_curve_parse ::
  "('s::comm_ring_1) host \<Rightarrow> bytes \<Rightarrow> ffi_panic + ffi_task" where
  "wire_curve_parse H =
     wire_call (the_bridge H) (sse_decode_string (the_bridge H))
       (\<lambda>s. pure_task (answer H sse_encode_curve (curve_parse s)))"

definition wire_decrypt_backup_share ::
  "('s::comm_ring_1) host \<Rightarrow> bytes \<Rightarrow> ffi_panic + ffi_task" where
  "wire_decrypt_backup_share H =
     wire_call (the_bridge H) (string_args2 (the_bridge H))
       (\<lambda>(encrypted_envelope, user_backup_secret). pure_task (answer H sse_encode_string
          (decrypt_backup_share (host_codecs H) (the_aead H) encrypted_envelope user_backup_secret)))"

definition wire_derive_backup_envelope ::
  "('s::comm_ring_1) host \<Rightarrow> call_ctx \<Rightarrow> bytes \<Rightarrow> ffi_panic + ffi_task" where
  "wire_derive_backup_envelope H x =
     wire_call (the_bridge H) (string_args3 (the_bridge H))
       (\<lambda>(local_encrypted_share, user_backup_secret, created_at). pure_task (answer H sse_encode_string
          (derive_backup_envelope (host_codecs H) (the_aead H) x local_encrypted_share
            user_backup_secret created_at)))"

definition wire_derive_evm_address ::
  "('s::comm_ring_1) host \<Rightarrow> bytes \<Rightarrow> ffi_panic + ffi_task" where
  "wire_derive_evm_address H =
     wire_call (the_bridge H) (sse_decode_bytes (the_bridge H))
       (\<lambda>uncompressed_pubkey. pure_task (answer H sse_encode_string
          (derive_evm_address (host_codecs H) uncompressed_pubkey)))"

definition wire_derive_solana_address ::
  "('s::comm_ring_1) host \<Rightarrow> bytes \<Rightarrow> ffi_panic + ffi_task" where
  "wire_derive_solana_address H =
     wire_call (the_bridge H) (sse_decode_bytes (the_bridge H))
       (\<lambda>verifying_key. pure_task (answer H sse_encode_string
          (derive_solana_address (host_codecs H) verifying_key)))"

definition wire_export_private_key ::
  "('s::comm_ring_1) host \<Rightarrow> bytes \<Rightarrow> ffi_panic + ffi_task" where
  "wire_export_private_key H =
     wire_call (the_bridge H) (string_args2 (the_bridge H))
       (\<lambda>(local_share, server_share_private). engine_task H
          (\<lambda>st. Some (export_private_key (host_codecs H) (host_frost H)
             (host_dkls H) (host_scalars H) local_share server_share_private st)))"

text \<open>\<open>greet\<close> is synchronous: the caller waits for the reply.\<close>

definition greet :: "string \<Rightarrow> string" where
  "greet name = ''Hello, '' @ name @ ''!''"

definition wire_greet :: "('s::comm_ring_1) host \<Rightarrow> bytes \<Rightarrow> ffi_panic + reply" where
  "wire_greet H =
     wire_call (the_bridge H) (sse_decode_string (the_bridge H))
       (\<lambda>name. answer_ok H sse_encode_string (greet name))"

text \<open>\<open>init_app\<close> installs the bridge's logging and no state of the crate.\<close>

definition wire_init_app ::
  "('s::comm_ring_1) host \<Rightarrow> bytes \<Rightarrow> ffi_panic + ffi_task" where
  "wire_init_app H =
     wire_call (the_bridge H) (sse_decode_unit (the_bridge H))
       (\<lambda>_. pure_task (answer_ok H sse_encode_unit ()))"

definition wire_ed25519_keygen ::
  "('s::comm_ring_1) host \<Rightarrow> call_ctx \<Rightarrow> bytes \<Rightarrow> ffi_panic + ffi_task" where
  "wire_ed25519_keygen H x =
     wire_call (the_bridge H) (keygen_args (the_bridge H))
       (\<lambda>(session_id, rnd, server_payload). engine_task H
          (\<lambda>st. Some (frost_keygen (host_codecs H) (host_frost H) x session_id rnd
             server_payload st)))"

definition wire_keygen ::
  "('s::comm_ring_1) host \<Rightarrow> call_ctx \<Rightarrow> bytes \<Rightarrow> ffi_panic + ffi_task" where
  "wire_keygen H x =
     wire_call (the_bridge H) (keygen_args (the_bridge H))
       (\<lambda>(session_id, rnd, server_payload). engine_task H
          (keygen (host_codecs H) (host_frost H) (host_dkls H) x session_id
             rnd server_payload))"

definition wire_message_digest_as_bytes ::
  "('s::comm_ring_1) host \<Rightarrow> bytes \<Rightarrow> ffi_panic + ffi_task" where
  "wire_message_digest_as_bytes H =
     wire_call (the_bridge H) (sse_decode_digest (the_bridge H))
       (\<lambda>that. let _ = into_bytes that in pure_task (answer_ok H sse_encode_unit ()))"

definition wire_message_digest_from_hex ::
  "('s::comm_ring_1) host \<Rightarrow> bytes \<Rightarrow> ffi_panic + ffi_task" where
  "wire_message_digest_from_hex H =
     wire_call (the_bridge H) (sse_decode_string (the_bridge H))
       (\<lambda>s. pure_task (answer H sse_encode_digest (message_digest_from_hex (host_codecs H) s)))"

definition wire_message_digest_into_bytes ::
  "('s::comm_ring_1) host \<Rightarrow> bytes \<Rightarrow> ffi_panic + ffi_task" where
  "wire_message_digest_into_bytes H =
     wire_call (the_bridge H) (sse_decode_digest (the_bridge H))
       (\<lambda>that. pure_task (answer_ok H sse_encode_array32 (into_bytes that)))"

definition wire_message_digest_new ::
  "('s::comm_ring_1) host \<Rightarrow> bytes \<Rightarrow> ffi_panic + ffi_task" where
  "wire_message_digest_new H =
     wire_call (the_bridge H) (sse_decode_array32 (the_bridge H))
       (\<lambda>bs. pure_task (answer_ok H sse_encode_digest (message_digest_new bs)))"

definition wire_ed25519_recover ::
  "('s::comm_ring_1) host \<Rightarrow> call_ctx \<Rightarrow> bytes \<Rightarrow> ffi_panic + ffi_task" where
  "wire_ed25519_recover H x =
     wire_call (the_bridge H) (recover_args (the_bridge H))
       (\<lambda>(session_id, rnd, server_payload, backup_share, current_rotation_version). engine_task H
          (\<lambda>st. Some (frost_recover (host_codecs H) (host_frost H) x session_id rnd
             server_payload backup_share current_rotation_version st)))"

definition wire_recover ::
  "('s::comm_ring_1) host \<Rightarrow> call_ctx \<Rightarrow> bytes \<Rightarrow> ffi_panic + ffi_task" where
  "wire_recover H x =
     wire_call (the_bridge H) (recover_args (the_bridge H))
       (\<lambda>(session_id, rnd, server_payload, backup_share, current_rotation_version). engine_task H
          (recover (host_codecs H) (host_frost H) (host_dkls H) x session_id
             rnd server_payload backup_share current_rotation_version))"

definition wire_share_envelope_decode ::
  "('s::comm_ring_1) host \<Rightarrow> bytes \<Rightarrow> ffi_panic + ffi_task" where
  "wire_share_envelope_decode H =
     wire_call (the_bridge H) (sse_decode_string (the_bridge H))
       (\<lambda>local_encrypted_share. pure_task (answer H sse_encode_curve_bytes
          (share_envelope_decode (host_codecs H) local_encrypted_share)))"

definition wire_share_envelope_encode ::
  "('s::comm_ring_1) host \<Rightarrow> bytes \<Rightarrow> ffi_panic + ffi_task" where
  "wire_share_envelope_encode H =
     wire_call (the_bridge H) (sse_decode_share_envelope (the_bridge H))
       (\<lambda>that. pure_task (answer H sse_encode_string (share_envelope_encode (host_codecs H) that)))"

definition wire_share_envelope_new ::
  "('s::comm_ring_1) host \<Rightarrow> bytes \<Rightarrow> ffi_panic + ffi_task" where
  "wire_share_envelope_new H =
     wire_call (the_bridge H) (sse_decode_curve_bytes (the_bridge H))
       (\<lambda>(crv, share_bytes). pure_task (answer_ok H sse_encode_share_envelope
          (share_envelope_new (host_codecs H) crv share_bytes)))"

definition wire_ed25519_sign ::
  "('s::comm_ring_1) host \<Rightarrow> call_ctx \<Rightarrow> bytes \<Rightarrow> ffi_panic + ffi_task" where
  "wire_ed25519_sign H x =
     wire_call (the_bridge H) (sign_args (the_bridge H))
       (\<lambda>(session_id, rnd, server_payload, share, message_hex). engine_task H
          (\<lambda>st. Some (frost_sign (host_codecs H) (host_frost H) x session_id rnd
             server_payload share message_hex st)))"

definition wire_sign ::
  "('s::comm_ring_1) host \<Rightarrow> call_ctx \<Rightarrow> bytes \<Rightarrow> ffi_panic + ffi_task" where
  "wire_sign H x =
     wire_call (the_bridge H) (sign_args (the_bridge H))
       (\<lambda>(session_id, rnd, server_payload, share, message_hash_hex). engine_task H
          (sign (host_codecs H) (host_frost H) (host_dkls H) x session_id
             rnd server_payload share message_hash_hex))"

definition wire_envelope_curve_or_default ::
  "('s::comm_ring_1) host \<Rightarrow> bytes \<Rightarrow> ffi_panic + ffi_task" where
  "wire_envelope_curve_or_default H =
     wire_call (the_bridge H) (sse_decode_wire_envelope (the_bridge H))
       (\<lambda>that. pure_task (answer_ok H sse_encode_curve (curve_or_default that)))"

definition wire_envelope_decode_all_payloads ::
  "('s::comm_ring_1) host \<Rightarrow> bytes \<Rightarrow> ffi_panic + ffi_task" where
  "wire_envelope_decode_all_payloads H =
     wire_call (the_bridge H) (sse_decode_wire_envelope (the_bridge H))
       (\<lambda>that. pure_task (answer H sse_encode_byte_lists
          (decode_all_payloads (host_codecs H) that)))"

definition wire_wire_envelope_new ::
  "('s::comm_ring_1) host \<Rightarrow> bytes \<Rightarrow> ffi_panic + ffi_task" where
  "wire_wire_envelope_new H =
     wire_call (the_bridge H) (envelope_args sse_decode_string (the_bridge H))
       (\<lambda>(session_id, protocol, rnd, from_id, to_id, payload, step).
          pure_task (answer_ok H sse_encode_wire_envelope
            (wire_envelope_new session_id protocol rnd from_id to_id payload step)))"

definition wire_wire_envelope_new_batch ::
  "('s::comm_ring_1) host \<Rightarrow> bytes \<Rightarrow> ffi_panic + ffi_task" where
  "wire_wire_envelope_new_batch H =
     wire_call (the_bridge H) (envelope_args sse_decode_strings (the_bridge H))
       (\<lambda>(session_id, protocol, rnd, from_id, to_id, payloads, step).
          pure_task (answer_ok H sse_encode_wire_envelope
            (wire_envelope_new_batch session_id protocol rnd from_id to_id payloads step)))"

section \<open>The dispatchers\<close>

definition ffi_dispatcher_primary ::
  "('s::comm_ring_1) host \<Rightarrow> call_ctx \<Rightarrow> i32 \<Rightarrow> bytes \<Rightarrow> ffi_panic + ffi_task" where
  "ffi_dispatcher_primary H x func_id message =
     (if func_id = 3 then wire_curve_as_str H message
      else if func_id = 4 then wire_curve_parse H message
      else if func_id = 5 then wire_decrypt_backup_share H message
      else if func_id = 6 then wire_derive_backup_envelope H x message
      else if func_id = 7 then wire_derive_evm_address H message
      else if func_id = 8 then wire_derive_solana_address H message
      else if func_id = 9 then wire_export_private_key H message
      else if func_id = 11 then wire_init_app H message
      else if func_id = 12 then wire_ed25519_keygen H x message
      else if func_id = 13 then wire_keygen H x message
      else if func_id = 14 then wire_message_digest_as_bytes H message
      else if func_id = 15 then wire_message_digest_from_hex H message
      else if func_id = 16 then wire_message_digest_into_bytes H message
      else if func_id = 17 then wire_message_digest_new H message
      else if func_id = 18 then wire_ed25519_recover H x message
      else if func_id = 19 then wire_recover H x message
      else if func_id = 20 then wire_share_envelope_decode H message
      else if func_id = 21 then wire_share_envelope_encode H message
      else if func_id = 22 then wire_share_envelope_new H message
      else if func_id = 23 then wire_ed25519_sign H x message
      else if func_id = 24 then wire_sign H x message
      else if func_id = 25 then wire_envelope_curve_or_default H message
      else if func_id = 26 then wire_envelope_decode_all_payloads H message
      else if func_id = 27 then wire_wire_envelope_new H message
      else if func_id = 28 then wire_wire_envelope_new_batch H message
      else Inl (Unreachable_function func_id))"

definition ffi_dispatcher_sync ::
  "('s::comm_ring_1) host \<Rightarrow> i32 \<Rightarrow> bytes \<Rightarrow> ffi_panic + reply" where
  "ffi_dispatcher_sync H func_id message =
     (if func_id = 10 then wire_greet H message else Inl (Unreachable_function func_id))"

text \<open>
  A request from start to end: a panic of the first stage, or of the dispatcher on an unknown id,
  ends it, and no task runs.
\<close>

definition ffi_request ::
  "('s::comm_ring_1) host \<Rightarrow> call_ctx \<Rightarrow> i32 \<Rightarrow> bytes \<Rightarrow> ffi_task" where
  "ffi_request H x func_id message st =
     (case ffi_dispatcher_primary H x func_id message of
        Inl p \<Rightarrow> Some (Panic_message p, st)
      | Inr task \<Rightarrow> task st)"

section \<open>The specification\<close>

text \<open>The calls of the API as values, and the id and message the client sends for each.\<close>

datatype request =
    Engine api_call
  | Curve_as_str curve
  | Curve_parse string
  | Decrypt_backup string string
  | Derive_backup string string string
  | Derive_evm bytes
  | Derive_solana bytes
  | Init_app
  | Digest_as_bytes message_digest
  | Digest_from_hex string
  | Digest_into_bytes message_digest
  | Digest_new bytes
  | Share_decode string
  | Share_encode share_envelope
  | Share_new curve bytes
  | Envelope_curve wire_envelope
  | Envelope_payloads wire_envelope
  | Envelope_new string protocol_type byte byte "byte option" string "string option"
  | Envelope_batch string protocol_type byte byte "byte option" "string list" "string option"

fun request_id :: "request \<Rightarrow> i32" where
  "request_id (Curve_as_str _) = 3"
| "request_id (Curve_parse _) = 4"
| "request_id (Decrypt_backup _ _) = 5"
| "request_id (Derive_backup _ _ _) = 6"
| "request_id (Derive_evm _) = 7"
| "request_id (Derive_solana _) = 8"
| "request_id (Engine (CallExport _ _)) = 9"
| "request_id Init_app = 11"
| "request_id (Engine (CallFrostKeygen _ _ _)) = 12"
| "request_id (Engine (CallKeygen _ _ _)) = 13"
| "request_id (Digest_as_bytes _) = 14"
| "request_id (Digest_from_hex _) = 15"
| "request_id (Digest_into_bytes _) = 16"
| "request_id (Digest_new _) = 17"
| "request_id (Engine (CallFrostRecover _ _ _ _ _)) = 18"
| "request_id (Engine (CallRecover _ _ _ _ _)) = 19"
| "request_id (Share_decode _) = 20"
| "request_id (Share_encode _) = 21"
| "request_id (Share_new _ _) = 22"
| "request_id (Engine (CallFrostSign _ _ _ _ _)) = 23"
| "request_id (Engine (CallSign _ _ _ _ _)) = 24"
| "request_id (Envelope_curve _) = 25"
| "request_id (Envelope_payloads _) = 26"
| "request_id (Envelope_new _ _ _ _ _ _ _) = 27"
| "request_id (Envelope_batch _ _ _ _ _ _ _) = 28"

abbreviation "string_enc2 \<equiv> sse_encode_pair sse_encode_string sse_encode_string"
abbreviation "string_enc3 \<equiv> sse_encode_pair sse_encode_string string_enc2"
abbreviation "keygen_enc \<equiv>
  sse_encode_pair sse_encode_string (sse_encode_pair sse_encode_i32 sse_encode_string)"
abbreviation "recover_enc \<equiv>
  sse_encode_pair sse_encode_string (sse_encode_pair sse_encode_i32 (sse_encode_pair sse_encode_string
    (sse_encode_pair sse_encode_opt_string sse_encode_opt_i32)))"
abbreviation "sign_enc \<equiv>
  sse_encode_pair sse_encode_string (sse_encode_pair sse_encode_i32 (sse_encode_pair sse_encode_string
    (sse_encode_pair sse_encode_opt_string sse_encode_opt_string)))"
abbreviation "envelope_enc payload_enc \<equiv>
  sse_encode_pair sse_encode_string (sse_encode_pair sse_encode_protocol (sse_encode_pair sse_encode_u8
    (sse_encode_pair sse_encode_u8 (sse_encode_pair sse_encode_opt_u8
      (sse_encode_pair payload_enc sse_encode_opt_string)))))"

fun request_message :: "bridge \<Rightarrow> request \<Rightarrow> bytes" where
  "request_message B (Curve_as_str c) = sse_encode_curve B c"
| "request_message B (Curve_parse s) = sse_encode_string B s"
| "request_message B (Decrypt_backup e p) = string_enc2 B (e, p)"
| "request_message B (Derive_backup s p t) = string_enc3 B (s, p, t)"
| "request_message B (Derive_evm k) = sse_encode_bytes B k"
| "request_message B (Derive_solana k) = sse_encode_bytes B k"
| "request_message B (Engine (CallExport l s)) = string_enc2 B (l, s)"
| "request_message B Init_app = sse_encode_unit B ()"
| "request_message B (Engine (CallFrostKeygen sid r p)) = keygen_enc B (sid, r, p)"
| "request_message B (Engine (CallKeygen sid r p)) = keygen_enc B (sid, r, p)"
| "request_message B (Digest_as_bytes d) = sse_encode_digest B d"
| "request_message B (Digest_from_hex s) = sse_encode_string B s"
| "request_message B (Digest_into_bytes d) = sse_encode_digest B d"
| "request_message B (Digest_new bs) = sse_encode_array32 B bs"
| "request_message B (Engine (CallFrostRecover sid r p sh v)) = recover_enc B (sid, r, p, sh, v)"
| "request_message B (Engine (CallRecover sid r p sh v)) = recover_enc B (sid, r, p, sh, v)"
| "request_message B (Share_decode s) = sse_encode_string B s"
| "request_message B (Share_encode e) = sse_encode_share_envelope B e"
| "request_message B (Share_new c bs) = sse_encode_curve_bytes B (c, bs)"
| "request_message B (Engine (CallFrostSign sid r p sh m)) = sign_enc B (sid, r, p, sh, m)"
| "request_message B (Engine (CallSign sid r p sh m)) = sign_enc B (sid, r, p, sh, m)"
| "request_message B (Envelope_curve e) = sse_encode_wire_envelope B e"
| "request_message B (Envelope_payloads e) = sse_encode_wire_envelope B e"
| "request_message B (Envelope_new sid pr r f t p st) =
     envelope_enc sse_encode_string B (sid, pr, r, f, t, p, st)"
| "request_message B (Envelope_batch sid pr r f t ps st) =
     envelope_enc sse_encode_strings B (sid, pr, r, f, t, ps, st)"

text \<open>The values that the client's types hold: UTF-8 strings, lists of a length below \<open>2 ^ 31\<close>.\<close>

fun fits_request :: "request \<Rightarrow> bool" where
  "fits_request (Curve_parse s) = fits_string s"
| "fits_request (Decrypt_backup e p) = (fits_string e \<and> fits_string p)"
| "fits_request (Derive_backup s p t) = (fits_string s \<and> fits_string p \<and> fits_string t)"
| "fits_request (Derive_evm k) = fits_bytes k"
| "fits_request (Derive_solana k) = fits_bytes k"
| "fits_request (Engine (CallExport l s)) = (fits_string l \<and> fits_string s)"
| "fits_request (Engine (CallFrostKeygen sid r p)) = (fits_string sid \<and> fits_string p)"
| "fits_request (Engine (CallKeygen sid r p)) = (fits_string sid \<and> fits_string p)"
| "fits_request (Digest_as_bytes d) = (length (into_bytes d) = 32)"
| "fits_request (Digest_from_hex s) = fits_string s"
| "fits_request (Digest_into_bytes d) = (length (into_bytes d) = 32)"
| "fits_request (Digest_new bs) = (length bs = 32)"
| "fits_request (Engine (CallFrostRecover sid r p sh v)) =
     (fits_string sid \<and> fits_string p \<and> fits_opt fits_string sh)"
| "fits_request (Engine (CallRecover sid r p sh v)) =
     (fits_string sid \<and> fits_string p \<and> fits_opt fits_string sh)"
| "fits_request (Share_decode s) = fits_string s"
| "fits_request (Share_encode e) = fits_share_envelope e"
| "fits_request (Share_new c bs) = fits_bytes bs"
| "fits_request (Engine (CallFrostSign sid r p sh m)) =
     (fits_string sid \<and> fits_string p \<and> fits_opt fits_string sh \<and> fits_opt fits_string m)"
| "fits_request (Engine (CallSign sid r p sh m)) =
     (fits_string sid \<and> fits_string p \<and> fits_opt fits_string sh \<and> fits_opt fits_string m)"
| "fits_request (Envelope_curve e) = fits_wire_envelope e"
| "fits_request (Envelope_payloads e) = fits_wire_envelope e"
| "fits_request (Envelope_new sid pr r f t p st) =
     (fits_string sid \<and> fits_string p \<and> fits_opt fits_string st)"
| "fits_request (Envelope_batch sid pr r f t ps st) =
     (fits_string sid \<and> fits_vec fits_string ps \<and> fits_opt fits_string st)"
| "fits_request _ = True"

text \<open>The call itself, with its result encoded.\<close>

fun answer_request :: "('s::comm_ring_1) host \<Rightarrow> call_ctx \<Rightarrow> request \<Rightarrow> ffi_task" where
  "answer_request H x (Engine c) = engine_task H (perform (the_crates H) x c)"
| "answer_request H x (Curve_as_str c) = pure_task (answer_ok H sse_encode_unit ())"
| "answer_request H x (Curve_parse s) = pure_task (answer H sse_encode_curve (curve_parse s))"
| "answer_request H x (Decrypt_backup e p) =
     pure_task (answer H sse_encode_string (decrypt_backup_share (host_codecs H) (the_aead H) e p))"
| "answer_request H x (Derive_backup s p t) =
     pure_task (answer H sse_encode_string
       (derive_backup_envelope (host_codecs H) (the_aead H) x s p t))"
| "answer_request H x (Derive_evm k) =
     pure_task (answer H sse_encode_string (derive_evm_address (host_codecs H) k))"
| "answer_request H x (Derive_solana k) =
     pure_task (answer H sse_encode_string (derive_solana_address (host_codecs H) k))"
| "answer_request H x Init_app = pure_task (answer_ok H sse_encode_unit ())"
| "answer_request H x (Digest_as_bytes d) = pure_task (answer_ok H sse_encode_unit ())"
| "answer_request H x (Digest_from_hex s) =
     pure_task (answer H sse_encode_digest (message_digest_from_hex (host_codecs H) s))"
| "answer_request H x (Digest_into_bytes d) =
     pure_task (answer_ok H sse_encode_array32 (into_bytes d))"
| "answer_request H x (Digest_new bs) =
     pure_task (answer_ok H sse_encode_digest (message_digest_new bs))"
| "answer_request H x (Share_decode s) =
     pure_task (answer H sse_encode_curve_bytes (share_envelope_decode (host_codecs H) s))"
| "answer_request H x (Share_encode e) =
     pure_task (answer H sse_encode_string (share_envelope_encode (host_codecs H) e))"
| "answer_request H x (Share_new c bs) =
     pure_task (answer_ok H sse_encode_share_envelope (share_envelope_new (host_codecs H) c bs))"
| "answer_request H x (Envelope_curve e) =
     pure_task (answer_ok H sse_encode_curve (curve_or_default e))"
| "answer_request H x (Envelope_payloads e) =
     pure_task (answer H sse_encode_byte_lists (decode_all_payloads (host_codecs H) e))"
| "answer_request H x (Envelope_new sid pr r f t p st) =
     pure_task (answer_ok H sse_encode_wire_envelope (wire_envelope_new sid pr r f t p st))"
| "answer_request H x (Envelope_batch sid pr r f t ps st) =
     pure_task (answer_ok H sse_encode_wire_envelope (wire_envelope_new_batch sid pr r f t ps st))"

section \<open>Requests and messages\<close>

text \<open>The argument lists are types of the interface as well.\<close>

lemmas string_type = sse_string.sse_type_axioms
  and opt_string_type = sse_opt_string.sse_type_axioms
  and string_type2 = pair_type [OF sse_string.sse_type_axioms sse_string.sse_type_axioms]

interpretation string_args2: sse_type string_enc2 string_args2 "fits_pair fits_string fits_string"
  by (rule string_type2)

interpretation string_args3:
  sse_type string_enc3 string_args3 "fits_pair fits_string (fits_pair fits_string fits_string)"
  by (rule pair_type [OF string_type string_type2])

interpretation keygen_args:
  sse_type keygen_enc keygen_args "fits_pair fits_string (fits_pair (\<lambda>_. True) fits_string)"
  by (rule pair_type [OF string_type pair_type [OF sse_i32.sse_type_axioms string_type]])

interpretation recover_args:
  sse_type recover_enc recover_args "fits_pair fits_string (fits_pair (\<lambda>_. True)
    (fits_pair fits_string (fits_pair (fits_opt fits_string) (fits_opt (\<lambda>_. True)))))"
  by (rule pair_type [OF string_type pair_type [OF sse_i32.sse_type_axioms
        pair_type [OF string_type pair_type [OF opt_string_type sse_opt_i32.sse_type_axioms]]]])

interpretation sign_args:
  sse_type sign_enc sign_args "fits_pair fits_string (fits_pair (\<lambda>_. True)
    (fits_pair fits_string (fits_pair (fits_opt fits_string) (fits_opt fits_string))))"
  by (rule pair_type [OF string_type pair_type [OF sse_i32.sse_type_axioms
        pair_type [OF string_type pair_type [OF opt_string_type opt_string_type]]]])

lemma envelope_args_type:
  assumes "sse_type enc dec P"
  shows "sse_type (envelope_enc enc) (envelope_args dec) (fits_pair fits_string (fits_pair (\<lambda>_. True)
    (fits_pair (\<lambda>_. True) (fits_pair (\<lambda>_. True) (fits_pair (fits_opt (\<lambda>_. True))
      (fits_pair P (fits_opt fits_string)))))))"
  by (intro pair_type assms string_type opt_string_type sse_protocol.sse_type_axioms
        sse_u8.sse_type_axioms sse_opt_u8.sse_type_axioms)

interpretation envelope_new_args: sse_type "envelope_enc sse_encode_string"
  "envelope_args sse_decode_string" "fits_pair fits_string (fits_pair (\<lambda>_. True)
    (fits_pair (\<lambda>_. True) (fits_pair (\<lambda>_. True) (fits_pair (fits_opt (\<lambda>_. True))
      (fits_pair fits_string (fits_opt fits_string))))))"
  by (rule envelope_args_type [OF string_type])

interpretation envelope_batch_args: sse_type "envelope_enc sse_encode_strings"
  "envelope_args sse_decode_strings" "fits_pair fits_string (fits_pair (\<lambda>_. True)
    (fits_pair (\<lambda>_. True) (fits_pair (\<lambda>_. True) (fits_pair (fits_opt (\<lambda>_. True))
      (fits_pair (fits_vec fits_string) (fits_opt fits_string))))))"
  by (rule envelope_args_type [OF sse_strings.sse_type_axioms])

lemmas wire_defs =
  wire_curve_as_str_def wire_curve_parse_def wire_decrypt_backup_share_def wire_derive_backup_envelope_def wire_derive_evm_address_def wire_derive_solana_address_def wire_export_private_key_def wire_init_app_def wire_ed25519_keygen_def wire_keygen_def wire_message_digest_as_bytes_def wire_message_digest_from_hex_def wire_message_digest_into_bytes_def wire_message_digest_new_def wire_ed25519_recover_def wire_recover_def wire_share_envelope_decode_def wire_share_envelope_encode_def wire_share_envelope_new_def wire_ed25519_sign_def wire_sign_def wire_envelope_curve_or_default_def wire_envelope_decode_all_payloads_def wire_wire_envelope_new_def wire_wire_envelope_new_batch_def

lemmas all_wire_call_enc =
  sse_unit.wire_call_enc sse_curve.wire_call_enc sse_string.wire_call_enc sse_bytes.wire_call_enc
  sse_digest.wire_call_enc sse_array32.wire_call_enc sse_curve_bytes.wire_call_enc
  sse_share_envelope.wire_call_enc sse_wire_envelope.wire_call_enc string_args2.wire_call_enc
  string_args3.wire_call_enc keygen_args.wire_call_enc recover_args.wire_call_enc
  sign_args.wire_call_enc envelope_new_args.wire_call_enc envelope_batch_args.wire_call_enc

lemma perform_task:
  "perform W x (CallKeygen sid rnd p) = keygen (the_codecs W) (the_frost W) (the_dkls W) x sid rnd p"
  "perform W x (CallRecover sid rnd p share rv) =
     recover (the_codecs W) (the_frost W) (the_dkls W) x sid rnd p share rv"
  "perform W x (CallSign sid rnd p share mh) =
     sign (the_codecs W) (the_frost W) (the_dkls W) x sid rnd p share mh"
  "perform W x (CallExport l s) = (\<lambda>st. Some (export_private_key (the_codecs W) (the_frost W) (the_dkls W)
     (the_scalars W) l s st))"
  "perform W x (CallFrostKeygen sid rnd p) =
     (\<lambda>st. Some (frost_keygen (the_codecs W) (the_frost W) x sid rnd p st))"
  "perform W x (CallFrostRecover sid rnd p share rv) =
     (\<lambda>st. Some (frost_recover (the_codecs W) (the_frost W) x sid rnd p share rv st))"
  "perform W x (CallFrostSign sid rnd p share mh) =
     (\<lambda>st. Some (frost_sign (the_codecs W) (the_frost W) x sid rnd p share mh st))"
  by (simp_all add: fun_eq_iff)

lemma dispatch_enc:
  assumes "bridge_law (the_bridge H)" and "fits_request r"
  shows "ffi_dispatcher_primary H x (request_id r) (request_message (the_bridge H) r) =
           Inr (answer_request H x r)"
proof (cases r)
  case (Engine c)
  with assms show ?thesis
    by (cases c) (simp_all add: ffi_dispatcher_primary_def wire_defs all_wire_call_enc perform_task)
qed (use assms in \<open>simp_all add: ffi_dispatcher_primary_def wire_defs all_wire_call_enc\<close>)

text \<open>
  The other way: a message the dispatcher takes under an id is one of these calls, with that id and
  with these arguments.
\<close>

definition request_task :: "('s::comm_ring_1) host \<Rightarrow> call_ctx \<Rightarrow> i32 \<Rightarrow> bytes \<Rightarrow> ffi_task \<Rightarrow> bool" where
  "request_task H x f m t \<longleftrightarrow> (\<exists>r. fits_request r \<and> request_id r = f
     \<and> same_message m (request_message (the_bridge H) r) \<and> t = answer_request H x r)"

lemma request_task_answer:
  "fits_request r \<Longrightarrow> same_message m (request_message (the_bridge H) r) \<Longrightarrow>
     request_task H x (request_id r) m (answer_request H x r)"
  by (auto simp: request_task_def)

lemmas request_simps = perform_task answer_request.simps fits_request.simps request_id.simps request_message.simps simp_thms

lemmas request_tasks =
  request_task_answer [where r = "Curve_as_str c" for c, simplified request_simps]
  request_task_answer [where r = "Curve_parse s" for s, simplified request_simps]
  request_task_answer [where r = "Decrypt_backup e p" for e p, simplified request_simps]
  request_task_answer [where r = "Derive_backup s p d" for s p d, simplified request_simps]
  request_task_answer [where r = "Derive_evm k" for k, simplified request_simps]
  request_task_answer [where r = "Derive_solana k" for k, simplified request_simps]
  request_task_answer [where r = "Engine (CallExport l s)" for l s, simplified request_simps]
  request_task_answer [where r = "Init_app", simplified request_simps]
  request_task_answer [where r = "Engine (CallFrostKeygen sid rnd p)" for sid rnd p, simplified request_simps]
  request_task_answer [where r = "Engine (CallKeygen sid rnd p)" for sid rnd p, simplified request_simps]
  request_task_answer [where r = "Digest_as_bytes d" for d, simplified request_simps]
  request_task_answer [where r = "Digest_from_hex s" for s, simplified request_simps]
  request_task_answer [where r = "Digest_into_bytes d" for d, simplified request_simps]
  request_task_answer [where r = "Digest_new bs" for bs, simplified request_simps]
  request_task_answer [where r = "Engine (CallFrostRecover sid rnd p sh v)" for sid rnd p sh v, simplified request_simps]
  request_task_answer [where r = "Engine (CallRecover sid rnd p sh v)" for sid rnd p sh v, simplified request_simps]
  request_task_answer [where r = "Share_decode s" for s, simplified request_simps]
  request_task_answer [where r = "Share_encode e" for e, simplified request_simps]
  request_task_answer [where r = "Share_new c bs" for c bs, simplified request_simps]
  request_task_answer [where r = "Engine (CallFrostSign sid rnd p sh mh)" for sid rnd p sh mh, simplified request_simps]
  request_task_answer [where r = "Engine (CallSign sid rnd p sh mh)" for sid rnd p sh mh, simplified request_simps]
  request_task_answer [where r = "Envelope_curve e" for e, simplified request_simps]
  request_task_answer [where r = "Envelope_payloads e" for e, simplified request_simps]
  request_task_answer [where r = "Envelope_new sid pr rnd f t p st" for sid pr rnd f t p st, simplified request_simps]
  request_task_answer [where r = "Envelope_batch sid pr rnd f t ps st" for sid pr rnd f t ps st, simplified request_simps]

context sse_type
begin

lemma wire_call_task:
  assumes "bridge_law B" and "wire_call B (dec B) body message = Inr t"
    and "\<And>v. fits v \<Longrightarrow> same_message message (enc B v) \<Longrightarrow> request_task H x f message (body v)"
  shows "request_task H x f message t"
  using wire_call_Inr [OF assms(1,2)] assms(3) by blast

end

lemmas all_wire_call_task =
  sse_unit.wire_call_task sse_curve.wire_call_task sse_string.wire_call_task
  sse_bytes.wire_call_task sse_digest.wire_call_task sse_array32.wire_call_task
  sse_curve_bytes.wire_call_task sse_share_envelope.wire_call_task
  sse_wire_envelope.wire_call_task string_args2.wire_call_task string_args3.wire_call_task
  keygen_args.wire_call_task recover_args.wire_call_task sign_args.wire_call_task
  envelope_new_args.wire_call_task envelope_batch_args.wire_call_task

lemma wire_task:
  assumes "bridge_law (the_bridge H)"
  shows "wire_curve_as_str H m = Inr t \<Longrightarrow> request_task H x 3 m t"
    "wire_curve_parse H m = Inr t \<Longrightarrow> request_task H x 4 m t"
    "wire_decrypt_backup_share H m = Inr t \<Longrightarrow> request_task H x 5 m t"
    "wire_derive_backup_envelope H x m = Inr t \<Longrightarrow> request_task H x 6 m t"
    "wire_derive_evm_address H m = Inr t \<Longrightarrow> request_task H x 7 m t"
    "wire_derive_solana_address H m = Inr t \<Longrightarrow> request_task H x 8 m t"
    "wire_export_private_key H m = Inr t \<Longrightarrow> request_task H x 9 m t"
    "wire_init_app H m = Inr t \<Longrightarrow> request_task H x 11 m t"
    "wire_ed25519_keygen H x m = Inr t \<Longrightarrow> request_task H x 12 m t"
    "wire_keygen H x m = Inr t \<Longrightarrow> request_task H x 13 m t"
    "wire_message_digest_as_bytes H m = Inr t \<Longrightarrow> request_task H x 14 m t"
    "wire_message_digest_from_hex H m = Inr t \<Longrightarrow> request_task H x 15 m t"
    "wire_message_digest_into_bytes H m = Inr t \<Longrightarrow> request_task H x 16 m t"
    "wire_message_digest_new H m = Inr t \<Longrightarrow> request_task H x 17 m t"
    "wire_ed25519_recover H x m = Inr t \<Longrightarrow> request_task H x 18 m t"
    "wire_recover H x m = Inr t \<Longrightarrow> request_task H x 19 m t"
    "wire_share_envelope_decode H m = Inr t \<Longrightarrow> request_task H x 20 m t"
    "wire_share_envelope_encode H m = Inr t \<Longrightarrow> request_task H x 21 m t"
    "wire_share_envelope_new H m = Inr t \<Longrightarrow> request_task H x 22 m t"
    "wire_ed25519_sign H x m = Inr t \<Longrightarrow> request_task H x 23 m t"
    "wire_sign H x m = Inr t \<Longrightarrow> request_task H x 24 m t"
    "wire_envelope_curve_or_default H m = Inr t \<Longrightarrow> request_task H x 25 m t"
    "wire_envelope_decode_all_payloads H m = Inr t \<Longrightarrow> request_task H x 26 m t"
    "wire_wire_envelope_new H m = Inr t \<Longrightarrow> request_task H x 27 m t"
    "wire_wire_envelope_new_batch H m = Inr t \<Longrightarrow> request_task H x 28 m t"
  unfolding wire_defs
  by (erule all_wire_call_task [OF assms], (clarsimp simp: Let_def)?, (rule request_tasks; simp))+

lemma dispatch_task:
  assumes "bridge_law (the_bridge H)" and "ffi_dispatcher_primary H x f m = Inr t"
  shows "request_task H x f m t"
  using assms(2) unfolding ffi_dispatcher_primary_def
  by (auto split: if_splits dest: wire_task [OF assms(1), where x = x])

text \<open>A message cut short, or one with bytes after its arguments, is refused.\<close>

lemmas all_wire_call_prefix =
  sse_curve.wire_call_prefix sse_string.wire_call_prefix sse_bytes.wire_call_prefix
  sse_digest.wire_call_prefix sse_array32.wire_call_prefix sse_curve_bytes.wire_call_prefix
  sse_share_envelope.wire_call_prefix sse_wire_envelope.wire_call_prefix
  string_args2.wire_call_prefix string_args3.wire_call_prefix keygen_args.wire_call_prefix
  recover_args.wire_call_prefix sign_args.wire_call_prefix envelope_new_args.wire_call_prefix
  envelope_batch_args.wire_call_prefix

lemmas all_wire_call_tail =
  sse_unit.wire_call_tail sse_curve.wire_call_tail sse_string.wire_call_tail
  sse_bytes.wire_call_tail sse_digest.wire_call_tail sse_array32.wire_call_tail
  sse_curve_bytes.wire_call_tail sse_share_envelope.wire_call_tail
  sse_wire_envelope.wire_call_tail string_args2.wire_call_tail string_args3.wire_call_tail
  keygen_args.wire_call_tail recover_args.wire_call_tail sign_args.wire_call_tail
  envelope_new_args.wire_call_tail envelope_batch_args.wire_call_tail

lemma dispatch_prefix:
  assumes "bridge_law (the_bridge H)" "fits_request r"
    and msg: "request_message (the_bridge H) r = m @ q" "q \<noteq> []"
  shows "\<exists>p. ffi_dispatcher_primary H x (request_id r) m = Inl p"
proof -
  note refused = all_wire_call_prefix [OF assms(1)]
  show ?thesis
  proof (cases r)
    case (Engine c)
    with assms show ?thesis
      by (cases c; simp add: ffi_dispatcher_primary_def wire_defs) (erule (1) refused, simp)+
  next
    case Init_app
    with msg show ?thesis by (simp add: sse_encode_unit_def)
  qed (insert assms, simp_all add: ffi_dispatcher_primary_def wire_defs,
       (erule (1) refused, simp)+)
qed

lemma dispatch_tail:
  assumes "bridge_law (the_bridge H)" "fits_request r" "tail \<noteq> []"
  shows "\<exists>p. ffi_dispatcher_primary H x (request_id r) (request_message (the_bridge H) r @ tail) = Inl p"
proof (cases r)
  case (Engine c)
  with assms show ?thesis
    by (cases c) (simp_all add: ffi_dispatcher_primary_def wire_defs all_wire_call_tail)
qed (use assms in \<open>simp_all add: ffi_dispatcher_primary_def wire_defs all_wire_call_tail\<close>)

section \<open>Runs over messages\<close>

text \<open>
  The process as the client sees it: requests with any id and any bytes, in any context, and
  the moves of the protocol tasks between them.
\<close>

inductive ffi_run :: "('s::comm_ring_1) host \<Rightarrow> engine \<Rightarrow> bool"
  for H :: "('s::comm_ring_1) host" where
  Ffi_start: "ffi_run H init_engine"
| Ffi_request: "ffi_run H st \<Longrightarrow> ffi_request H x f m st = Some (rep, st') \<Longrightarrow> ffi_run H st'"
| Ffi_keygen_task: "ffi_run H st \<Longrightarrow> keygen_sessions st sid = Some s \<Longrightarrow>
     ffi_run H (insert_keygen_session sid (s\<lparr>ks_link := task_step (ks_link s)\<rparr>) st)"
| Ffi_recovery_task: "ffi_run H st \<Longrightarrow> recovery_sessions st sid = Some s \<Longrightarrow>
     ffi_run H (insert_recovery_session sid (s\<lparr>rs_link := task_step (rs_link s)\<rparr>) st)"
| Ffi_sign_task: "ffi_run H st \<Longrightarrow> sign_sessions st sid = Some s \<Longrightarrow>
     ffi_run H (insert_sign_session sid (s\<lparr>ss_link := task_step (ss_link s)\<rparr>) st)"

lemma answer_request_step:
  assumes "answer_request H x r st = Some (rep, st')"
  shows "st' = st \<or> (\<exists>c res. r = Engine c \<and> perform (the_crates H) x c st = Some (res, st')
                      \<and> rep = answer H sse_encode_string res)"
proof (cases r)
  case (Engine c)
  with assms show ?thesis by (auto simp: engine_task_def)
qed (use assms in \<open>simp_all add: pure_task_def\<close>)

lemma ffi_request_step:
  assumes "bridge_law (the_bridge H)" and "ffi_request H x f m st = Some (rep, st')"
  shows "st' = st \<or> (\<exists>c res. perform (the_crates H) x c st = Some (res, st'))"
proof (cases "ffi_dispatcher_primary H x f m")
  case (Inl p)
  with assms(2) show ?thesis by (simp add: ffi_request_def)
next
  case (Inr t)
  from dispatch_task [OF assms(1) Inr] obtain r where "t = answer_request H x r"
    by (auto simp: request_task_def)
  with Inr assms(2) answer_request_step [of H x r st rep st'] show ?thesis
    by (auto simp: ffi_request_def)
qed

lemma ffi_run_is_run:
  assumes "bridge_law (the_bridge H)" and "ffi_run H st"
  shows "\<exists>i u. run (the_crates H) i u st"
  using assms(2)
proof (induction rule: ffi_run.induct)
  case (Ffi_request st x f m rep st')
  with ffi_request_step [OF assms(1) Ffi_request.hyps(2)] show ?case by (auto intro: run.Call)
qed (auto intro: run.intros)

section \<open>An example\<close>

definition ex_crates :: "5 crates" where
  "ex_crates = \<lparr>the_codecs = ex_codecs, the_frost = ex_frost, the_dkls = ex_dkls, the_scalars = ex_scalars\<rparr>"

lemma ex_crates_simps [simp]:
  "the_codecs ex_crates = ex_codecs" "the_frost ex_crates = ex_frost" "the_dkls ex_crates = ex_dkls"
  "the_scalars ex_crates = ex_scalars"
  by (simp_all add: ex_crates_def)

definition ex_host :: "5 host" where
  "ex_host =
     \<lparr>the_crates = ex_crates,
      the_aead = ex_aead, the_bridge = ex_bridge,
      the_texts = \<lparr>serde_display = (\<lambda>_. ''invalid JSON''), round1_debug = (\<lambda>_. ''Err'')\<rparr>\<rparr>"

lemma ex_host_simps [simp]: "the_crates ex_host = ex_crates" "the_bridge ex_host = ex_bridge"
  by (simp_all add: ex_host_def)

lemma ex_host_law: "bridge_law (the_bridge ex_host)"
  by (simp add: ex_bridge_law)

lemma fits_string_ascii:
  "length s < 2 ^ 31 \<Longrightarrow> list_all (\<lambda>c. byte_of_char c < 0x80) s \<Longrightarrow> fits_string s"
  by (auto simp: fits_string_def as_bytes_def list_all_iff intro!: utf8_valid_ascii)

lemma ex_ascii_wire_text:
  obtains p where "fits_string p" and "from_str ex_codecs dec_wire_envelope p = Inr (frost_env ''k'' Dkg 1 ''m'')"
proof -
  let ?env = "frost_env ''k'' Dkg 1 ''m''"
  obtain p where p: "to_json_string ex_codecs (wire_envelope_json ?env) = Inr p"
    "from_str ex_codecs dec_wire_envelope p = Inr ?env"
    using wire_envelope.text_roundtrip [OF ex_json_law] by blast
  then have "p = put_json (wire_envelope_json ?env)"
    by (simp add: to_json_string_def ex_codecs_def)
  moreover have "list_all (\<lambda>c. byte_of_char c < 0x80) (put_json (wire_envelope_json ?env))
      \<and> length (put_json (wire_envelope_json ?env)) < 10000"
    by code_simp
  ultimately have "fits_string p" by (intro fits_string_ascii) simp_all
  from this p(2) show thesis by (rule that)
qed

section \<open>Properties\<close>

text \<open>
  Property C13: the foreign function interface is transparent. The id and the encoded arguments
  of any call lead the dispatcher to exactly that call, on every one of its functions: what the
  call does to the engine's state is done, and its result, or its error's text, is encoded as
  the reply.
\<close>

theorem ffi_makes_the_call:
  assumes "bridge_law (the_bridge H)" and "fits_request r"
  shows "ffi_request H x (request_id r) (request_message (the_bridge H) r) st = answer_request H x r st"
  by (simp add: ffi_request_def dispatch_enc [OF assms])

theorem ffi_makes_the_call_witness:
  "ffi_request ex_host (ex_ctx []) 13 (request_message ex_bridge (Engine (CallKeygen ''ab'' 1 ''{}'')))
       init_engine =
     answer_request ex_host (ex_ctx []) (Engine (CallKeygen ''ab'' 1 ''{}'')) init_engine"
proof -
  have "fits_request (Engine (CallKeygen ''ab'' 1 ''{}''))"
    by (simp add: fits_string_ascii byte_of_char_def)
  from ffi_makes_the_call [OF ex_host_law this, of "ex_ctx []" init_engine] show ?thesis
    by simp
qed

text \<open>
  A damaged request is refused before anything runs. When the message of a call is
  cut short or followed by more bytes, or when no function has the id, the request ends in a
  panic and the engine's state is the one before.
\<close>

lemma ffi_refuses_damaged:
  assumes "bridge_law (the_bridge H)" and "fits_request r"
    and "request_message (the_bridge H) r = m @ q" "q \<noteq> []"
    and "f < 3 \<or> f = 10 \<or> 28 < f"
  shows "(\<exists>p. ffi_request H x (request_id r) m st = Some (Panic_message p, st))
       \<and> (\<exists>p. ffi_request H x (request_id r) (request_message (the_bridge H) r @ q) st =
                Some (Panic_message p, st))
       \<and> ffi_request H x f any st = Some (Panic_message (Unreachable_function f), st)"
proof (intro conjI)
  show "\<exists>p. ffi_request H x (request_id r) m st = Some (Panic_message p, st)"
    using dispatch_prefix [OF assms(1-4), of x] by (auto simp: ffi_request_def)
  show "\<exists>p. ffi_request H x (request_id r) (request_message (the_bridge H) r @ q) st =
                Some (Panic_message p, st)"
    using dispatch_tail [OF assms(1,2,4), of x] by (auto simp: ffi_request_def)
  show "ffi_request H x f any st = Some (Panic_message (Unreachable_function f), st)"
    using assms(5) by (auto simp: ffi_request_def ffi_dispatcher_primary_def)
qed

lemma ffi_refuses_damaged_witness:
  "\<exists>p. ffi_request ex_host (ex_ctx []) 25 [] init_engine = Some (Panic_message p, init_engine)"
proof -
  let ?r = "Envelope_curve (wire_envelope_new ''ab'' Dsg 1 1 None ''m'' None)"
  have fits: "fits_request ?r"
    by (simp add: wire_envelope_new_def fits_wire_envelope_def fits_string_ascii byte_of_char_def)
  let ?m = "request_message (the_bridge ex_host) ?r"
  have "?m \<noteq> []"
    by (simp add: sse_encode_wire_envelope_def sse_encode_string_def sse_encode_bytes_def
        sse_encode_vec_def sse_encode_i32_def ex_bridge_def i32_le_bytes_def)
  from ffi_refuses_damaged [OF ex_host_law fits _ this, of "[]" 10 "ex_ctx []" init_engine]
  show ?thesis by simp
qed

text \<open>
  Property C12: the dispatcher does nothing but calls. Whatever id and bytes reach it, either the bytes
  are the client's message of a call with that id, except that a byte other than 0 may stand where the
  client writes a 1 (as in the tag of an option), and the request does this call with these
  arguments and encodes its answer; or the request is refused with a panic,
  nothing has run, and the bytes are not the message of any call with that id.
\<close>

theorem ffi_messages_are_calls:
  assumes "bridge_law (the_bridge H)"
  shows "(\<exists>r. fits_request r \<and> request_id r = f \<and> same_message m (request_message (the_bridge H) r)
            \<and> ffi_request H x f m st = answer_request H x r st)
       \<or> (\<exists>p. ffi_request H x f m st = Some (Panic_message p, st))
            \<and> (\<nexists>r. fits_request r \<and> request_id r = f \<and> request_message (the_bridge H) r = m)"
proof (cases "ffi_dispatcher_primary H x f m")
  case (Inl p)
  then have "\<nexists>r. fits_request r \<and> request_id r = f \<and> request_message (the_bridge H) r = m"
    using dispatch_enc [OF assms, of _ x] by force
  with Inl show ?thesis by (simp add: ffi_request_def)
next
  case (Inr t)
  with dispatch_task [OF assms Inr] show ?thesis by (auto simp: request_task_def ffi_request_def)
qed

lemma no_request_10: "request_id r \<noteq> 10"
proof (cases r)
  case (Engine c)
  then show ?thesis by (cases c) simp_all
qed simp_all

theorem ffi_messages_are_calls_witness:
  "(\<exists>p. ffi_request ex_host (ex_ctx []) 10 [0] init_engine = Some (Panic_message p, init_engine))
   \<and> (let m = request_message ex_bridge (Engine (CallKeygen ''ab'' 1 ''{}'')) in
       \<exists>r. fits_request r \<and> request_id r = 13 \<and> same_message m (request_message ex_bridge r)
         \<and> ffi_request ex_host (ex_ctx []) 13 m init_engine = answer_request ex_host (ex_ctx []) r init_engine)"
proof -
  note law = ffi_messages_are_calls [OF ex_host_law, of _ _ "ex_ctx []" init_engine]
  let ?r = "Engine (CallKeygen ''ab'' 1 ''{}'')"
  have "fits_request ?r" "request_id ?r = 13" by (simp_all add: fits_string_ascii byte_of_char_def)
  with law [of 13 "request_message ex_bridge ?r"] law [of 10 "[0]"] no_request_10 show ?thesis
    unfolding Let_def ex_host_simps by blast
qed

text \<open>
  Whatever bytes reach the dispatchers, the engine stays sound. Along every run of
  requests with any ids and any messages, between which the protocol tasks move as they like,
  the state is one that a run of API calls reaches: the invariant of the sessions holds, and
  every pair of nonces spent was issued, each at most as often.
\<close>

lemma ffi_bytes_are_safe:
  assumes "bridge_law (the_bridge H)" and "ffi_run H st"
  shows "engine_ok st \<and> (\<exists>i u. run (the_crates H) i u st \<and> mset u + live_nonces st \<subseteq># mset i)"
proof -
  obtain i u where "run (the_crates H) i u st"
    using ffi_run_is_run [OF assms] by blast
  with run_ok run_nonces show ?thesis by blast
qed

lemma ffi_bytes_are_safe_witness:
  "\<exists>p rep st. ffi_request ex_host (ex_ctx []) 12
       (request_message ex_bridge (Engine (CallFrostKeygen ''k'' 1 p))) init_engine =
         Some (Ok_message rep, st)
     \<and> frost_keygen_sessions st ''k'' \<noteq> None \<and> engine_ok st"
proof -
  obtain p where fits: "fits_string p"
    and p: "from_str ex_codecs dec_wire_envelope p = Inr (frost_env ''k'' Dkg 1 ''m'')"
    by (rule ex_ascii_wire_text)
  obtain r where r: "frost_reply ex_codecs ''k'' Dkg 1 ''k1'' = Inr r"
    using frost_reply_reads [OF ex_json_law] by blast
  let ?c = "Engine (CallFrostKeygen ''k'' 1 p)" and ?B = "the_bridge ex_host"
  obtain st where call: "perform ex_crates (ex_ctx []) (CallFrostKeygen ''k'' 1 p) init_engine = Some (Inr r, st)"
    and st: "frost_keygen_sessions st ''k'' \<noteq> None"
    using p r parse_wire_Inr [OF p]
    by (simp add: frost_keygen_def frost_keygen_round1_def session_defs ex_frost_def)
  have "fits_request ?c" using fits by (simp add: fits_string_ascii byte_of_char_def)
  from dispatch_enc [OF ex_host_law this, of "ex_ctx []"] call
  have req: "ffi_request ex_host (ex_ctx []) 12 (request_message ?B ?c) init_engine =
      Some (Ok_message (sse_encode_string ?B r), st)"
    by (simp add: ffi_request_def engine_task_def answer_def)
  from ffi_bytes_are_safe [OF ex_host_law ffi_run.Ffi_request [OF ffi_run.Ffi_start this]]
  show ?thesis using req st by auto
qed

text \<open>
  The accessors that return a reference answer nothing. \<open>as_bytes\<close> of a digest and
  \<open>as_str\<close> of a curve are called, but the reply carries no bytes, the same for every value;
  \<open>into_bytes\<close> answers the 32 bytes of the digest.
\<close>

lemma accessors_answer_nothing:
  assumes "bridge_law (the_bridge H)" and "length (into_bytes d) = 32"
  shows "ffi_request H x 14 (sse_encode_digest (the_bridge H) d) st = Some (Ok_message [], st)
       \<and> ffi_request H x 3 (sse_encode_curve (the_bridge H) c) st = Some (Ok_message [], st)
       \<and> (\<exists>reply. ffi_request H x 16 (sse_encode_digest (the_bridge H) d) st = Some (Ok_message reply, st)
            \<and> sse_decode_array32 (the_bridge H) reply = Inr (into_bytes d, []))"
  using dispatch_enc [OF assms(1), of "Digest_as_bytes d" x] dispatch_enc [OF assms(1), of "Curve_as_str c" x]
    dispatch_enc [OF assms(1), of "Digest_into_bytes d" x] sse_array32.dec_enc [OF assms, of "[]"] assms(2)
  by (simp add: ffi_request_def pure_task_def answer_ok_def sse_encode_unit_def)

lemma accessors_answer_nothing_witness:
  "ffi_request ex_host (ex_ctx []) 14 (sse_encode_digest ex_bridge (MessageDigest (replicate 32 7)))
       init_engine = Some (Ok_message [], init_engine)"
  using accessors_answer_nothing [OF ex_host_law, of "MessageDigest (replicate 32 7)"] by simp

end
