(* ===== verification/Threads.thy ===== *)
theory Threads
  imports Runs
begin

text \<open>
  The ed25519 calls as threads. The bridge runs the calls in a pool of threads, so two calls may
  be under way at once, and what is atomic is only what happens under one lock. Here the rounds of
  \<open>engine_ed25519::keygen\<close>, \<open>sign\<close> and \<open>recover\<close> and the dispatch of \<open>mpc_engine\<close> to them are
  written a second time, as threads that go from one critical section to the next. A thread that
  runs alone is the call of \<open>Frost_Engine\<close>. At the end are the two sections of the first round of a
  secp256k1 signature, which reads the same registry.
\<close>

section \<open>Threads\<close>

text \<open>
  \<open>Locked k g\<close> takes a lock: what it reads decides how the thread goes on, and \<open>g\<close> is what it
  writes. \<open>Issued\<close> and \<open>Used\<close> mark where a token is made and where it is used up. A token is what
  the library made in one round and takes in a later one: the nonces of a signing session, the
  library's state of a keygen or recovery session.
\<close>

datatype token =
    Tok_nonces signing_nonces
  | Tok_keygen keygen_state
  | Tok_recovery recovery_state

datatype thread =
    Done "string res"
  | Locked "engine \<Rightarrow> thread" "engine \<Rightarrow> engine"
  | Issued token thread
  | Used token thread

definition locked :: "(engine \<Rightarrow> 'a \<times> engine) \<Rightarrow> ('a \<Rightarrow> thread) \<Rightarrow> thread" where
  "locked section k = Locked (\<lambda>st. k (fst (section st))) (\<lambda>st. snd (section st))"

definition propagate :: "'a res \<Rightarrow> ('a \<Rightarrow> thread) \<Rightarrow> thread" where
  "propagate r k = (case r of Inl e \<Rightarrow> Done (Inl e) | Inr v \<Rightarrow> k v)"

primrec run_alone :: "thread \<Rightarrow> engine \<Rightarrow> string res \<times> engine" where
  "run_alone (Done r) st = (r, st)"
| "run_alone (Locked k g) st = run_alone (k st) (g st)"
| "run_alone (Issued n t) st = run_alone t st"
| "run_alone (Used n t) st = run_alone t st"

lemma run_alone_simps [simp]:
  "run_alone (locked section k) st = (case section st of (x, st') \<Rightarrow> run_alone (k x) st')"
  "run_alone (propagate r k) st = question r st (\<lambda>v. run_alone (k v) st)"
  by (simp_all add: locked_def propagate_def split: prod.split sum.split)

section \<open>Keygen as threads\<close>

definition frost_keygen_round1_thread ::
  "codecs \<Rightarrow> frost_lib \<Rightarrow> call_ctx \<Rightarrow> string \<Rightarrow> string \<Rightarrow> thread" where
  "frost_keygen_round1_thread C F x session_id server_payload =
     propagate (parse_wire C server_payload) (\<lambda>env.
     propagate (wrap_err ''keygen_part1'' (lib_keygen_part1 F 1 (cc_entropy x))) (\<lambda>(lib_state, client_inner).
     Issued (Tok_keygen lib_state) (
     locked (\<lambda>st. ((), insert_frost_keygen_session session_id
               \<lparr>fk_created_at = cc_now x, fk_lib_state = lib_state,
                fk_pending_server_inner = we_payload env\<rparr> st)) (\<lambda>_.
       Done (frost_reply C session_id Dkg 1 client_inner)))))"

definition frost_keygen_round2_thread ::
  "codecs \<Rightarrow> frost_lib \<Rightarrow> string \<Rightarrow> string \<Rightarrow> thread" where
  "frost_keygen_round2_thread C F session_id server_payload =
     propagate (parse_wire C server_payload) (\<lambda>env.
     locked (remove_frost_keygen_session session_id) (\<lambda>taken.
     propagate (ok_or taken (NotFound ''ed25519 keygen'' session_id)) (\<lambda>session.
     Used (Tok_keygen (fk_lib_state session)) (
     propagate (wrap_err ''keygen_part2''
                  (lib_keygen_part2 F (fk_lib_state session) (fk_pending_server_inner session)))
       (\<lambda>(new_lib_state, client_inner).
     Issued (Tok_keygen new_lib_state) (
     locked (\<lambda>st. ((), insert_frost_keygen_session session_id
               \<lparr>fk_created_at = fk_created_at session, fk_lib_state = new_lib_state,
                fk_pending_server_inner = we_payload env\<rparr> st)) (\<lambda>_.
       Done (frost_reply C session_id Dkg 2 client_inner))))))))"

definition frost_keygen_finalize_thread :: "codecs \<Rightarrow> frost_lib \<Rightarrow> string \<Rightarrow> thread" where
  "frost_keygen_finalize_thread C F session_id =
     locked (remove_frost_keygen_session session_id) (\<lambda>taken.
     propagate (ok_or taken (NotFound ''ed25519 keygen'' session_id)) (\<lambda>session.
     Used (Tok_keygen (fk_lib_state session)) (
     propagate (wrap_err ''keygen_part3''
                  (lib_keygen_part3 F (fk_lib_state session) (fk_pending_server_inner session)))
       (\<lambda>(key_package, public_key_package).
     propagate (verifying_key_bytes F public_key_package) (\<lambda>vk_bytes.
     propagate (derive_solana_address C vk_bytes) (\<lambda>address.
     propagate (build_share_envelope F key_package public_key_package) (\<lambda>local_encrypted_share.
     propagate (to_json_string C (keygen_completed_json
                  \<lparr>kc_mpc_key_id = session_id, kc_address = address,
                   kc_public_key = hex_encode C vk_bytes, kc_curve = ''ed25519'', kc_threshold = 2,
                   kc_key_ref = session_id, kc_backup_state = ''none'', kc_rotation_version = 1,
                   kc_local_encrypted_share = local_encrypted_share\<rparr>)) (\<lambda>completed_json.
       Done (frost_make_completed C 0 completed_json)))))))))"

definition frost_keygen_thread ::
  "codecs \<Rightarrow> frost_lib \<Rightarrow> call_ctx \<Rightarrow> string \<Rightarrow> i32 \<Rightarrow> string \<Rightarrow> thread" where
  "frost_keygen_thread C F x session_id rnd server_payload =
     (if rnd = 1 then frost_keygen_round1_thread C F x session_id server_payload
      else if rnd = 2 then frost_keygen_round2_thread C F session_id server_payload
      else if rnd = 0 then frost_keygen_finalize_thread C F session_id
      else Done (Inl (BadRound ''unsupported ed25519 keygen round'' rnd)))"

text \<open>\<open>mpc_engine::keygen\<close>, as far as it leads to FROST; \<open>secp\<close> is the rest of it.\<close>

definition keygen_thread ::
  "codecs \<Rightarrow> frost_lib \<Rightarrow> call_ctx \<Rightarrow> thread \<Rightarrow> string \<Rightarrow> i32 \<Rightarrow> string \<Rightarrow> thread" where
  "keygen_thread C F x secp session_id rnd server_payload =
     (if rnd = 1 then
        (if detect_curve_from_envelope C server_payload = Ed25519
         then frost_keygen_thread C F x session_id rnd server_payload else secp)
      else
        locked (\<lambda>st. (frost_keygen_session_exists session_id st, st)) (\<lambda>exists.
          if exists then frost_keygen_thread C F x session_id rnd server_payload else secp))"

section \<open>Signing as threads\<close>

definition frost_sign_round1_thread ::
  "codecs \<Rightarrow> frost_lib \<Rightarrow> call_ctx \<Rightarrow> string \<Rightarrow> string \<Rightarrow> string option \<Rightarrow> string option \<Rightarrow> thread" where
  "frost_sign_round1_thread C F x session_id server_payload share message_hex =
     propagate (parse_wire C server_payload) (\<lambda>env.
     propagate (decode_payload C dec_sign_r1 env) (\<lambda>r1.
     propagate (deser_pkg C (commitments_deserialize F) (r1_commitments r1)) (\<lambda>server_commitments.
     propagate (ok_or share (Msg ''share required for ed25519 sign round 1'')) (\<lambda>share_str.
     propagate (ok_or message_hex (Msg ''message_hex required for ed25519 sign round 1'')) (\<lambda>msg_hex.
     propagate (wrap_err ''message_hex decode failed'' (hex_decode C msg_hex)) (\<lambda>message.
     propagate (extract_share_material C F share_str) (\<lambda>(key_package, public_key_package).
     propagate (verifying_key_bytes F public_key_package) (\<lambda>vk_bytes.
     let vk_hex = hex_encode C vk_bytes in
     locked (\<lambda>st. (vk_hex \<in> exported_keys st, st)) (\<lambda>exported.
       if exported then Done (Inl (Msg ''signing rejected: keyshare has been exported''))
       else
         let (nonces, own_commitments) = commit F key_package (cc_entropy x);
             session = \<lparr>fs_created_at = cc_now x, fs_key_package = key_package,
               fs_public_key_package = public_key_package, fs_message = message,
               fs_nonces = Some nonces,
               fs_commitments = Map.empty(frost_client_identifier \<mapsto> own_commitments,
                                          frost_server_identifier \<mapsto> server_commitments),
               fs_consumed = False, fs_verifying_key_hex = vk_hex\<rparr>
         in
         Issued (Tok_nonces nonces) (
         locked (\<lambda>st. ((), insert_frost_sign_session session_id session st)) (\<lambda>_.
         propagate (ser_pkg C (commitments_serialize F) own_commitments) (\<lambda>commitments.
         propagate (to_json_string C (sign_r1_json \<lparr>r1_commitments = commitments\<rparr>)) (\<lambda>json_text.
           Done (frost_reply C session_id Dsg 1 (b64_encode C (as_bytes json_text))))))))))))))))"

definition frost_sign_round2_thread :: "codecs \<Rightarrow> frost_lib \<Rightarrow> string \<Rightarrow> string \<Rightarrow> thread" where
  "frost_sign_round2_thread C F session_id server_payload =
     propagate (parse_wire C server_payload) (\<lambda>env.
     propagate (decode_payload C dec_sign_r2 env) (\<lambda>r2.
     propagate (deser_pkg C (signing_package_deserialize F) (r2_signing_pkg r2)) (\<lambda>signing_package.
     propagate (deser_pkg C (signature_share_deserialize F) (r2_sig_share r2)) (\<lambda>server_sig_share.
     locked (remove_frost_sign_session session_id) (\<lambda>taken.
     propagate (ok_or taken (NotFound ''ed25519 sign'' session_id)) (\<lambda>session.
       if fs_consumed session then Done (Inl (Consumed ''ed25519 sign'' session_id))
       else
         let session1 = session\<lparr>fs_consumed := True\<rparr> in
         if signing_package_message F signing_package \<noteq> fs_message session1 then
           Done (Inl (Msg ''signing_package message does not match session message''))
         else
           propagate (ok_or (fs_nonces session1) (Msg ''ed25519 sign session missing nonces'')) (\<lambda>nonces.
           Used (Tok_nonces nonces) (
           Done (frost_sign_round2_finish C F signing_package server_sig_share
                   (session1\<lparr>fs_nonces := None\<rparr>) nonces)))))))))"

definition frost_sign_thread ::
  "codecs \<Rightarrow> frost_lib \<Rightarrow> call_ctx \<Rightarrow> string \<Rightarrow> i32 \<Rightarrow> string \<Rightarrow> string option \<Rightarrow> string option \<Rightarrow> thread" where
  "frost_sign_thread C F x session_id rnd server_payload share message_hex =
     (if rnd = 1 then frost_sign_round1_thread C F x session_id server_payload share message_hex
      else if rnd = 2 then frost_sign_round2_thread C F session_id server_payload
      else Done (Inl (BadRound ''unsupported ed25519 sign round'' rnd)))"

text \<open>\<open>mpc_engine::sign\<close>, as far as it leads to FROST; \<open>secp\<close> is the rest of it.\<close>

definition sign_thread ::
  "codecs \<Rightarrow> frost_lib \<Rightarrow> call_ctx \<Rightarrow> thread \<Rightarrow> string \<Rightarrow> i32 \<Rightarrow> string \<Rightarrow> string option \<Rightarrow> string option
   \<Rightarrow> thread" where
  "sign_thread C F x secp session_id rnd server_payload share message_hash_hex =
     (if rnd = 1 then
        (if opt_share_is_ed25519 C share
         then frost_sign_thread C F x session_id rnd server_payload share message_hash_hex else secp)
      else
        locked (\<lambda>st. (frost_sign_session_exists session_id st, st)) (\<lambda>exists.
          if exists then frost_sign_thread C F x session_id rnd server_payload share message_hash_hex
          else secp))"

section \<open>Recover as threads\<close>

definition frost_recover_round1_thread ::
  "codecs \<Rightarrow> frost_lib \<Rightarrow> call_ctx \<Rightarrow> string \<Rightarrow> string \<Rightarrow> string option \<Rightarrow> i32 option
   \<Rightarrow> thread" where
  "frost_recover_round1_thread C F x session_id server_payload backup_share current_rotation_version =
     propagate (parse_wire C server_payload) (\<lambda>env.
     propagate (ok_or backup_share (Msg ''backup_share required for round 1'')) (\<lambda>bs.
     propagate (ok_or current_rotation_version (Msg ''current_rotation_version required for round 1'')) (\<lambda>rv.
     propagate (extract_share_material C F bs) (\<lambda>(old_kp, old_pkp).
     propagate (wrap_err ''recovery_part1'' (lib_recovery_part1 F old_kp old_pkp (cc_entropy x)))
       (\<lambda>(lib_state, client_inner).
     Issued (Tok_recovery lib_state) (
     locked (\<lambda>st. ((), insert_frost_recovery_session session_id
               \<lparr>fr_created_at = cc_now x, fr_rotation_version = rv, fr_lib_state = lib_state,
                fr_pending_server_inner = we_payload env\<rparr> st)) (\<lambda>_.
       Done (frost_reply C session_id Rotation 1 client_inner))))))))"

definition frost_recover_round2_thread ::
  "codecs \<Rightarrow> frost_lib \<Rightarrow> call_ctx \<Rightarrow> string \<Rightarrow> string \<Rightarrow> thread" where
  "frost_recover_round2_thread C F x session_id server_payload =
     locked (frost_recover_ttl_check x session_id) (\<lambda>alive.
     propagate alive (\<lambda>_.
     propagate (parse_wire C server_payload) (\<lambda>env.
     locked (remove_frost_recovery_session session_id) (\<lambda>taken.
     propagate (ok_or taken (NotFound ''ed25519 recovery'' session_id)) (\<lambda>session.
     Used (Tok_recovery (fr_lib_state session)) (
     propagate (wrap_err ''recovery_part2''
                  (lib_recovery_part2 F (fr_lib_state session) (fr_pending_server_inner session)))
       (\<lambda>(new_lib_state, client_inner).
     Issued (Tok_recovery new_lib_state) (
     locked (\<lambda>st. ((), insert_frost_recovery_session session_id
               \<lparr>fr_created_at = fr_created_at session,
                fr_rotation_version = fr_rotation_version session, fr_lib_state = new_lib_state,
                fr_pending_server_inner = we_payload env\<rparr> st)) (\<lambda>_.
       Done (frost_reply C session_id Rotation 2 client_inner))))))))))"

definition frost_recover_finalize_thread ::
  "codecs \<Rightarrow> frost_lib \<Rightarrow> call_ctx \<Rightarrow> string \<Rightarrow> thread" where
  "frost_recover_finalize_thread C F x session_id =
     locked (remove_frost_recovery_session session_id) (\<lambda>taken.
     propagate (ok_or taken (NotFound ''ed25519 recovery'' session_id)) (\<lambda>session.
     propagate (verifying_key_bytes F (old_pub_key_pkg F (fr_lib_state session))) (\<lambda>old_vk_bytes.
     Used (Tok_recovery (fr_lib_state session)) (
     propagate (wrap_err ''recovery_part3''
                  (lib_recovery_part3 F (fr_lib_state session) (fr_pending_server_inner session)))
       (\<lambda>(new_kp, new_pkp).
     propagate (verifying_key_bytes F new_pkp) (\<lambda>new_vk_bytes.
       if new_vk_bytes \<noteq> old_vk_bytes then
         Done (Inl (Msg ''ed25519 refresh produced a different verifying_key (refresh_dkg_shares contract violated)''))
       else
         propagate (derive_solana_address C new_vk_bytes) (\<lambda>address.
         propagate (build_share_envelope F new_kp new_pkp) (\<lambda>local_encrypted_share.
         propagate (add_i32 (cc_overflow_checks x) (fr_rotation_version session) 1) (\<lambda>rotation_version.
         propagate (to_json_string C (recovery_completed_json
                      \<lparr>rc_mpc_key_id = session_id, rc_address = address,
                       rc_public_key = hex_encode C new_vk_bytes,
                       rc_rotation_version = rotation_version,
                       rc_local_encrypted_share = local_encrypted_share\<rparr>)) (\<lambda>completed_json.
           Done (frost_make_completed C 0 completed_json)))))))))))"

definition frost_recover_thread ::
  "codecs \<Rightarrow> frost_lib \<Rightarrow> call_ctx \<Rightarrow> string \<Rightarrow> i32 \<Rightarrow> string \<Rightarrow> string option \<Rightarrow> i32 option
   \<Rightarrow> thread" where
  "frost_recover_thread C F x session_id rnd server_payload backup_share current_rotation_version =
     (if rnd = 1 then
        frost_recover_round1_thread C F x session_id server_payload backup_share current_rotation_version
      else if rnd = 2 then frost_recover_round2_thread C F x session_id server_payload
      else if rnd = 0 then frost_recover_finalize_thread C F x session_id
      else Done (Inl (BadRound ''unsupported ed25519 recover round'' rnd)))"

text \<open>\<open>mpc_engine::recover\<close>, as far as it leads to FROST; \<open>secp\<close> is the rest of it.\<close>

definition recover_thread ::
  "codecs \<Rightarrow> frost_lib \<Rightarrow> call_ctx \<Rightarrow> thread \<Rightarrow> string \<Rightarrow> i32 \<Rightarrow> string \<Rightarrow> string option
   \<Rightarrow> i32 option \<Rightarrow> thread" where
  "recover_thread C F x secp session_id rnd server_payload backup_share current_rotation_version =
     (if rnd = 1 then
        (if opt_share_is_ed25519 C backup_share
         then frost_recover_thread C F x session_id rnd server_payload backup_share current_rotation_version
         else secp)
      else
        locked (\<lambda>st. (frost_recovery_session_exists session_id st, st)) (\<lambda>exists.
          if exists
          then frost_recover_thread C F x session_id rnd server_payload backup_share current_rotation_version
          else secp))"

section \<open>A thread alone\<close>

lemma run_alone_if [simp]: "run_alone (if b then s else t) st = (if b then run_alone s st else run_alone t st)"
  by simp

lemma sign_round1_alone:
  "run_alone (frost_sign_round1_thread C F x sid p share mh) st = frost_sign_round1 C F x sid p share mh st"
  unfolding frost_sign_round1_thread_def frost_sign_round1_def frost_sign_round1_checks_def
  by (auto simp: Let_def andThen_def question_def split: sum.split prod.split)

lemma sign_round2_alone:
  "run_alone (frost_sign_round2_thread C F sid p) st = frost_sign_round2 C F sid p st"
  unfolding frost_sign_round2_thread_def frost_sign_round2_def frost_sign_round2_open_def
  by (auto simp: Let_def question_def split: sum.split prod.split)

lemma sign_alone:
  "run_alone (frost_sign_thread C F x sid rnd p share mh) st = frost_sign C F x sid rnd p share mh st"
  by (simp add: frost_sign_thread_def frost_sign_def sign_round1_alone sign_round2_alone)

lemma keygen_alone:
  "run_alone (frost_keygen_thread C F x sid rnd p) st = frost_keygen C F x sid rnd p st"
  unfolding frost_keygen_thread_def frost_keygen_def frost_keygen_round1_thread_def frost_keygen_round1_def
    frost_keygen_round2_thread_def frost_keygen_round2_def frost_keygen_finalize_thread_def
    frost_keygen_finalize_def
  by (auto simp: Let_def question_def split: sum.split prod.split)

lemma recover_alone:
  "run_alone (frost_recover_thread C F x sid rnd p share rv) st = frost_recover C F x sid rnd p share rv st"
  unfolding frost_recover_thread_def frost_recover_def frost_recover_round1_thread_def frost_recover_round1_def
    frost_recover_round2_thread_def frost_recover_round2_def frost_recover_finalize_thread_def
    frost_recover_finalize_def
  by (auto simp: Let_def question_def split: sum.split prod.split)

section \<open>The call of the model\<close>

text \<open>
  An ed25519 call that is not interrupted is the call of the model: the two descriptions of the same
  code, as one step and as a sequence of critical sections, agree. Every round of a
  key generation, a signature and a refresh, and the refused rounds, answer the same and leave the
  same state, whether the call is one step or goes from one critical section to the next; and the
  dispatch of each operation goes there for the same calls.
\<close>

lemma ed25519_threads_alone:
  "(run_alone (frost_sign_thread C F x sid rnd p share mh) st = frost_sign C F x sid rnd p share mh st
    \<and> sign C F D x sid rnd p share mh st =
        (if (if rnd = 1 then opt_share_is_ed25519 C share else frost_sign_session_exists sid st)
         then Some (run_alone (sign_thread C F x secp sid rnd p share mh) st)
         else if rnd = 1 then sign_round1 C D x sid p share mh st else sign_advance C x sid p st))
   \<and> (run_alone (frost_keygen_thread C F x sid rnd p) st = frost_keygen C F x sid rnd p st
    \<and> keygen C F D x sid rnd p st =
        (if (if rnd = 1 then detect_curve_from_envelope C p = Ed25519 else frost_keygen_session_exists sid st)
         then Some (run_alone (keygen_thread C F x secp sid rnd p) st)
         else if rnd = 0 then keygen_collect C D sid st
         else if rnd = 1 then keygen_round1 C D x sid p st else keygen_advance C D x sid p st))
   \<and> (run_alone (frost_recover_thread C F x sid rnd p share rv) st = frost_recover C F x sid rnd p share rv st
    \<and> recover C F D x sid rnd p share rv st =
        (if (if rnd = 1 then opt_share_is_ed25519 C share else frost_recovery_session_exists sid st)
         then Some (run_alone (recover_thread C F x secp sid rnd p share rv) st)
         else if rnd = 0 then recover_collect C D x sid st
         else if rnd = 1 then recover_round1 C D x sid p share rv st else recover_advance C D x sid p st))"
  by (simp add: sign_alone keygen_alone recover_alone sign_thread_def keygen_thread_def recover_thread_def
      sign_def keygen_def recover_def)

section \<open>The first round of a secp256k1 signature\<close>

text \<open>
  \<open>sign_prepare\<close> reads the registry of exported keys in one section; what comes after it, up to the
  section that puts the session into the table, does not look at the registry again. In between
  the call collects its first batch, on channels of its own.
\<close>

definition sign_round1_rest ::
  "codecs \<Rightarrow> dkls_lib \<Rightarrow> call_ctx \<Rightarrow> string
   \<Rightarrow> wire_envelope \<times> bytes list \<times> message_digest \<times> string \<times> dsg_setup \<Rightarrow> engine \<Rightarrow> outcome" where
  "sign_round1_rest C D x session_id prepared st =
     (case prepared of (server_env, server_msgs, digest, pk_hex, setup) \<Rightarrow>
       let link = new_link (map_task (sign_output D) (sign_run D setup (random_seed x)))
       in Option.bind (exchange (cc_schedule x) link server_msgs) (\<lambda>(r, link1).
            attempt r st (\<lambda>out.
              case out of
                Some (client_msgs, _) \<Rightarrow>
                  Some (make_in_progress_batch C session_id Dsg (we_round server_env) client_msgs,
                        insert_sign_session session_id
                          \<lparr>ss_link = link1, ss_has_task = True, ss_digest = digest,
                           ss_consumed = False, ss_public_key_hex = pk_hex\<rparr> st)
              | None \<Rightarrow>
                  Some (Inl (Msg ''sign task closed before producing first message''), st))))"

lemma sign_round1_sections:
  "sign_round1 C D x sid p share mh st =
     attempt (sign_prepare C D sid p share mh st) st (\<lambda>v. sign_round1_rest C D x sid v st)"
  by (simp add: sign_round1_def sign_round1_rest_def)

end
