(* ===== verification/Overlap.thy ===== *)
theory Overlap
  imports Threads
begin

text \<open>
  ed25519 calls that overlap: the threads of \<open>Threads\<close> run at once, in any order of their
  sections and with anything else going on in the process. What a session holds is still used at
  most once: the nonces of a signature, the library's state of a key generation or a refresh. The
  guard against exported keys, which is read in one section and relied on in another, can be
  overtaken.
\<close>

section \<open>The tokens a thread owns\<close>

text \<open>
  The tokens that wait in the three tables of sessions. A thread that owns tokens may use each of
  them once. It comes to own those it issues; a section may move tokens between the thread and
  the tables, and makes none.
\<close>

definition tables_finite :: "engine \<Rightarrow> bool" where
  "tables_finite st \<longleftrightarrow> finite (dom (frost_keygen_sessions st)) \<and> finite (dom (frost_sign_sessions st))
     \<and> finite (dom (frost_recovery_sessions st))"

definition sign_token :: "frost_sign_session \<Rightarrow> token" where
  "sign_token s = Tok_nonces (the (fs_nonces s))"

definition keygen_token :: "frost_keygen_session \<Rightarrow> token" where
  "keygen_token s = Tok_keygen (fk_lib_state s)"

definition recovery_token :: "frost_recovery_session \<Rightarrow> token" where
  "recovery_token s = Tok_recovery (fr_lib_state s)"

definition waiting :: "engine \<Rightarrow> token multiset" where
  "waiting st = tokens_in keygen_token (frost_keygen_sessions st)
     + tokens_in sign_token (frost_sign_sessions st)
     + tokens_in recovery_token (frost_recovery_sessions st)"

inductive owns :: "thread \<Rightarrow> token multiset \<Rightarrow> bool" where
  Own_done: "owns (Done r) N"
| Own_used: "owns t N \<Longrightarrow> owns (Used n t) (add_mset n N)"
| Own_issued: "owns t (add_mset n N) \<Longrightarrow> owns (Issued n t) N"
| Own_locked:
    "(\<And>st. tables_finite st \<Longrightarrow> tables_finite (g st) \<and>
        (\<exists>N'. owns (k st) N' \<and> N' + waiting (g st) \<subseteq># N + waiting st)) \<Longrightarrow> owns (Locked k g) N"

inductive_cases owns_usedE: "owns (Used n t) N"
inductive_cases owns_issuedE: "owns (Issued n t) N"
inductive_cases owns_lockedE: "owns (Locked k g) N"

lemma owns_propagate [intro]: "(\<And>v. r = Inr v \<Longrightarrow> owns (k v) N) \<Longrightarrow> owns (propagate r k) N"
  by (cases r) (auto simp: propagate_def intro: Own_done)

text \<open>A section that only looks, or that only takes tokens away.\<close>

lemma owns_look:
  assumes "\<And>st. tables_finite st \<Longrightarrow> tables_finite (snd (section st)) \<and> waiting (snd (section st)) \<subseteq># waiting st"
    and "\<And>v. owns (k v) N"
  shows "owns (locked section k) N"
  unfolding locked_def
  by (rule Own_locked, intro conjI exI [of _ N])
     (use assms in \<open>auto intro: subset_mset.add_left_mono\<close>)

lemma owns_read:
  assumes "\<And>v. owns (k v) N"
  shows "owns (locked (\<lambda>st. (f st, st)) k) N"
  by (rule owns_look) (simp_all add: assms)

text \<open>
  A table of sessions, each of which holds one token, among the tokens \<open>rest\<close> that wait
  elsewhere: what a thread puts into the table it has to own before, and what it takes out it
  owns after.
\<close>

locale token_table = session_table find_session insert_session remove_session
  for find_session :: "engine \<Rightarrow> string \<Rightarrow> 's option"
    and insert_session :: "string \<Rightarrow> 's \<Rightarrow> engine \<Rightarrow> engine"
    and remove_session :: "string \<Rightarrow> engine \<Rightarrow> 's option \<times> engine" +
  fixes token :: "'s \<Rightarrow> token"
    and rest :: "engine \<Rightarrow> token multiset"
  assumes waiting_here: "waiting st = tokens_in token (find_session st) + rest st"
    and finite_here: "tables_finite st \<Longrightarrow> finite (dom (find_session st))"
    and insert_finite: "tables_finite st \<Longrightarrow> tables_finite (insert_session k s st)"
    and remove_finite: "tables_finite st \<Longrightarrow> tables_finite (snd (remove_session k st))"
    and insert_rest: "rest (insert_session k s st) = rest st"
    and remove_rest: "rest (snd (remove_session k st)) = rest st"
begin

lemma put_waiting: "tables_finite st \<Longrightarrow> waiting (insert_session k s st) \<subseteq># add_mset (token s) (waiting st)"
  using tokens_put [OF finite_here] by (simp add: waiting_here insert_rest flip: add_mset_add_single)

lemma taken_waiting:
  "tables_finite st \<Longrightarrow> find_session st k = Some s \<Longrightarrow>
     add_mset (token s) (waiting (snd (remove_session k st))) = waiting st"
  using tokens_taken [OF finite_here] by (simp add: waiting_here remove_rest flip: union_mset_add_mset_left)

lemma left_waiting: "tables_finite st \<Longrightarrow> waiting (snd (remove_session k st)) \<subseteq># waiting st"
  using tokens_left [OF finite_here] by (simp add: waiting_here remove_rest)

lemma owns_put:
  assumes "owns (k ()) N"
  shows "owns (locked (\<lambda>st. ((), insert_session sid s st)) k) (add_mset (token s) N)"
  unfolding locked_def
  by (rule Own_locked) (use assms insert_finite put_waiting in \<open>auto intro!: exI [of _ N]\<close>)

lemma owns_take:
  assumes "\<And>s. owns (k (Some s)) {#token s#}" and "owns (k None) {#}"
  shows "owns (locked (remove_session sid) k) {#}"
  unfolding locked_def
proof (rule Own_locked, intro conjI)
  fix st assume fin: "tables_finite st"
  show "tables_finite (snd (remove_session sid st))" using fin by (rule remove_finite)
  show "\<exists>N'. owns (k (fst (remove_session sid st))) N' \<and>
      N' + waiting (snd (remove_session sid st)) \<subseteq># {#} + waiting st"
  proof (cases "find_session st sid")
    case None
    with assms(2) left_waiting [OF fin] show ?thesis by (intro exI [of _ "{#}"]) (simp add: remove_returns)
  next
    case (Some s)
    with assms(1) taken_waiting [OF fin Some] show ?thesis
      by (intro exI [of _ "{#token s#}"]) (simp add: remove_returns)
  qed
qed

end

interpretation frost_keygen_tokens:
  token_table frost_keygen_sessions insert_frost_keygen_session remove_frost_keygen_session keygen_token
    "\<lambda>st. tokens_in sign_token (frost_sign_sessions st) + tokens_in recovery_token (frost_recovery_sessions st)"
  by unfold_locales (auto simp: tables_finite_def waiting_def session_defs)

interpretation frost_sign_tokens:
  token_table frost_sign_sessions insert_frost_sign_session remove_frost_sign_session sign_token
    "\<lambda>st. tokens_in keygen_token (frost_keygen_sessions st) + tokens_in recovery_token (frost_recovery_sessions st)"
  by unfold_locales (auto simp: tables_finite_def waiting_def session_defs)

interpretation frost_recovery_tokens:
  token_table frost_recovery_sessions insert_frost_recovery_session remove_frost_recovery_session recovery_token
    "\<lambda>st. tokens_in keygen_token (frost_keygen_sessions st) + tokens_in sign_token (frost_sign_sessions st)"
  by unfold_locales (auto simp: tables_finite_def waiting_def session_defs)

lemma owns_nonces:
  assumes "owns (k ()) N" and "fs_nonces s = Some n"
  shows "owns (locked (\<lambda>st. ((), insert_frost_sign_session sid s st)) k) (add_mset (Tok_nonces n) N)"
  using frost_sign_tokens.owns_put [where k = k and N = N and s = s and sid = sid] assms by (simp add: sign_token_def)

lemma owns_keygen_state:
  assumes "owns (k ()) N" and "fk_lib_state s = a"
  shows "owns (locked (\<lambda>st. ((), insert_frost_keygen_session sid s st)) k) (add_mset (Tok_keygen a) N)"
  using frost_keygen_tokens.owns_put [where k = k and N = N and s = s and sid = sid] assms by (simp add: keygen_token_def)

lemma owns_recovery_state:
  assumes "owns (k ()) N" and "fr_lib_state s = a"
  shows "owns (locked (\<lambda>st. ((), insert_frost_recovery_session sid s st)) k) (add_mset (Tok_recovery a) N)"
  using frost_recovery_tokens.owns_put [where k = k and N = N and s = s and sid = sid] assms by (simp add: recovery_token_def)

lemma owns_ttl_check:
  assumes "\<And>v. owns (k v) N"
  shows "owns (locked (frost_recover_ttl_check x sid) k) N"
proof (rule owns_look)
  fix st assume "tables_finite st"
  then show "tables_finite (snd (frost_recover_ttl_check x sid st)) \<and>
      waiting (snd (frost_recover_ttl_check x sid st)) \<subseteq># waiting st"
    by (simp add: frost_recover_ttl_check_def frost_recovery_tokens.remove_finite frost_recovery_tokens.left_waiting
        split: option.split)
qed (rule assms)

lemmas owns_intros = owns_propagate owns_read owns_ttl_check owns_nonces owns_keygen_state
  owns_recovery_state frost_sign_tokens.owns_take frost_keygen_tokens.owns_take frost_recovery_tokens.owns_take
  Own_done Own_issued Own_used

lemma owns_sign: "owns (frost_sign_thread C F x sid rnd p share mh) {#}"
  unfolding frost_sign_thread_def frost_sign_round1_thread_def frost_sign_round2_thread_def
  by (auto simp: Let_def sign_token_def split: prod.split intro!: owns_intros)

lemma owns_keygen: "owns (frost_keygen_thread C F x sid rnd p) {#}"
  unfolding frost_keygen_thread_def frost_keygen_round1_thread_def frost_keygen_round2_thread_def
    frost_keygen_finalize_thread_def
  by (auto simp: keygen_token_def split: prod.split intro!: owns_intros)

lemma owns_recover: "owns (frost_recover_thread C F x sid rnd p share rv) {#}"
  unfolding frost_recover_thread_def frost_recover_round1_thread_def frost_recover_round2_thread_def
    frost_recover_finalize_thread_def
  by (auto simp: recovery_token_def split: prod.split intro!: owns_intros)

text \<open>The calls of the pool: the engine's, and the dispatched ones that leave for the other curve.\<close>

definition ed25519_calls :: "codecs \<Rightarrow> frost_lib \<Rightarrow> thread set" where
  "ed25519_calls C F =
     {t. \<exists>x sid rnd p share mh rv r.
        t = frost_keygen_thread C F x sid rnd p \<or> t = keygen_thread C F x (Done r) sid rnd p
        \<or> t = frost_sign_thread C F x sid rnd p share mh \<or> t = sign_thread C F x (Done r) sid rnd p share mh
        \<or> t = frost_recover_thread C F x sid rnd p share rv
        \<or> t = recover_thread C F x (Done r) sid rnd p share rv}"

lemma sign_is_call: "frost_sign_thread C F x sid rnd p share mh \<in> ed25519_calls C F"
  unfolding ed25519_calls_def mem_Collect_eq by blast

lemma owns_calls: "t \<in> ed25519_calls C F \<Longrightarrow> owns t {#}"
  by (auto simp: ed25519_calls_def keygen_thread_def sign_thread_def recover_thread_def
      intro!: owns_sign owns_keygen owns_recover owns_read Own_done)

section \<open>Threads at once\<close>

text \<open>
  The pool: any call may be started at any time, and any thread may move on. What else the
  process does leaves the three tables of FROST sessions alone; it may change everything else.
  The tokens issued and used are collected, the latest first.
\<close>

definition same_tables :: "engine \<Rightarrow> engine \<Rightarrow> bool" where
  "same_tables st st' \<longleftrightarrow> frost_keygen_sessions st' = frost_keygen_sessions st
     \<and> frost_sign_sessions st' = frost_sign_sessions st
     \<and> frost_recovery_sessions st' = frost_recovery_sessions st"

inductive overlap :: "codecs \<Rightarrow> frost_lib \<Rightarrow> token list \<Rightarrow> token list \<Rightarrow> thread list \<Rightarrow> engine \<Rightarrow> bool"
  for C :: codecs and F :: frost_lib where
  Overlap_start: "overlap C F [] [] [] init_engine"
| Overlap_call: "overlap C F i u ts st \<Longrightarrow> t \<in> ed25519_calls C F \<Longrightarrow> overlap C F i u (ts @ [t]) st"
| Overlap_locked: "overlap C F i u ts st \<Longrightarrow> n < length ts \<Longrightarrow> ts ! n = Locked k g \<Longrightarrow>
     overlap C F i u (ts[n := k st]) (g st)"
| Overlap_issued: "overlap C F i u ts st \<Longrightarrow> n < length ts \<Longrightarrow> ts ! n = Issued a t \<Longrightarrow>
     overlap C F (a # i) u (ts[n := t]) st"
| Overlap_used: "overlap C F i u ts st \<Longrightarrow> n < length ts \<Longrightarrow> ts ! n = Used a t \<Longrightarrow>
     overlap C F i (a # u) (ts[n := t]) st"
| Overlap_other: "overlap C F i u ts st \<Longrightarrow> same_tables st st' \<Longrightarrow> overlap C F i u ts st'"

lemma sum_list_update_mset:
  fixes Ns :: "'a multiset list"
  shows "n < length Ns \<Longrightarrow> sum_list (Ns[n := M]) + Ns ! n = sum_list Ns + M"
proof (induction Ns arbitrary: n)
  case (Cons N Ns)
  show ?case
  proof (cases n)
    case (Suc m)
    with Cons.IH [of m] Cons.prems show ?thesis by (simp add: add.assoc)
  qed (simp add: ac_simps)
qed simp

text \<open>What is used, held by threads and waiting in the tables was issued.\<close>

definition pool_sound ::
  "token list \<Rightarrow> token list \<Rightarrow> thread list \<Rightarrow> engine \<Rightarrow> bool" where
  "pool_sound i u ts st \<longleftrightarrow> tables_finite st \<and>
     (\<exists>Ns. list_all2 owns ts Ns \<and> mset u + sum_list Ns + waiting st \<subseteq># mset i)"

lemma pool_spawn: "pool_sound i u ts st \<Longrightarrow> owns t {#} \<Longrightarrow> pool_sound i u (ts @ [t]) st"
  unfolding pool_sound_def
proof (elim conjE exE, intro conjI)
  fix Ns
  assume "owns t {#}" "list_all2 owns ts Ns" "mset u + sum_list Ns + waiting st \<subseteq># mset i"
  then show "\<exists>Ns. list_all2 owns (ts @ [t]) Ns \<and> mset u + sum_list Ns + waiting st \<subseteq># mset i"
    by (intro exI [of _ "Ns @ [{#}]"]) (simp add: list_all2_appendI)
qed

text \<open>A thread that moves changes its own share only.\<close>

lemma pool_move:
  assumes "pool_sound i u ts st" and n: "n < length ts" and "tables_finite st'"
    and move: "\<And>N. owns (ts ! n) N \<Longrightarrow>
      \<exists>N'. owns t N' \<and> mset v + N' + waiting st' \<subseteq># mset j + N + waiting st"
  shows "pool_sound (j @ i) (v @ u) (ts[n := t]) st'"
proof -
  obtain Ns where Ns: "list_all2 owns ts Ns" "mset u + sum_list Ns + waiting st \<subseteq># mset i"
    using assms(1) by (auto simp: pool_sound_def)
  have len: "n < length Ns" using Ns(1) n by (simp add: list_all2_lengthD)
  have "owns (ts ! n) (Ns ! n)" using Ns(1) n by (simp add: list_all2_nthD)
  with move obtain N' where N': "owns t N'"
    "mset v + N' + waiting st' \<subseteq># mset j + Ns ! n + waiting st" by blast
  have "list_all2 owns (ts[n := t]) (Ns[n := N'])"
    using Ns(1) N'(1) by (simp add: list_all2_update_cong)
  moreover have "mset (v @ u) + sum_list (Ns[n := N']) + waiting st' \<subseteq># mset (j @ i)"
  proof -
    have "(mset u + sum_list Ns + waiting st) + (mset v + N' + waiting st')
        \<subseteq># mset i + (mset j + Ns ! n + waiting st)"
      using Ns(2) N'(2) by (rule subset_mset.add_mono)
    moreover have "(mset u + sum_list Ns + waiting st) + (mset v + N' + waiting st') =
        (mset (v @ u) + sum_list (Ns[n := N']) + waiting st') + (Ns ! n + waiting st)"
    proof -
      have "(mset u + sum_list Ns + waiting st) + (mset v + N' + waiting st') =
          mset u + mset v + waiting st + waiting st' + (sum_list Ns + N')"
        by (simp add: ac_simps)
      also have "\<dots> = mset u + mset v + waiting st + waiting st' + (sum_list (Ns[n := N']) + Ns ! n)"
        by (simp add: sum_list_update_mset [OF len])
      finally show ?thesis by (simp add: ac_simps)
    qed
    moreover have "mset i + (mset j + Ns ! n + waiting st) = mset (j @ i) + (Ns ! n + waiting st)"
      by (simp add: ac_simps)
    ultimately show ?thesis by simp
  qed
  ultimately show ?thesis
    unfolding pool_sound_def using assms(3) by blast
qed

lemma overlap_sound: "overlap C F i u ts st \<Longrightarrow> pool_sound i u ts st"
proof (induction rule: overlap.induct)
  case Overlap_start
  then show ?case
    by (auto simp: pool_sound_def tables_finite_def waiting_def init_engine_def)
next
  case (Overlap_call i u ts st t)
  from Overlap_call.IH owns_calls [OF Overlap_call.hyps(2)] show ?case by (rule pool_spawn)
next
  case (Overlap_locked i u ts st n k g)
  have fin: "tables_finite st" using Overlap_locked.IH by (simp add: pool_sound_def)
  have step: "tables_finite (g st) \<and> (\<exists>N'. owns (k st) N' \<and> N' + waiting (g st) \<subseteq># N + waiting st)"
    if "owns (ts ! n) N" for N
    using that unfolding Overlap_locked.hyps(3) by (rule owns_lockedE) (use fin in blast)
  obtain Ns where "list_all2 owns ts Ns"
    using Overlap_locked.IH by (auto simp: pool_sound_def)
  then have "owns (ts ! n) (Ns ! n)" using Overlap_locked.hyps(2) by (rule list_all2_nthD)
  with step have "tables_finite (g st)" by blast
  from pool_move [OF Overlap_locked.IH Overlap_locked.hyps(2) this, of "k st" "[]" "[]"] step
  show ?case by simp
next
  case (Overlap_issued i u ts st n a t)
  have fin: "tables_finite st" using Overlap_issued.IH by (simp add: pool_sound_def)
  have "\<exists>N'. owns t N' \<and> mset [] + N' + waiting st \<subseteq># mset [a] + N + waiting st"
    if "owns (ts ! n) N" for N
    using that unfolding Overlap_issued.hyps(3) by (rule owns_issuedE) (intro exI conjI, assumption, simp)
  from pool_move [OF Overlap_issued.IH Overlap_issued.hyps(2) fin this] show ?case by simp
next
  case (Overlap_used i u ts st n a t)
  have fin: "tables_finite st" using Overlap_used.IH by (simp add: pool_sound_def)
  have "\<exists>N'. owns t N' \<and> mset [a] + N' + waiting st \<subseteq># mset [] + N + waiting st"
    if "owns (ts ! n) N" for N
    using that unfolding Overlap_used.hyps(3) by (rule owns_usedE) (intro exI conjI, assumption, simp)
  from pool_move [OF Overlap_used.IH Overlap_used.hyps(2) fin this] show ?case by simp
next
  case (Overlap_other i u ts st st')
  then show ?case
    by (simp add: pool_sound_def same_tables_def tables_finite_def waiting_def)
qed

section \<open>Properties\<close>

text \<open>
  Property C2: no nonces are signed with twice, even when calls overlap. Whatever ed25519 calls
  run at once, for the same session or others, in whatever order their critical sections come,
  and whatever else the process does meanwhile, every use of nonces in a round 2 of a signature is
  matched by its own commitment in a round 1, and every use of the library's state in a key
  generation or a refresh by the round that made it. If what is issued of one kind is distinct,
  so is what is used of it.
\<close>

theorem overlapping_nonces_once:
  assumes "overlap C F i u ts st"
  shows "mset u \<subseteq># mset i \<and> (distinct (filter P i) \<longrightarrow> distinct (filter P u))"
proof -
  obtain Ns where "mset u + sum_list Ns + waiting st \<subseteq># mset i"
    using overlap_sound [OF assms] by (auto simp: pool_sound_def)
  then have "mset u \<subseteq># mset i"
    unfolding add.assoc by (rule subset_mset.order_trans [OF mset_subset_eq_add_left])
  moreover from this have "mset (filter P u) \<subseteq># mset (filter P i)"
    by (simp add: multiset_filter_mono)
  ultimately show ?thesis using distinct_submset by blast
qed

text \<open>An example: a session opened, and two round 2 calls that race for it.\<close>

lemma round1_thread_opens:
  assumes "frost_sign_round1_checks C F p share mh st = Inr (sc, msg, kp, pkp, vk)"
    and "commit F kp (cc_entropy x) = (nonces, oc)"
  shows "\<exists>k k'. frost_sign_round1_thread C F x sid p share mh =
             locked (\<lambda>st. (vk \<in> exported_keys st, st)) k
           \<and> vk \<notin> exported_keys st \<and> k False = Issued (Tok_nonces nonces) (
             locked (\<lambda>st. ((), insert_frost_sign_session sid
               \<lparr>fs_created_at = cc_now x, fs_key_package = kp, fs_public_key_package = pkp,
                fs_message = msg, fs_nonces = Some nonces,
                fs_commitments = Map.empty(frost_client_identifier \<mapsto> oc, frost_server_identifier \<mapsto> sc),
                fs_consumed = False, fs_verifying_key_hex = vk\<rparr> st)) k')
           \<and> (\<forall>st. snd (run_alone (k' ()) st) = st)"
  using assms
  by (auto simp: frost_sign_round1_thread_def frost_sign_round1_checks_def propagate_def Let_def
        split: if_splits)
     (intro exI conjI, rule refl, simp, simp add: propagate_def split: sum.split)

lemma round2_thread_opens:
  assumes "fst (frost_sign_round2_open C F sid p st) = Inr (pkg, ss, session, nonces)"
  shows "\<exists>k t e. frost_sign_round2_thread C F sid p = locked (remove_frost_sign_session sid) k
           \<and> k (frost_sign_sessions st sid) = Used (Tok_nonces nonces) t \<and> k None = Done (Inl e)"
proof -
  obtain st' where "frost_sign_round2_open C F sid p st = (Inr (pkg, ss, session, nonces), st')"
    using assms by (metis prod.collapse)
  then show ?thesis
    by (auto simp: frost_sign_round2_open_def frost_sign_round2_thread_def question_Inr_iff propagate_def
          ok_or_def session_defs Let_def split: if_splits)
qed

theorem overlapping_nonces_once_witness:
  "\<exists>ts st. overlap ex_codecs ex_frost [Tok_nonces (SigningNonces [0])] [Tok_nonces (SigningNonces [0])] ts st
     \<and> length ts = 3 \<and> distinct [Tok_nonces (SigningNonces [0])]"
proof -
  let ?C = ex_codecs and ?F = ex_frost and ?n = "SigningNonces [0]" and ?t = "Tok_nonces (SigningNonces [0])"
  let ?mh = "Some (hex_encode ex_codecs [1, 2])" and ?st1 = "insert_frost_sign_session ''s'' ex_sign_session init_engine"
  obtain p share where checks: "frost_sign_round1_checks ?C ?F p (Some share) ?mh init_engine =
      Inr (SigningCommitments [4], [1, 2], ex_kp, ex_pkp, hex_encode ex_codecs ex_vk)"
    by (rule ex_round1)
  have commit: "commit ?F ex_kp (cc_entropy (ex_ctx [])) = (?n, SigningCommitments [0])"
    by (simp add: ex_frost_def ex_kp_def ex_ctx_def)
  obtain k k' where t1: "frost_sign_thread ?C ?F (ex_ctx []) ''s'' 1 p (Some share) ?mh =
      locked (\<lambda>st. (hex_encode ex_codecs ex_vk \<in> exported_keys st, st)) k"
    "k False = Issued ?t (locked (\<lambda>st. ((), insert_frost_sign_session ''s'' ex_sign_session st)) k')"
    using round1_thread_opens [OF checks commit, of "''s''"]
    by (auto simp: frost_sign_thread_def ex_sign_session_def ex_ctx_def)
  obtain p2 where open2: "fst (frost_sign_round2_open ?C ?F ''s'' p2 ?st1) =
      Inr (SigningPackage [1, 2], SignatureShare [5],
           ex_sign_session\<lparr>fs_consumed := True, fs_nonces := None\<rparr>, ?n)"
    using ex_round2 by metis
  obtain l t e where t2: "frost_sign_thread ?C ?F (ex_ctx []) ''s'' 2 p2 None None =
      locked (remove_frost_sign_session ''s'') l"
    "l (frost_sign_sessions ?st1 ''s'') = Used ?t t" "l None = Done (Inl e)"
    using round2_thread_opens [OF open2] by (auto simp: frost_sign_thread_def)
  let ?st2 = "snd (remove_frost_sign_session ''s'' ?st1)"
  have "overlap ?C ?F [] [] [locked (\<lambda>st. (hex_encode ex_codecs ex_vk \<in> exported_keys st, st)) k] init_engine"
    using overlap.Overlap_call [OF overlap.Overlap_start sign_is_call, of ?C ?F "ex_ctx []" "''s''" 1 p "Some share" ?mh]
    by (simp add: t1)
  from overlap.Overlap_locked [OF this, of 0]
  have "overlap ?C ?F [] [] [k False] init_engine"
    by (simp add: locked_def init_engine_def)
  from overlap.Overlap_issued [OF this, of 0] t1(2)
  have "overlap ?C ?F [?t] []
      [locked (\<lambda>st. ((), insert_frost_sign_session ''s'' ex_sign_session st)) k'] init_engine" by simp
  from overlap.Overlap_locked [OF this, of 0]
  have "overlap ?C ?F [?t] [] [k' ()] ?st1" by (simp add: locked_def)
  from overlap.Overlap_call [OF overlap.Overlap_call [OF this sign_is_call] sign_is_call,
      of "ex_ctx []" "''s''" 2 p2 None None "ex_ctx []" "''s''" 2 p2 None None]
  have "overlap ?C ?F [?t] [] [k' (), locked (remove_frost_sign_session ''s'') l,
      locked (remove_frost_sign_session ''s'') l] ?st1" by (simp add: t2(1))
  from overlap.Overlap_locked [OF this, of 1]
  have "overlap ?C ?F [?t] [] [k' (), Used ?t t, locked (remove_frost_sign_session ''s'') l] ?st2"
    using t2(2) by (simp add: locked_def session_defs)
  from overlap.Overlap_locked [OF this, of 2]
  have "overlap ?C ?F [?t] [] [k' (), Used ?t t, Done (Inl e)] (snd (remove_frost_sign_session ''s'' ?st2))"
    using t2(3) by (simp add: locked_def session_defs)
  from overlap.Overlap_used [OF this, of 1]
  have run: "overlap ?C ?F [?t] [?t] [k' (), t, Done (Inl e)] (snd (remove_frost_sign_session ''s'' ?st2))"
    by simp
  from overlapping_nonces_once [OF run, of "\<lambda>_. True"] have "distinct [?t]" by simp
  moreover have "length [k' (), t, Done (Inl e)] = 3" by simp
  ultimately show ?thesis using run by blast
qed

text \<open>What is left of round 1 after its guard does not look at the registry again.\<close>

lemma round1_after_guard:
  assumes "frost_sign_round1_checks C F p share mh st = Inr (sc, msg, kp, pkp, vk)"
  shows "\<exists>k. frost_sign_round1_thread C F x sid p share mh = locked (\<lambda>st. (vk \<in> exported_keys st, st)) k
           \<and> vk \<notin> exported_keys st
           \<and> (\<forall>st'. \<exists>s. fs_verifying_key_hex s = vk \<and> fs_message s = msg \<and> fs_nonces s \<noteq> None
                \<and> snd (run_alone (k False) st') = insert_frost_sign_session sid s st')"
proof -
  obtain nonces oc where c: "commit F kp (cc_entropy x) = (nonces, oc)" by fastforce
  let ?s = "\<lparr>fs_created_at = cc_now x, fs_key_package = kp, fs_public_key_package = pkp,
             fs_message = msg, fs_nonces = Some nonces,
             fs_commitments = Map.empty(frost_client_identifier \<mapsto> oc, frost_server_identifier \<mapsto> sc),
             fs_consumed = False, fs_verifying_key_hex = vk\<rparr>"
  obtain k k' where k: "frost_sign_round1_thread C F x sid p share mh =
      locked (\<lambda>st. (vk \<in> exported_keys st, st)) k" "vk \<notin> exported_keys st"
    "k False = Issued (Tok_nonces nonces) (locked (\<lambda>st. ((), insert_frost_sign_session sid ?s st)) k')"
    "\<And>st. snd (run_alone (k' ()) st) = st"
    using round1_thread_opens [OF assms c, of sid] by blast
  have "snd (run_alone (k False) st') = insert_frost_sign_session sid ?s st'" for st'
    by (simp add: k(3,4))
  then show ?thesis
    using k(1,2) by (intro exI [of _ k] conjI allI exI [of _ ?s]) simp_all
qed

lemma checks_need_no_export:
  assumes "frost_sign_round1_checks C F p share mh st = Inr (sc, msg, kp, pkp, vk)"
    and "vk \<in> exported_keys st1"
  shows "frost_sign_round1_checks C F p share mh st1 = Inl (Msg ''signing rejected: keyshare has been exported'')"
  using assms by (auto simp: frost_sign_round1_checks_def Let_def split: if_splits)

text \<open>
  Property C7: an export can overtake a first round. If the guard of round 1 has passed, and then
  an export of the key completes and answers the private key, the rest of round 1 still opens its
  session, for a key that is exported by now; a round 1 that starts after the export is refused.
\<close>

theorem export_overtakes_round1:
  assumes "frost_sign_round1_checks C F p share mh st = Inr (sc, msg, kp, pkp, vk)"
    and "frost_export_private_key C F S s1 s2 st = (Inr answer, insert_exported_key vk st)"
  shows "\<exists>k. frost_sign_round1_thread C F x sid p share mh = locked (\<lambda>st. (vk \<in> exported_keys st, st)) k
           \<and> vk \<notin> exported_keys st
           \<and> (\<exists>s st2. snd (run_alone (k False) (insert_exported_key vk st)) = st2
                \<and> frost_sign_sessions st2 sid = Some s \<and> fs_verifying_key_hex s = vk
                \<and> fs_nonces s \<noteq> None \<and> vk \<in> exported_keys st2)
           \<and> frost_sign_round1 C F x sid p share mh (insert_exported_key vk st) =
               (Inl (Msg ''signing rejected: keyshare has been exported''), insert_exported_key vk st)"
proof -
  have "vk \<in> exported_keys (insert_exported_key vk st)" by (simp add: session_defs)
  note refused = checks_need_no_export [OF assms(1) this]
  from round1_after_guard [OF assms(1), of x sid] obtain k where k:
    "frost_sign_round1_thread C F x sid p share mh = locked (\<lambda>st. (vk \<in> exported_keys st, st)) k"
    "vk \<notin> exported_keys st"
    "\<forall>st'. \<exists>s. fs_verifying_key_hex s = vk \<and> fs_message s = msg \<and> fs_nonces s \<noteq> None
       \<and> snd (run_alone (k False) st') = insert_frost_sign_session sid s st'" by blast
  from k(3) obtain s where s: "fs_verifying_key_hex s = vk" "fs_nonces s \<noteq> None"
    "snd (run_alone (k False) (insert_exported_key vk st)) =
       insert_frost_sign_session sid s (insert_exported_key vk st)" by blast
  show ?thesis
    using k(1,2) s refused
    by (intro exI [of _ k] conjI exI [of _ s]) (simp_all add: session_defs frost_sign_round1_def)
qed

theorem export_overtakes_round1_witness:
  "\<exists>p share s2 mh answer st1 k st2.
     frost_export_private_key ex_codecs ex_frost ex_scalars share s2 init_engine = (Inr answer, st1)
     \<and> frost_sign_thread ex_codecs ex_frost (ex_ctx []) ''s'' 1 p (Some share) (Some mh) =
         locked (\<lambda>st. (hex_encode ex_codecs (replicate 32 3) \<in> exported_keys st, st)) k
     \<and> snd (run_alone (k False) st1) = st2 \<and> frost_sign_sessions st2 ''s'' \<noteq> None
     \<and> hex_encode ex_codecs (replicate 32 3) \<in> exported_keys st2"
proof -
  let ?vk = "hex_encode ex_codecs (replicate 32 3)"
  obtain share s2 where share: "extract_share_material ex_codecs ex_frost share =
      Inr (KeyPackage (ex_scalar_kp 1 (3 + 4 * 1)), PublicKeyPackage (replicate 32 3))"
    and ex: "\<forall>st. \<exists>r. frost_export_private_key ex_codecs ex_frost ex_scalars share s2 st =
           (Inr r, insert_exported_key ?vk st)"
    by (rule ex_export)
  obtain answer where answer: "frost_export_private_key ex_codecs ex_frost ex_scalars share s2 init_engine =
      (Inr answer, insert_exported_key ?vk init_engine)"
    using ex by blast
  obtain p where p: "\<forall>share kp vk st. extract_share_material ex_codecs ex_frost share = Inr (kp, PublicKeyPackage vk) \<longrightarrow>
      hex_encode ex_codecs vk \<notin> exported_keys st \<longrightarrow>
      frost_sign_round1_checks ex_codecs ex_frost p (Some share) (Some (hex_encode ex_codecs [1, 2])) st =
        Inr (SigningCommitments [4], [1, 2], kp, PublicKeyPackage vk, hex_encode ex_codecs vk)"
    by (rule ex_round1_checks)
  have "?vk \<notin> exported_keys init_engine" by (simp add: init_engine_def)
  from export_overtakes_round1 [OF p [rule_format, OF share this] answer, of "ex_ctx []" "''s''"] answer
  show ?thesis by (fastforce simp: frost_sign_thread_def)
qed

text \<open>
  Property C8: an export can overtake a first round on secp256k1 too. If the preparation of round 1,
  with its guard, has passed, and then an export of the key answers the private key, the rest of
  round 1, which has its first batch to collect before, still opens the session, for a key that
  is exported by now; a round 1 that starts after the export is refused.
\<close>

theorem export_overtakes_secp_round1:
  assumes "json_law C" and "sign_prepare C D sid p share mh st = Inr (env, msgs, digest, pk, setup)"
    and "export_private_key C F D S s1 s2 st = (Inr answer, st1)" and "pk \<in> exported_keys st1"
    and "exchange (cc_schedule x) (new_link (map_task (sign_output D) (sign_run D setup (random_seed x)))) msgs =
           Some (Inr (Some out), l)"
  shows "pk \<notin> exported_keys st
    \<and> (\<exists>r s st2. sign_round1_rest C D x sid (env, msgs, digest, pk, setup) st1 = Some (Inr r, st2)
         \<and> sign_sessions st2 sid = Some s \<and> ss_public_key_hex s = pk \<and> \<not> ss_consumed s \<and> pk \<in> exported_keys st2)
    \<and> sign_round1 C D x sid p share mh st1 = Some (Inl (Msg ''signing rejected: keyshare has been exported''), st1)"
proof (intro conjI)
  show "pk \<notin> exported_keys st"
    using assms(2) by (auto simp: sign_prepare_def Let_def split: if_splits)
  obtain batch d where out: "out = (batch, d)" by (cases out)
  obtain r where "make_in_progress_batch C sid Dsg (we_round env) batch = Inr r"
    using batch_reads [OF assms(1)] by blast
  with assms(4,5) out show "\<exists>r s st2. sign_round1_rest C D x sid (env, msgs, digest, pk, setup) st1 = Some (Inr r, st2)
         \<and> sign_sessions st2 sid = Some s \<and> ss_public_key_hex s = pk \<and> \<not> ss_consumed s \<and> pk \<in> exported_keys st2"
    by (simp add: sign_round1_rest_def session_defs)
  show "sign_round1 C D x sid p share mh st1 = Some (Inl (Msg ''signing rejected: keyshare has been exported''), st1)"
    using assms(2,4) by (auto simp: sign_round1_def sign_prepare_def Let_def split: if_splits)
qed

theorem export_overtakes_secp_round1_witness:
  "\<exists>p share mh sid v answer st1 r st2.
     sign_prepare ex_codecs ex_dkls sid p (Some share) (Some mh) init_engine = Inr v
     \<and> export_private_key ex_codecs ex_frost ex_dkls ex_scalars share share init_engine = (Inr answer, st1)
     \<and> sign_round1_rest ex_codecs ex_dkls (ex_ctx ex_schedule) sid v st1 = Some (Inr r, st2)
     \<and> sign_sessions st2 sid \<noteq> None"
proof -
  let ?sid = "hex_encode ex_codecs (replicate 32 1)" and ?mh = "hex_encode ex_codecs (replicate 32 2)"
  let ?share = "b64_encode ex_codecs ex_ks" and ?ks = "Keyshare ex_ks"
  obtain p env where p: "parse_server_envelope_batch ex_codecs p = Inr (env, [[9]])"
    using ex_server_envelope by blast
  obtain e where e: "from_slice ex_codecs dec_share_envelope ex_ks = Inl e"
    using ex_not_envelope by blast
  have lib: "keyshare_from_bytes ex_dkls ex_ks = Some ?ks"
    "parse_derivation_path ex_dkls ''m'' = Inr (DerivationPath ''m'')" "exported_keys init_engine = {}"
    "sign_run ex_dkls su seed = ex_run [3] (EcdsaSignature (replicate 64 4), RecoveryId [1])"
    "cc_schedule (ex_ctx sch) = sch" for su seed sch
    by (simp_all add: ex_dkls_def init_engine_def ex_ctx_def)
  let ?pk = "hex_encode ex_codecs (encoded_point ex_dkls (public_key ex_dkls ?ks) True)"
  obtain digest su where prep: "sign_prepare ex_codecs ex_dkls ?sid p (Some ?share) (Some ?mh) init_engine =
      Inr (env, [[9]], digest, ?pk, su)"
    using p e
    by (simp add: sign_prepare_def message_digest_from_hex_def codec_simps ex_laws try_into_array_def
        share_envelope_decode_def lib instance_id_from_session_def)
  obtain answer st1 where ex: "export_private_key ex_codecs ex_frost ex_dkls ex_scalars ?share ?share init_engine =
      (Inr answer, st1)"
    by (rule ex_secp_export)
  have "secp_export_private_key ex_codecs ex_dkls ?share ?share init_engine = (Inr answer, st1)"
    using ex e by (simp add: export_private_key_def share_is_ed25519_def share_envelope_decode_def codec_simps ex_b64_law)
  from secp_export_Inr [OF this] have pk: "?pk \<in> exported_keys st1" by (auto simp: codec_simps ex_b64_law lib)
  have x: "exchange (cc_schedule (ex_ctx ex_schedule)) (new_link (map_task (sign_output ex_dkls) (sign_run ex_dkls su
      (random_seed (ex_ctx ex_schedule))))) [[9]] = Some (Inr (Some ([[3]], False)),
           \<lparr>inq = [], tx_open = True, outq = [], permit = False, waiter = NoWaiter,
            prog = Await (\<lambda>_. Finished (Inr (sign_output ex_dkls (EcdsaSignature (replicate 64 4), RecoveryId [1]))))\<rparr>)"
    by (simp add: lib ex_exchange_new)
  from export_overtakes_secp_round1 [OF ex_json_law prep ex pk x] prep ex show ?thesis by blast
qed

end
