(* ===== verification/Locks.thy ===== *)
theory Locks
  imports Runs
begin

text \<open>
  Calls of the secp256k1 path that overlap. A call of \<open>keygen\<close>, \<open>recover\<close> or \<open>sign\<close> with a
  round other than 1 meets the other calls at the lock of its session table, at the channels of
  its session, which it reaches through clones, and at the protocol task, which runs all the time.
  \<open>collect_batch\<close> runs with the lock held: for as long as the task does not answer, no other call
  gets past the lock. Here those rounds are written a second time, as workers that go from one
  such point to the next, and the pool of workers, tasks and the table is a step relation. A
  first round shares nothing before it puts its session into the table: it comes to the pool with
  the channels it has made and what its own batch left in them, and waits for the lock. A worker
  alone is the call of \<open>Dkls_Engine\<close>.
\<close>

section \<open>The table and the channels\<close>

text \<open>
  A session of a table, with its channels by reference: a call that has cloned \<open>tx_in\<close> keeps using
  the channel when the session has left the table.
\<close>

type_synonym channel = nat

record seat =
  at_channel :: channel
  at_has_task :: bool

record recovery_seat = seat +
  at_created :: nat
  at_rotation_version :: i32

record sign_seat = seat +
  at_digest :: message_digest
  at_consumed :: bool
  at_public_key_hex :: string

text \<open>What a table's lock protects, and the channels whose task has been told to abort.\<close>

record 'z desk =
  seats :: "string \<rightharpoonup> 'z seat_scheme"
  aborted :: "channel set"

type_synonym keygen_desk = "unit desk"
type_synonym recovery_desk = "unit recovery_seat_ext desk"
type_synonym sign_desk = "unit sign_seat_ext desk"

record ('z, 'r) hall =
  desk :: "'z desk"
  links :: "channel \<Rightarrow> 'r link"
  holder :: "nat option"
  next_channel :: channel

section \<open>Calls\<close>

text \<open>
  The points at which a call meets the others. \<open>Section k g\<close> locks the table, goes on as \<open>k\<close> says
  for what it reads and writes \<open>g\<close>; it lets the lock go, unless \<open>collect_batch\<close> comes next.
  \<open>Holding e t\<close> keeps an end of a channel until the call answers: a sender into a task, or the
  receiver of what the task sends. \<open>Collect_batch c q k\<close> receives on \<open>c\<close> and listens to the
  \<open>Notify\<close> of \<open>q\<close>. \<open>Spawn l k\<close> makes a session's channels, in the state \<open>l\<close>.
\<close>

datatype endpoint = Tx channel | Rx channel

datatype ('d, 'r) call =
    Answer "string res"
  | Section "'d \<Rightarrow> ('d, 'r) call" "'d \<Rightarrow> 'd"
  | Holding endpoint "('d, 'r) call"
  | Send channel bytes "bool \<Rightarrow> ('d, 'r) call"
  | Collect_batch channel channel "(bytes list \<times> bool) option \<Rightarrow> ('d, 'r) call"
  | Join channel "string + (string + 'r) \<Rightarrow> ('d, 'r) call"
  | Spawn "'r link" "channel \<Rightarrow> ('d, 'r) call"

definition under_lock :: "('d \<Rightarrow> 'a \<times> 'd) \<Rightarrow> ('a \<Rightarrow> ('d, 'r) call) \<Rightarrow> ('d, 'r) call" where
  "under_lock access k = Section (\<lambda>d. k (fst (access d))) (\<lambda>d. snd (access d))"

definition returning :: "'a res \<Rightarrow> ('a \<Rightarrow> ('d, 'r) call) \<Rightarrow> ('d, 'r) call" where
  "returning r k = (case r of Inl e \<Rightarrow> Answer (Inl e) | Inr v \<Rightarrow> k v)"

primrec send_all :: "channel \<Rightarrow> bytes list \<Rightarrow> (unit res \<Rightarrow> ('d, 'r) call) \<Rightarrow> ('d, 'r) call" where
  "send_all c [] k = k (Inr ())"
| "send_all c (m # ms) k =
     Send c m (\<lambda>taken.
       if taken then send_all c ms k
       else k (Inl (Wrap ''failed to inject message'' ''channel closed'')))"

text \<open>The accesses to the table: look a session up, take it out, put one in.\<close>

definition find_seat :: "string \<Rightarrow> 'z desk \<Rightarrow> 'z seat_scheme option \<times> 'z desk" where
  "find_seat session_id d = (seats d session_id, d)"

definition take_seat :: "string \<Rightarrow> 'z desk \<Rightarrow> 'z seat_scheme option \<times> 'z desk" where
  "take_seat session_id d = (seats d session_id, d\<lparr>seats := (seats d)(session_id := None)\<rparr>)"

definition put_seat :: "string \<Rightarrow> 'z seat_scheme \<Rightarrow> 'z desk \<Rightarrow> unit \<times> 'z desk" where
  "put_seat session_id seat d = ((), d\<lparr>seats := (seats d)(session_id \<mapsto> seat)\<rparr>)"

text \<open>
  The end of a later round whose task is done: take the session out and join its task. The
  receiver goes when the session is taken apart.
\<close>

definition finish_call ::
  "string \<Rightarrow> string \<Rightarrow> ('z seat_scheme \<Rightarrow> string + (string + 'r) \<Rightarrow> string res)
   \<Rightarrow> ('z desk, 'r) call" where
  "finish_call kind session_id reply =
     under_lock (take_seat session_id) (\<lambda>taken.
     returning (ok_or taken (NotFound kind session_id)) (\<lambda>seat.
       if \<not> at_has_task seat then Answer (Inl (Msg ''no task handle''))
       else Join (at_channel seat) (\<lambda>j. Answer (reply seat j))))"

text \<open>Collect mode: the session's sender is dropped, its receiver stays until the call answers.\<close>

definition collect_mode_call ::
  "string \<Rightarrow> string \<Rightarrow> ('z seat_scheme \<Rightarrow> string + (string + 'r) \<Rightarrow> string res)
   \<Rightarrow> ('z desk, 'r) call" where
  "collect_mode_call kind session_id reply =
     under_lock (take_seat session_id) (\<lambda>taken.
     returning (ok_or taken (NotFound kind session_id)) (\<lambda>seat.
     Holding (Rx (at_channel seat)) (
       if \<not> at_has_task seat then Answer (Inl (Msg ''no task handle''))
       else Join (at_channel seat) (\<lambda>j. Answer (reply seat j)))))"

text \<open>
  The end of a first round: its session, with the channels it has made, goes into the table. What
  was in the table under this id is dropped.
\<close>

definition open_call :: "'r link \<Rightarrow> string \<Rightarrow> (channel \<Rightarrow> 'z seat_scheme) \<Rightarrow> string res \<Rightarrow> ('z desk, 'r) call" where
  "open_call link session_id seat reply =
     Spawn link (\<lambda>c. Holding (Tx c) (Holding (Rx c) (
       under_lock (put_seat session_id (seat c)) (\<lambda>_. Answer reply))))"

subsection \<open>Keygen\<close>

text \<open>
  The later rounds clone the sender and the \<open>Notify\<close> of the session they look up first, and
  receive from the session they find under the lock.
\<close>

definition keygen_advance_call ::
  "codecs \<Rightarrow> dkls_lib \<Rightarrow> string \<Rightarrow> string \<Rightarrow> (keygen_desk, bytes) call" where
  "keygen_advance_call C D session_id server_payload =
     under_lock (find_seat session_id) (\<lambda>found.
     returning (ok_or found (NotFound ''keygen'' session_id)) (\<lambda>first.
     Holding (Tx (at_channel first)) (
     returning (parse_server_envelope_batch C server_payload) (\<lambda>(server_env, server_msgs).
     send_all (at_channel first) server_msgs (\<lambda>injected.
     returning injected (\<lambda>_.
     under_lock (find_seat session_id) (\<lambda>found.
     returning (ok_or found (NotFound ''keygen'' session_id)) (\<lambda>seat.
     Collect_batch (at_channel seat) (at_channel first) (\<lambda>next_msgs.
       case next_msgs of
         Some (client_msgs, _) \<Rightarrow>
           Answer (make_in_progress_batch C session_id Dkg (we_round server_env) client_msgs)
       | None \<Rightarrow>
           finish_call ''keygen'' session_id (\<lambda>_ j.
             andThen (join_result ''keygen task join error'' ''keygen protocol error'' j)
               (\<lambda>ks_bytes. keygen_completed_reply C D session_id (we_round server_env) ks_bytes)))))))))))"

definition keygen_collect_call ::
  "codecs \<Rightarrow> dkls_lib \<Rightarrow> string \<Rightarrow> (keygen_desk, bytes) call" where
  "keygen_collect_call C D session_id =
     collect_mode_call ''keygen'' session_id (\<lambda>_ j.
       andThen (join_result ''keygen task join error'' ''keygen protocol error'' j)
         (\<lambda>ks_bytes. keygen_completed_reply C D session_id 0 ks_bytes))"

subsection \<open>Recover\<close>

definition find_live_seat ::
  "call_ctx \<Rightarrow> string \<Rightarrow> recovery_desk \<Rightarrow> recovery_seat res \<times> recovery_desk" where
  "find_live_seat x session_id d =
     (case seats d session_id of
        None \<Rightarrow> (Inl (NotFound ''recovery'' session_id), d)
      | Some seat \<Rightarrow>
          if elapsed (cc_now x) (at_created seat) > SESSION_TTL then
            (Inl (Expired ''recovery'' session_id),
             d\<lparr>seats := (seats d)(session_id := None),
               aborted := (if at_has_task seat then insert (at_channel seat) (aborted d) else aborted d)\<rparr>)
          else (Inr seat, d))"

text \<open>The rotation version of the reply is the one read with the first lookup.\<close>

definition recover_advance_call ::
  "codecs \<Rightarrow> dkls_lib \<Rightarrow> call_ctx \<Rightarrow> string \<Rightarrow> string \<Rightarrow> (recovery_desk, bytes) call" where
  "recover_advance_call C D x session_id server_payload =
     under_lock (find_live_seat x session_id) (\<lambda>found.
     returning found (\<lambda>first.
     Holding (Tx (at_channel first)) (
     returning (parse_server_envelope_batch C server_payload) (\<lambda>(server_env, server_msgs).
     send_all (at_channel first) server_msgs (\<lambda>injected.
     returning injected (\<lambda>_.
     under_lock (find_seat session_id) (\<lambda>found.
     returning (ok_or found (NotFound ''recovery'' session_id)) (\<lambda>seat.
     Collect_batch (at_channel seat) (at_channel first) (\<lambda>next_msgs.
       case next_msgs of
         Some (client_msgs, _) \<Rightarrow>
           Answer (make_in_progress_batch C session_id Rotation (we_round server_env) client_msgs)
       | None \<Rightarrow>
           finish_call ''recovery'' session_id (\<lambda>_ j.
             andThen (join_result ''key_refresh task join error'' ''key_refresh protocol error'' j)
               (\<lambda>ks_bytes. recovery_completed_reply C D x session_id (we_round server_env)
                              (at_rotation_version first) ks_bytes)))))))))))"

definition recover_collect_call ::
  "codecs \<Rightarrow> dkls_lib \<Rightarrow> call_ctx \<Rightarrow> string \<Rightarrow> (recovery_desk, bytes) call" where
  "recover_collect_call C D x session_id =
     collect_mode_call ''recovery'' session_id (\<lambda>seat j.
       andThen (join_result ''key_refresh task join error'' ''key_refresh protocol error'' j)
         (\<lambda>ks_bytes. recovery_completed_reply C D x session_id 0 (at_rotation_version seat) ks_bytes))"

subsection \<open>Sign\<close>

text \<open>The first lookup checks \<open>consumed\<close>, the second sets it, and a round that goes on resets it.\<close>

definition find_unconsumed :: "string \<Rightarrow> sign_desk \<Rightarrow> sign_seat res \<times> sign_desk" where
  "find_unconsumed session_id d =
     (case seats d session_id of
        None \<Rightarrow> (Inl (NotFound ''sign'' session_id), d)
      | Some seat \<Rightarrow>
          (if at_consumed seat then Inl (Consumed ''sign'' session_id) else Inr seat, d))"

definition mark_consumed :: "bool \<Rightarrow> string \<Rightarrow> sign_desk \<Rightarrow> sign_seat option \<times> sign_desk" where
  "mark_consumed v session_id d =
     (seats d session_id,
      d\<lparr>seats := (seats d)(session_id := map_option (at_consumed_update (\<lambda>_. v)) (seats d session_id))\<rparr>)"

definition sign_advance_call :: "codecs \<Rightarrow> string \<Rightarrow> string \<Rightarrow> (sign_desk, bytes \<times> byte) call" where
  "sign_advance_call C session_id server_payload =
     under_lock (find_unconsumed session_id) (\<lambda>found.
     returning found (\<lambda>first.
     Holding (Tx (at_channel first)) (
     returning (parse_server_envelope_batch C server_payload) (\<lambda>(server_env, server_msgs).
     send_all (at_channel first) server_msgs (\<lambda>injected.
     returning injected (\<lambda>_.
     under_lock (mark_consumed True session_id) (\<lambda>found.
     returning (ok_or found (NotFound ''sign'' session_id)) (\<lambda>seat.
     Collect_batch (at_channel seat) (at_channel first) (\<lambda>next_msgs.
       case next_msgs of
         Some (client_msgs, _) \<Rightarrow>
           under_lock (mark_consumed False session_id) (\<lambda>_.
           Answer (make_in_progress_batch C session_id Dsg (we_round server_env) client_msgs))
       | None \<Rightarrow>
           finish_call ''sign'' session_id (\<lambda>_ j.
             andThen (join_result ''sign task join error'' ''sign protocol error'' j)
               (\<lambda>sig_out. sign_completed_reply C (we_round server_env) sig_out)))))))))))"

section \<open>The pool\<close>

record ('z, 'r) worker =
  holds :: "endpoint set"
  stage :: phase
  code :: "('z desk, 'r) call"

text \<open>
  A worker stands at its next meeting point, before the first step of \<open>collect_batch\<close> if that is
  what comes next; what it holds is dropped when it has its answer.
\<close>

fun settle :: "endpoint set \<Rightarrow> ('z desk, 'r) call \<Rightarrow> ('z, 'r) worker" where
  "settle E (Holding e t) = settle (insert e E) t"
| "settle E (Answer r) = \<lparr>holds = {}, stage = Enter, code = Answer r\<rparr>"
| "settle E t = \<lparr>holds = E, stage = Enter, code = t\<rparr>"

fun collecting :: "('d, 'r) call \<Rightarrow> bool" where
  "collecting (Collect_batch _ _ _) = True"
| "collecting _ = False"

text \<open>
  An end of a channel is there while a session of the table or a worker has it. A task that finds
  no sender gets the end of its input; one that finds no receiver cannot send.
\<close>

definition has_sender :: "('z, 'r) worker list \<Rightarrow> 'z desk \<Rightarrow> channel \<Rightarrow> bool" where
  "has_sender ws d c \<longleftrightarrow> (\<exists>w\<in>set ws. Tx c \<in> holds w) \<or> c \<in> at_channel ` ran (seats d)"

definition has_receiver :: "('z, 'r) worker list \<Rightarrow> 'z desk \<Rightarrow> channel \<Rightarrow> bool" where
  "has_receiver ws d c \<longleftrightarrow> (\<exists>w\<in>set ws. Rx c \<in> holds w) \<or> c \<in> at_channel ` ran (seats d)"

definition link_at :: "('z, 'r) worker list \<Rightarrow> ('z, 'r) hall \<Rightarrow> channel \<Rightarrow> 'r link" where
  "link_at ws h c = (links h c)\<lparr>tx_open := has_sender ws (desk h) c\<rparr>"

definition set_link :: "channel \<Rightarrow> 'r link \<Rightarrow> ('z, 'r) hall \<Rightarrow> ('z, 'r) hall" where
  "set_link c l h = h\<lparr>links := (links h)(c := l)\<rparr>"

text \<open>The next step of a task, and what it sends with it.\<close>

definition task_move :: "bool \<Rightarrow> 'r link \<Rightarrow> 'r link" where
  "task_move received l =
     (case prog l of
        Emit m k \<Rightarrow> if received then task_step l else l\<lparr>prog := k False\<rparr>
      | _ \<Rightarrow> task_step l)"

definition move_emits :: "bool \<Rightarrow> 'r link \<Rightarrow> bytes list" where
  "move_emits received l = (if received then task_emits l else [])"

text \<open>
  \<open>collect_batch\<close> with the receiver of \<open>c\<close> and the \<open>Notify\<close> of \<open>q\<close>, which are those of one session
  unless the session was replaced between the two lookups of the call.
\<close>

fun collect_at ::
  "channel \<Rightarrow> channel \<Rightarrow> (channel \<Rightarrow> 'r link) \<Rightarrow> phase \<Rightarrow> (channel \<Rightarrow> 'r link) \<times> phase" where
  "collect_at c q ls Enter = (ls(q := enable (ls q)), First)"
| "collect_at c q ls First =
     (case outq (ls c) of
        m # ms \<Rightarrow> (ls(c := (ls c)\<lparr>outq := ms\<rparr>), Select [m])
      | [] \<Rightarrow>
          if task_done (prog (ls c)) then (ls(q := (ls q)\<lparr>waiter := NoWaiter\<rparr>), Returned None)
          else (ls, First))"
| "collect_at c q ls (Select msgs) =
     (if waiter (ls q) = Notified then (ls(q := (ls q)\<lparr>waiter := NoWaiter\<rparr>), Drain msgs False)
      else case outq (ls c) of
        m # ms \<Rightarrow> (ls(c := (ls c)\<lparr>outq := ms\<rparr>), Select (msgs @ [m]))
      | [] \<Rightarrow>
          if task_done (prog (ls c)) then (ls(q := (ls q)\<lparr>waiter := NoWaiter\<rparr>), Drain msgs True)
          else (ls, Select msgs))"
| "collect_at c q ls (Drain msgs protocol_done) =
     (case outq (ls c) of
        m # ms \<Rightarrow> (ls(c := (ls c)\<lparr>outq := ms\<rparr>), Drain (msgs @ [m]) protocol_done)
      | [] \<Rightarrow> (ls, Returned (Some (msgs, protocol_done))))"
| "collect_at c q ls (Returned r) = (ls, Returned r)"

lemma collect_at_same:
  "collect_at c c ls p = (case collect_step (ls c) p of (l, p') \<Rightarrow> (ls(c := l), p'))"
  by (cases p) (auto split: list.split)

text \<open>
  What a move lets be seen: messages a task sends, the batch a call takes, and a channel that is
  made, with what is queued on it.
\<close>

datatype event = Silent | Sent channel "bytes list" | Taken channel "bytes list" | Opened channel "bytes list"

text \<open>
  One move of a task, or of the worker \<open>i\<close>. An aborted task stops at some later moment; a worker
  that waits for room in a channel, for its batch or for a task makes no move that shows.
\<close>

inductive step ::
  "('z, 'r) worker list \<Rightarrow> ('z, 'r) hall \<Rightarrow> event \<Rightarrow> ('z, 'r) worker list \<Rightarrow> ('z, 'r) hall \<Rightarrow> bool"
where
  Move_task: "c < next_channel h \<Longrightarrow> l = link_at ws h c \<Longrightarrow> x = has_receiver ws (desk h) c \<Longrightarrow>
     step ws h (Sent c (move_emits x l)) ws (set_link c (task_move x l) h)"
| Move_cancel: "c \<in> aborted (desk h) \<Longrightarrow> \<not> task_done (prog (links h c)) \<Longrightarrow>
     step ws h Silent ws (set_link c ((links h c)\<lparr>prog := Crashed ''task was cancelled''\<rparr>) h)"
| Move_section: "i < length ws \<Longrightarrow> code (ws ! i) = Section k g \<Longrightarrow> holder h = None \<Longrightarrow>
     w = settle (holds (ws ! i)) (k (desk h)) \<Longrightarrow>
     step ws h Silent (ws[i := w])
       (h\<lparr>desk := g (desk h), holder := if collecting (code w) then Some i else None\<rparr>)"
| Move_send: "i < length ws \<Longrightarrow> code (ws ! i) = Send c m k \<Longrightarrow> l = link_at ws h c \<Longrightarrow>
     \<not> task_done (prog l) \<Longrightarrow> length (inq l) < in_capacity \<Longrightarrow>
     step ws h Silent (ws[i := settle (holds (ws ! i)) (k True)]) (set_link c (l\<lparr>inq := inq l @ [m]\<rparr>) h)"
| Move_send_closed: "i < length ws \<Longrightarrow> code (ws ! i) = Send c m k \<Longrightarrow> l = link_at ws h c \<Longrightarrow>
     task_done (prog l) \<Longrightarrow>
     step ws h Silent (ws[i := settle (holds (ws ! i)) (k False)]) (set_link c l h)"
| Move_collect: "i < length ws \<Longrightarrow> code (ws ! i) = Collect_batch c q k \<Longrightarrow> \<not> returned (stage (ws ! i)) \<Longrightarrow>
     collect_at c q ((links h)(c := link_at ws h c)) (stage (ws ! i)) = (ls, p) \<Longrightarrow>
     step ws h Silent (ws[i := (ws ! i)\<lparr>stage := p\<rparr>]) (h\<lparr>links := ls\<rparr>)"
| Move_return: "i < length ws \<Longrightarrow> code (ws ! i) = Collect_batch c q k \<Longrightarrow> stage (ws ! i) = Returned r \<Longrightarrow>
     step ws h (Taken c (phase_msgs (Returned r)))
       (ws[i := settle (holds (ws ! i)) (k r)]) (h\<lparr>holder := None\<rparr>)"
| Move_join: "i < length ws \<Longrightarrow> code (ws ! i) = Join c k \<Longrightarrow>
     l = link_at ws h c \<Longrightarrow> task_outcome (prog l) = Some j \<Longrightarrow>
     step ws h Silent (ws[i := settle (holds (ws ! i)) (k j)]) (set_link c l h)"
| Move_spawn: "i < length ws \<Longrightarrow> code (ws ! i) = Spawn l k \<Longrightarrow> c = next_channel h \<Longrightarrow>
     step ws h (Opened c (outq l)) (ws[i := settle (holds (ws ! i)) (k c)])
       ((set_link c l h)\<lparr>next_channel := Suc c\<rparr>)"

text \<open>A run of the pool: moves, and at any time a further call that is one of \<open>K\<close>.\<close>

inductive runs ::
  "('z desk, 'r) call set \<Rightarrow> ('z, 'r) worker list \<Rightarrow> ('z, 'r) hall \<Rightarrow> event list
   \<Rightarrow> ('z, 'r) worker list \<Rightarrow> ('z, 'r) hall \<Rightarrow> bool"
  for K :: "('z desk, 'r) call set" where
  Runs_nil: "runs K ws h [] ws h"
| Runs_step: "runs K ws h es ws' h' \<Longrightarrow> step ws' h' e ws'' h'' \<Longrightarrow> runs K ws h (es @ [e]) ws'' h''"
| Runs_call: "runs K ws h es ws' h' \<Longrightarrow> t \<in> K \<Longrightarrow> runs K ws h es (ws' @ [settle {} t]) h'"

text \<open>
  The first rounds of each table, defined from what the first round of \<open>Dkls_Engine\<close> answers: what
  the call does before it puts the session into the table is done, and the call that is left opens
  the session and answers. The calls that fail before do not come to the table at all and are not
  among these.
\<close>

definition keygen_first_calls :: "codecs \<Rightarrow> dkls_lib \<Rightarrow> (keygen_desk, bytes) call set" where
  "keygen_first_calls C D =
     {t. \<exists>x sid p st r s. keygen_sessions st sid = None
        \<and> keygen_round1 C D x sid p st = Some (r, insert_keygen_session sid s st)
        \<and> t = open_call (ks_link s) sid (\<lambda>c. \<lparr>at_channel = c, at_has_task = ks_has_task s\<rparr>) r}"

definition recover_first_calls :: "codecs \<Rightarrow> dkls_lib \<Rightarrow> (recovery_desk, bytes) call set" where
  "recover_first_calls C D =
     {t. \<exists>x sid p share rv st r s. recovery_sessions st sid = None
        \<and> recover_round1 C D x sid p share rv st = Some (r, insert_recovery_session sid s st)
        \<and> t = open_call (rs_link s) sid
                (\<lambda>c. \<lparr>at_channel = c, at_has_task = rs_has_task s, at_created = rs_created_at s,
                     at_rotation_version = rs_rotation_version s\<rparr>) r}"

definition sign_first_calls :: "codecs \<Rightarrow> dkls_lib \<Rightarrow> (sign_desk, bytes \<times> byte) call set" where
  "sign_first_calls C D =
     {t. \<exists>x sid p share mh st r s. sign_sessions st sid = None
        \<and> sign_round1 C D x sid p share mh st = Some (r, insert_sign_session sid s st)
        \<and> t = open_call (ss_link s) sid
                (\<lambda>c. \<lparr>at_channel = c, at_has_task = ss_has_task s, at_digest = ss_digest s,
                     at_consumed = ss_consumed s, at_public_key_hex = ss_public_key_hex s\<rparr>) r}"

text \<open>The calls of each table: first rounds, later rounds and collect mode.\<close>

definition keygen_calls :: "codecs \<Rightarrow> dkls_lib \<Rightarrow> (keygen_desk, bytes) call set" where
  "keygen_calls C D = keygen_first_calls C D \<union> range (\<lambda>(sid, p). keygen_advance_call C D sid p)
     \<union> range (keygen_collect_call C D)"

definition recover_calls :: "codecs \<Rightarrow> dkls_lib \<Rightarrow> (recovery_desk, bytes) call set" where
  "recover_calls C D = recover_first_calls C D
     \<union> range (\<lambda>(x, sid, p). recover_advance_call C D x sid p) \<union> range (\<lambda>(x, sid). recover_collect_call C D x sid)"

definition sign_calls :: "codecs \<Rightarrow> dkls_lib \<Rightarrow> (sign_desk, bytes \<times> byte) call set" where
  "sign_calls C D = sign_first_calls C D \<union> range (\<lambda>(sid, p). sign_advance_call C sid p)"

section \<open>One holder\<close>

text \<open>A call collects only right after it has taken the lock.\<close>

primrec well_locked :: "('d, 'r) call \<Rightarrow> bool \<Rightarrow> bool" where
  "well_locked (Answer r) b = True"
| "well_locked (Section k g) b = (\<forall>d. well_locked (k d) True)"
| "well_locked (Holding e t) b = well_locked t b"
| "well_locked (Send c m k) b = (\<forall>x. well_locked (k x) False)"
| "well_locked (Collect_batch c q k) b = (b \<and> (\<forall>r. well_locked (k r) False))"
| "well_locked (Join c k) b = (\<forall>j. well_locked (k j) False)"
| "well_locked (Spawn l k) b = (\<forall>c. well_locked (k c) False)"

lemma well_locked_mono: "well_locked t False \<Longrightarrow> well_locked t b"
  by (induction t arbitrary: b) auto

lemma settle_well_locked: "well_locked t b \<Longrightarrow> well_locked (code (settle s t)) True"
  by (induction s t rule: settle.induct) (cases b; auto intro: well_locked_mono)+

lemma settle_collecting: "well_locked t False \<Longrightarrow> \<not> collecting (code (settle s t))"
  by (induction s t rule: settle.induct) auto

definition exclusive :: "('z, 'r) worker list \<Rightarrow> ('z, 'r) hall \<Rightarrow> bool" where
  "exclusive ws h \<longleftrightarrow>
     (\<forall>i<length ws. well_locked (code (ws ! i)) True \<and> (collecting (code (ws ! i)) \<longleftrightarrow> holder h = Some i))
     \<and> (\<forall>i. holder h = Some i \<longrightarrow> i < length ws)"

lemma exclusiveD:
  assumes "exclusive ws h" and "i < length ws"
  shows "well_locked (code (ws ! i)) True" and "collecting (code (ws ! i)) \<longleftrightarrow> holder h = Some i"
  using assms by (auto simp: exclusive_def)

text \<open>What an update of one worker has to give.\<close>

lemma exclusive_update:
  assumes "exclusive ws h" and "i < length ws" and "well_locked (code w) True"
    and "\<And>j. j < length ws \<Longrightarrow> j \<noteq> i \<Longrightarrow> holder h' = Some j \<longleftrightarrow> holder h = Some j"
    and "collecting (code w) \<longleftrightarrow> holder h' = Some i"
    and "\<And>j. holder h' = Some j \<Longrightarrow> j < length ws"
  shows "exclusive (ws[i := w]) h'"
  using assms by (auto simp: exclusive_def nth_list_update)

lemma set_link_fields [simp]:
  "desk (set_link c l h) = desk h" "holder (set_link c l h) = holder h"
  "next_channel (set_link c l h) = next_channel h"
  "links (set_link c l h) = (links h)(c := l)"
  by (simp_all add: set_link_def)

lemma exclusive_step: "step ws h e ws' h' \<Longrightarrow> exclusive ws h \<Longrightarrow> exclusive ws' h'"
proof (induction rule: step.induct)
  case (Move_task c h l x ws)
  then show ?case by (simp add: exclusive_def)
next
  case (Move_cancel c h ws)
  then show ?case by (simp add: exclusive_def)
next
  case (Move_section i ws k g h w)
  have "well_locked (k (desk h)) True"
    using exclusiveD(1) [OF Move_section.prems Move_section.hyps(1)] Move_section.hyps(2) by simp
  then have "well_locked (code w) True"
    unfolding Move_section.hyps(4) by (rule settle_well_locked)
  with Move_section show ?case
    by (intro exclusive_update [of _ h]) (auto split: if_splits)
next
  case (Move_send i ws c m k l h)
  have "well_locked (k True) False"
    using exclusiveD(1) [OF Move_send.prems Move_send.hyps(1)] Move_send.hyps(2) by simp
  with Move_send exclusiveD(2) [OF Move_send.prems Move_send.hyps(1)] show ?case
    by (intro exclusive_update [of _ h])
       (auto simp: settle_collecting settle_well_locked exclusive_def)
next
  case (Move_send_closed i ws c m k l h)
  have "well_locked (k False) False"
    using exclusiveD(1) [OF Move_send_closed.prems Move_send_closed.hyps(1)] Move_send_closed.hyps(2) by simp
  with Move_send_closed exclusiveD(2) [OF Move_send_closed.prems Move_send_closed.hyps(1)] show ?case
    by (intro exclusive_update [of _ h])
       (auto simp: settle_collecting settle_well_locked exclusive_def)
next
  case (Move_collect i ws c q k h ls p)
  with exclusiveD [OF Move_collect.prems Move_collect.hyps(1)] show ?case
    by (intro exclusive_update [of _ h]) (auto simp: exclusive_def)
next
  case (Move_return i ws c q k r h)
  note at_i = exclusiveD [OF Move_return.prems Move_return.hyps(1)]
  have "well_locked (k r) False" "holder h = Some i"
    using at_i Move_return.hyps(2) by simp_all
  with Move_return show ?case
    by (intro exclusive_update [of _ h]) (auto simp: settle_collecting settle_well_locked)
next
  case (Move_join i ws c k l h j)
  have "well_locked (k j) False"
    using exclusiveD(1) [OF Move_join.prems Move_join.hyps(1)] Move_join.hyps(2) by simp
  with Move_join exclusiveD(2) [OF Move_join.prems Move_join.hyps(1)] show ?case
    by (intro exclusive_update [of _ h])
       (auto simp: settle_collecting settle_well_locked exclusive_def)
next
  case (Move_spawn i ws l k c h)
  have "well_locked (k c) False"
    using exclusiveD(1) [OF Move_spawn.prems Move_spawn.hyps(1)] Move_spawn.hyps(2) by simp
  with Move_spawn exclusiveD(2) [OF Move_spawn.prems Move_spawn.hyps(1)] show ?case
    by (intro exclusive_update [of _ h])
       (auto simp: settle_collecting settle_well_locked exclusive_def)
qed

lemma exclusive_spawn:
  assumes "exclusive ws h" and "well_locked t False"
  shows "exclusive (ws @ [settle {} t]) h"
  using assms settle_collecting [OF assms(2), of "{}"] settle_well_locked [OF assms(2), of "{}"]
  by (fastforce simp: exclusive_def nth_append less_Suc_eq)

lemma exclusive_runs:
  "runs K ws h es ws' h' \<Longrightarrow> exclusive ws h \<Longrightarrow> \<forall>t\<in>K. well_locked t False \<Longrightarrow> exclusive ws' h'"
  by (induction rule: runs.induct) (blast intro: exclusive_step exclusive_spawn)+

subsection \<open>The calls are well locked\<close>

lemma well_locked_simps [simp]:
  "well_locked (under_lock access k) b \<longleftrightarrow> (\<forall>d. well_locked (k (fst (access d))) True)"
  "well_locked (returning r t) b \<longleftrightarrow> (\<forall>v. r = Inr v \<longrightarrow> well_locked (t v) b)"
  by (auto simp: under_lock_def returning_def split: sum.split)

lemma well_locked_send_all: "(\<And>r. well_locked (k r) False) \<Longrightarrow> well_locked (send_all c ms k) False"
  by (induction ms) auto

lemma well_locked_parts:
  "well_locked (finish_call kind sid reply) b" "well_locked (collect_mode_call kind sid reply) b"
  "well_locked (open_call l sid seat r) b"
  by (simp_all add: finish_call_def collect_mode_call_def open_call_def)

lemma well_locked_advance:
  "well_locked (keygen_advance_call C D sid p) False"
  "well_locked (recover_advance_call C D x sid p) False"
  "well_locked (sign_advance_call C sid p) False"
  by (auto simp: keygen_advance_call_def recover_advance_call_def sign_advance_call_def
      well_locked_parts split: option.split intro!: well_locked_send_all well_locked_mono [OF well_locked_send_all])

lemma well_locked_collect:
  "well_locked (keygen_collect_call C D sid) False"
  "well_locked (recover_collect_call C D x sid) False"
  by (simp_all add: keygen_collect_call_def recover_collect_call_def well_locked_parts)

lemma well_locked_calls:
  "t \<in> keygen_calls C D \<Longrightarrow> well_locked t False"
  "u \<in> recover_calls C D \<Longrightarrow> well_locked u False"
  "v \<in> sign_calls C D \<Longrightarrow> well_locked v False"
  by (auto simp: keygen_calls_def recover_calls_def sign_calls_def keygen_first_calls_def
      recover_first_calls_def sign_first_calls_def well_locked_advance well_locked_collect well_locked_parts)

lemma calls_members:
  "keygen_advance_call C D sid p \<in> keygen_calls C D"
  "recover_advance_call C D x sid p \<in> recover_calls C D"
  "sign_advance_call C sid p \<in> sign_calls C D"
  unfolding keygen_calls_def recover_calls_def sign_calls_def
  by (rule UnI1, rule UnI2, rule range_eqI [of _ _ "(sid, p)"], simp)
     (rule UnI1, rule UnI2, rule range_eqI [of _ _ "(x, sid, p)"], simp,
      rule UnI2, rule range_eqI [of _ _ "(sid, p)"], simp)

section \<open>Channels that are made once\<close>

text \<open>The sessions of the table, and the calls, know only channels that have been made.\<close>

definition desk_below :: "channel \<Rightarrow> 'z desk \<Rightarrow> bool" where
  "desk_below n d \<longleftrightarrow>
     (\<forall>sid s. seats d sid = Some s \<longrightarrow> at_channel s < n) \<and> (\<forall>c\<in>aborted d. c < n)"

primrec below :: "('z desk, 'r) call \<Rightarrow> channel \<Rightarrow> bool" where
  "below (Answer r) n = True"
| "below (Section k g) n =
     (\<forall>n'\<ge>n. \<forall>d. desk_below n' d \<longrightarrow> below (k d) n' \<and> desk_below n' (g d))"
| "below (Holding e t) n = below t n"
| "below (Send c m k) n = (c < n \<and> (\<forall>b. below (k b) n))"
| "below (Collect_batch c q k) n = (c < n \<and> q < n \<and> (\<forall>r. below (k r) n))"
| "below (Join c k) n = (c < n \<and> (\<forall>j. below (k j) n))"
| "below (Spawn l k) n = (\<forall>n'\<ge>n. \<forall>c<n'. below (k c) n')"

lemma below_mono: "below t n \<Longrightarrow> n \<le> n' \<Longrightarrow> below t n'"
  by (induction t arbitrary: n) auto

lemma desk_below_mono: "desk_below n d \<Longrightarrow> n \<le> n' \<Longrightarrow> desk_below n' d"
  by (auto simp: desk_below_def dest: less_le_trans)

lemma below_settle: "below t n \<Longrightarrow> below (code (settle E t)) n"
  by (induction E t rule: settle.induct) auto

definition placed :: "('z, 'r) worker list \<Rightarrow> ('z, 'r) hall \<Rightarrow> bool" where
  "placed ws h \<longleftrightarrow> desk_below (next_channel h) (desk h) \<and> (\<forall>w\<in>set ws. below (code w) (next_channel h))"

lemma placedD: "placed ws h \<Longrightarrow> i < length ws \<Longrightarrow> below (code (ws ! i)) (next_channel h)"
  by (simp add: placed_def)

lemma placed_update:
  assumes "placed ws h" and "below (code w) (next_channel h')" and "desk_below (next_channel h') (desk h')"
    and "next_channel h \<le> next_channel h'"
  shows "placed (ws[i := w]) h'"
  using assms by (auto simp: placed_def intro: below_mono dest!: subsetD [OF set_update_subset_insert])

lemma placed_step: "step ws h e ws' h' \<Longrightarrow> placed ws h \<Longrightarrow> placed ws' h'"
proof (induction rule: step.induct)
  case (Move_task c h l x ws)
  then show ?case by (simp add: placed_def)
next
  case (Move_cancel c h ws)
  then show ?case by (simp add: placed_def)
next
  case (Move_section i ws k g h w)
  then have "below (Section k g) (next_channel h)" "desk_below (next_channel h) (desk h)"
    using placedD [OF Move_section.prems Move_section.hyps(1)] by (simp_all add: placed_def)
  with Move_section show ?case by (intro placed_update [of _ h]) (auto intro: below_settle)
next
  case (Move_send i ws c m k l h)
  with placedD [OF Move_send.prems Move_send.hyps(1)] show ?case
    by (intro placed_update [of _ h]) (auto simp: placed_def intro: below_settle)
next
  case (Move_send_closed i ws c m k l h)
  with placedD [OF Move_send_closed.prems Move_send_closed.hyps(1)] show ?case
    by (intro placed_update [of _ h]) (auto simp: placed_def intro: below_settle)
next
  case (Move_collect i ws c q k h ls p)
  with placedD [OF Move_collect.prems Move_collect.hyps(1)] show ?case
    by (intro placed_update [of _ h]) (auto simp: placed_def)
next
  case (Move_return i ws c q k r h)
  with placedD [OF Move_return.prems Move_return.hyps(1)] show ?case
    by (intro placed_update [of _ h]) (auto simp: placed_def intro: below_settle)
next
  case (Move_join i ws c k l h j)
  with placedD [OF Move_join.prems Move_join.hyps(1)] show ?case
    by (intro placed_update [of _ h]) (auto simp: placed_def intro: below_settle)
next
  case (Move_spawn i ws l k c h)
  with placedD [OF Move_spawn.prems Move_spawn.hyps(1)] show ?case
    by (intro placed_update [of _ h])
       (auto simp: placed_def intro!: below_settle intro: desk_below_mono)
qed

lemma placed_runs:
  "runs K ws h es ws' h' \<Longrightarrow> placed ws h \<Longrightarrow> \<forall>t\<in>K. below t 0 \<Longrightarrow> placed ws' h'"
proof (induction rule: runs.induct)
  case (Runs_call ws h es ws' h' t)
  then show ?case
    by (auto simp: placed_def intro!: below_settle intro: below_mono [of _ 0])
qed (auto intro: placed_step)

lemma below_simps [simp]:
  "below (under_lock access k) n \<longleftrightarrow>
     (\<forall>n'\<ge>n. \<forall>d. desk_below n' d \<longrightarrow> below (k (fst (access d))) n' \<and> desk_below n' (snd (access d)))"
  "below (returning r t) n \<longleftrightarrow> (\<forall>v. r = Inr v \<longrightarrow> below (t v) n)"
  by (auto simp: under_lock_def returning_def split: sum.split)

lemma below_send_all: "c < n \<Longrightarrow> (\<And>r. below (k r) n) \<Longrightarrow> below (send_all c ms k) n"
  by (induction ms) auto

lemma below_desk:
  "desk_below n d \<Longrightarrow> desk_below n (snd (find_seat sid d))"
  "desk_below n d \<Longrightarrow> desk_below n (snd (take_seat sid d))"
  "desk_below n d \<Longrightarrow> at_channel s < n \<Longrightarrow> desk_below n (snd (put_seat sid s d))"
  "desk_below n r \<Longrightarrow> desk_below n (snd (find_live_seat x sid r))"
  "desk_below n e \<Longrightarrow> desk_below n (snd (find_unconsumed sid e))"
  "desk_below n e \<Longrightarrow> desk_below n (snd (mark_consumed v sid e))"
  by (auto simp: desk_below_def find_seat_def take_seat_def put_seat_def find_live_seat_def
      find_unconsumed_def mark_consumed_def split: option.splits if_splits)

lemma below_found:
  "fst (find_seat sid d) = Some s \<Longrightarrow> desk_below m d \<Longrightarrow> m \<le> n \<Longrightarrow> at_channel s < n"
  "fst (take_seat sid d) = Some s \<Longrightarrow> desk_below m d \<Longrightarrow> m \<le> n \<Longrightarrow> at_channel s < n"
  "fst (find_live_seat x sid r) = Inr t \<Longrightarrow> desk_below m r \<Longrightarrow> m \<le> n \<Longrightarrow> at_channel t < n"
  "fst (find_unconsumed sid e) = Inr u \<Longrightarrow> desk_below m e \<Longrightarrow> m \<le> n \<Longrightarrow> at_channel u < n"
  "fst (mark_consumed v sid e) = Some u \<Longrightarrow> desk_below m e \<Longrightarrow> m \<le> n \<Longrightarrow> at_channel u < n"
  by (auto 4 4 simp: desk_below_def find_seat_def take_seat_def find_live_seat_def find_unconsumed_def
      mark_consumed_def intro: less_le_trans split: option.splits if_splits)

lemma below_parts:
  "below (finish_call kind sid reply) n" "below (collect_mode_call kind sid reply) n"
  "(\<And>c. at_channel (seat c) = c) \<Longrightarrow> below (open_call l sid seat r) n"
  by (auto simp: finish_call_def collect_mode_call_def open_call_def ok_or_def
      intro!: below_desk intro: below_found split: option.splits)

lemma below_advance:
  "below (keygen_advance_call C D sid p) n"
  "below (recover_advance_call C D x sid p) n"
  "below (sign_advance_call C sid p) n"
  by (auto simp: keygen_advance_call_def recover_advance_call_def sign_advance_call_def ok_or_def
      below_parts split: option.splits intro!: below_send_all below_desk intro: below_found)

lemma below_calls:
  "t \<in> keygen_calls C D \<Longrightarrow> below t 0"
  "u \<in> recover_calls C D \<Longrightarrow> below u 0"
  "v \<in> sign_calls C D \<Longrightarrow> below v 0"
  by (auto simp: keygen_calls_def recover_calls_def sign_calls_def keygen_first_calls_def
      recover_first_calls_def sign_first_calls_def below_advance below_parts
      keygen_collect_call_def recover_collect_call_def)

section \<open>Batches share out what the task sends\<close>

text \<open>
  What was queued on a channel when it was made, or at the start, with what the task sent since;
  and what the calls took of it.
\<close>

fun supplied :: "channel \<Rightarrow> bytes list \<Rightarrow> event \<Rightarrow> bytes list" where
  "supplied c ms (Sent c' ms') = (if c' = c then ms @ ms' else ms)"
| "supplied c ms (Opened c' ms') = (if c' = c then ms' else ms)"
| "supplied c ms _ = ms"

fun haul :: "channel \<Rightarrow> bytes list \<Rightarrow> event \<Rightarrow> bytes list" where
  "haul c ms (Taken c' ms') = (if c' = c then ms @ ms' else ms)"
| "haul c ms (Opened c' ms') = (if c' = c then [] else ms)"
| "haul c ms _ = ms"

text \<open>What the holder of the lock has collected so far.\<close>

definition in_hand :: "('z, 'r) worker list \<Rightarrow> ('z, 'r) hall \<Rightarrow> channel \<Rightarrow> bytes list" where
  "in_hand ws h c =
     (case holder h of
        Some i \<Rightarrow> (case code (ws ! i) of
            Collect_batch c' q k \<Rightarrow> if c' = c then phase_msgs (stage (ws ! i)) else []
          | _ \<Rightarrow> [])
      | None \<Rightarrow> [])"

lemma link_at_fields [simp]:
  "inq (link_at ws h c) = inq (links h c)" "outq (link_at ws h c) = outq (links h c)"
  "prog (link_at ws h c) = prog (links h c)" "waiter (link_at ws h c) = waiter (links h c)"
  "permit (link_at ws h c) = permit (links h c)" "tx_open (link_at ws h c) = has_sender ws (desk h) c"
  by (simp_all add: link_at_def)

lemma settle_stage [simp]: "stage (settle E t) = Enter"
  by (induction E t rule: settle.induct) simp_all

lemma task_move_outq: "outq (task_move x l) = outq l @ move_emits x l"
  by (auto simp: task_move_def move_emits_def task_step_outq task_emits_def split: task.split)

lemma task_move_received [simp]: "task_move True l = task_step l"
  by (simp add: task_move_def split: task.split)

lemma collect_at_keeps:
  assumes "collect_at c q ls p = (ls', p')"
  shows "phase_msgs p' @ outq (ls' c) = phase_msgs p @ outq (ls c)"
    and "c' \<noteq> c \<Longrightarrow> outq (ls' c') = outq (ls c')"
    and "prog (ls' c') = prog (ls c')" "inq (ls' c') = inq (ls c')" "tx_open (ls' c') = tx_open (ls c')"
  using assms by (cases p; auto simp: enable_def split: list.splits if_splits)+

lemma in_hand_free: "holder h = None \<Longrightarrow> in_hand ws h c = []"
  by (simp add: in_hand_def)

lemma in_hand_other:
  assumes "holder h \<noteq> Some i" and "holder h' = holder h"
  shows "in_hand (ws[i := w]) h' c = in_hand ws h c"
  using assms by (auto simp: in_hand_def split: option.split call.split)

text \<open>A call that has the lock collects on a channel that has been made.\<close>

lemma in_hand_new:
  assumes "exclusive ws h" and "placed ws h"
  shows "in_hand ws h (next_channel h) = []"
proof -
  have "c < next_channel h" if "i < length ws" "code (ws ! i) = Collect_batch c q k" for i c q k
    using placedD [OF assms(2) that(1)] that(2) by simp
  with assms(1) show ?thesis by (fastforce simp: in_hand_def exclusive_def split: option.split call.split)
qed

lemma step_conserves:
  "step ws h e ws' h' \<Longrightarrow> exclusive ws h \<Longrightarrow> placed ws h \<Longrightarrow>
     ms @ in_hand ws h c @ outq (links h c) = ms' \<Longrightarrow>
     haul c ms e @ in_hand ws' h' c @ outq (links h' c) = supplied c ms' e"
proof (induction rule: step.induct)
  case (Move_task c' h l x ws)
  then show ?case by (auto simp: in_hand_def task_move_outq)
next
  case (Move_cancel c' h ws)
  then show ?case by (auto simp: in_hand_def)
next
  case (Move_section i ws k g h w)
  then have "stage w = Enter" by simp
  with Move_section.hyps(1,3) Move_section.prems(3) show ?case by (simp add: in_hand_def split: call.split)
next
  case (Move_send i ws c' m k l h)
  then have "holder h \<noteq> Some i" using exclusiveD(2) by fastforce
  with Move_send show ?case by (auto simp: in_hand_other)
next
  case (Move_send_closed i ws c' m k l h)
  then have "holder h \<noteq> Some i" using exclusiveD(2) by fastforce
  with Move_send_closed show ?case by (auto simp: in_hand_other)
next
  case (Move_collect i ws c' q k h ls p)
  then have "holder h = Some i" using exclusiveD(2) by fastforce
  with Move_collect collect_at_keeps(1,2) [OF Move_collect.hyps(4)] show ?case
    by (cases "c' = c") (auto simp: in_hand_def)
next
  case (Move_return i ws c' q k r h)
  then have "holder h = Some i" using exclusiveD(2) by fastforce
  with Move_return show ?case by (auto simp: in_hand_def)
next
  case (Move_join i ws c' k l h j)
  then have "holder h \<noteq> Some i" using exclusiveD(2) by fastforce
  with Move_join show ?case by (auto simp: in_hand_other)
next
  case (Move_spawn i ws l k c' h)
  then have "holder h \<noteq> Some i" using exclusiveD(2) by fastforce
  with Move_spawn in_hand_new [OF Move_spawn.prems(1,2)] show ?case by (auto simp: in_hand_other)
qed

lemma in_hand_spawn: "exclusive ws h \<Longrightarrow> in_hand (ws @ [w]) h c = in_hand ws h c"
  by (auto simp: in_hand_def exclusive_def nth_append split: option.split call.split)

lemma runs_conserve:
  "runs K ws h es ws' h' \<Longrightarrow> exclusive ws h \<Longrightarrow> placed ws h \<Longrightarrow> \<forall>t\<in>K. well_locked t False \<and> below t 0 \<Longrightarrow>
     foldl (haul c) [] es @ in_hand ws' h' c @ outq (links h' c) =
       foldl (supplied c) (in_hand ws h c @ outq (links h c)) es"
proof (induction rule: runs.induct)
  case (Runs_nil ws h)
  then show ?case by simp
next
  case (Runs_step ws h es ws' h' e ws'' h'')
  have "exclusive ws' h'" "placed ws' h'" using Runs_step exclusive_runs placed_runs by blast+
  from step_conserves [OF Runs_step.hyps(2) this Runs_step.IH [OF Runs_step.prems]] show ?case by simp
next
  case (Runs_call ws h es ws' h' t)
  have "exclusive ws' h'" using Runs_call exclusive_runs by blast
  with Runs_call show ?case by (simp add: in_hand_spawn)
qed

section \<open>A lock held for ever\<close>

text \<open>Nothing more goes into the channel before the call takes the lock again.\<close>

primrec hushed :: "channel \<Rightarrow> ('d, 'r) call \<Rightarrow> bool" where
  "hushed c (Answer r) = True"
| "hushed c (Section k g) = True"
| "hushed c (Holding e t) = hushed c t"
| "hushed c (Send c' m k) = (c' \<noteq> c \<and> (\<forall>b. hushed c (k b)))"
| "hushed c (Collect_batch c' q k) = (\<forall>r. hushed c (k r))"
| "hushed c (Join c' k) = (\<forall>j. hushed c (k j))"
| "hushed c (Spawn l k) = (\<forall>c'. hushed c (k c'))"

lemma hushed_settle: "hushed c t \<Longrightarrow> hushed c (code (settle E t))"
  by (induction E t rule: settle.induct) auto

fun at_lock :: "('d, 'r) call \<Rightarrow> bool" where
  "at_lock (Section k g) = True"
| "at_lock _ = False"

fun has_answer :: "('d, 'r) call \<Rightarrow> bool" where
  "has_answer (Answer r) = True"
| "has_answer _ = False"

text \<open>A call before its first section: it waits for the lock, or has its channels to make before.\<close>

fun before_lock :: "('z desk, 'r) call \<Rightarrow> bool" where
  "before_lock (Section k g) = True"
| "before_lock (Spawn l k) = (\<forall>c E. at_lock (code (settle E (k c)) :: ('z desk, 'r) call))"
| "before_lock _ = False"

lemma at_lock_before: "at_lock t \<Longrightarrow> before_lock t"
  by (cases t) simp_all

text \<open>
  The call of worker \<open>i\<close> has the lock and waits for the first message of a channel of the table,
  whose task waits for input.
\<close>

definition frozen :: "nat \<Rightarrow> channel \<Rightarrow> ('z, 'r) worker list \<Rightarrow> ('z, 'r) hall \<Rightarrow> bool" where
  "frozen i c ws h \<longleftrightarrow>
     exclusive ws h \<and> holder h = Some i \<and> c \<in> at_channel ` ran (seats (desk h)) \<and> c < next_channel h
     \<and> (\<exists>q k. code (ws ! i) = Collect_batch c q k) \<and> (stage (ws ! i) = Enter \<or> stage (ws ! i) = First)
     \<and> stuck ((links h c)\<lparr>tx_open := True\<rparr>) \<and> c \<notin> aborted (desk h)
     \<and> (\<forall>j<length ws. j \<noteq> i \<longrightarrow> hushed c (code (ws ! j)))"

lemma exclusive_collect:
  assumes "exclusive ws h" and "holder h = Some i" and "j < length ws" and "code (ws ! j) = Collect_batch c q k"
  shows "j = i"
  using assms exclusiveD(2) [OF assms(1,3)] by simp

lemma stuck_fields: "stuck l \<longleftrightarrow> awaiting (prog l) \<and> inq l = [] \<and> tx_open l \<and> outq l = []"
  by (simp add: stuck_def parked_def)

lemma stuck_task_move: "stuck l \<Longrightarrow> task_move x l = task_step l"
  by (cases "prog l") (simp_all add: stuck_fields task_move_def)

text \<open>What a move of another worker, or on another channel, has to give.\<close>

lemma frozen_update:
  assumes "frozen i c ws h" and "exclusive (ws[j := w]) h'" and "j < length ws" and "j \<noteq> i"
    and "holder h' = holder h" and "desk h' = desk h" and "next_channel h \<le> next_channel h'"
    and "stuck ((links h' c)\<lparr>tx_open := True\<rparr>)" and "hushed c (code w)"
  shows "frozen i c (ws[j := w]) h'"
  using assms by (auto simp: frozen_def nth_list_update)

text \<open>The task of the channel polls again, and the caller that waits for it goes on waiting.\<close>

lemma stuck_moves:
  assumes "stuck ((links h c)\<lparr>tx_open := True\<rparr>)" and "has_sender ws (desk h) c"
  shows "stuck ((links (set_link c (task_move x (link_at ws h c)) h) c)\<lparr>tx_open := True\<rparr>)"
proof -
  have "stuck (link_at ws h c)" using assms by (simp add: link_at_def stuck_fields)
  with stuck_task_step [of "link_at ws h c"] show ?thesis by (simp add: stuck_task_move stuck_fields)
qed

lemma stuck_collect_at:
  assumes "stuck ((links h c)\<lparr>tx_open := True\<rparr>)" and "p = Enter \<or> p = First"
    and "collect_at c q ((links h)(c := link_at ws h c)) p = (ls, p')"
  shows "(p' = Enter \<or> p' = First) \<and> stuck ((ls c)\<lparr>tx_open := True\<rparr>)"
proof -
  have "\<not> task_done (prog (links h c))"
    using assms(1) by (cases "prog (links h c)") (simp_all add: stuck_fields)
  with assms show ?thesis by (auto simp: stuck_fields enable_def link_at_def split: if_splits)
qed

lemma frozen_step:
  assumes "step ws h e ws' h'" and "frozen i c ws h"
  shows "frozen i c ws' h'
         \<and> (\<forall>j<length ws. at_lock (code (ws ! j)) \<or> has_answer (code (ws ! j)) \<longrightarrow> ws' ! j = ws ! j)
         \<and> (\<forall>j<length ws. before_lock (code (ws ! j)) \<longrightarrow> before_lock (code (ws' ! j)))
         \<and> length ws' = length ws"
proof -
  have ex: "exclusive ws h" and own: "holder h = Some i" "c \<in> at_channel ` ran (seats (desk h))" "c < next_channel h"
    and still: "stage (ws ! i) = Enter \<or> stage (ws ! i) = First" and st: "stuck ((links h c)\<lparr>tx_open := True\<rparr>)"
    and na: "c \<notin> aborted (desk h)" and hush: "\<And>j. j < length ws \<Longrightarrow> j \<noteq> i \<Longrightarrow> hushed c (code (ws ! j))"
    using assms(2) by (auto simp: frozen_def)
  obtain qi ki where ci: "code (ws ! i) = Collect_batch c qi ki" using assms(2) by (auto simp: frozen_def)
  have i: "i < length ws" using ex own(1) by (auto simp: exclusive_def)
  have ex': "exclusive ws' h'" using exclusive_step assms(1) ex by blast
  have alive: "has_sender us (desk h) c" for us :: "('a, 'b) worker list"
    using own(2) by (simp add: has_sender_def)
  from assms(1) show ?thesis
  proof cases
    case (Move_task c' l x)
    have "stuck ((links h' c)\<lparr>tx_open := True\<rparr>)"
      using Move_task st stuck_moves [OF st alive, of x ws] by (cases "c' = c") simp_all
    with Move_task ex' assms(2) show ?thesis by (auto simp: frozen_def)
  next
    case (Move_cancel c')
    with ex' assms(2) na show ?thesis by (auto simp: frozen_def stuck_fields)
  next
    case (Move_section j k g w)
    with own show ?thesis by simp
  next
    case (Move_send j c' m k l)
    then have j: "j \<noteq> i" using ci by auto
    with Move_send hush [of j] have "c' \<noteq> c" "hushed c (k True)" by auto
    with j Move_send frozen_update [OF assms(2), of j _ h'] ex' st show ?thesis
      by (auto simp: hushed_settle nth_list_update)
  next
    case (Move_send_closed j c' m k l)
    then have j: "j \<noteq> i" using ci by auto
    with Move_send_closed hush [of j] have "c' \<noteq> c" "hushed c (k False)" by auto
    with j Move_send_closed frozen_update [OF assms(2), of j _ h'] ex' st show ?thesis
      by (auto simp: hushed_settle nth_list_update)
  next
    case (Move_collect j c' q k ls p)
    then have j: "j = i" using exclusive_collect [OF ex own(1)] by blast
    with Move_collect ci have c': "c' = c" by simp
    from stuck_collect_at [OF st still, of q ws ls p] Move_collect(7) [unfolded j c']
    show ?thesis using Move_collect j c' ex' assms(2) i by (auto simp: frozen_def nth_list_update)
  next
    case (Move_return j c' q k r)
    then have "j = i" using exclusive_collect [OF ex own(1)] by blast
    with Move_return still show ?thesis by auto
  next
    case (Move_join j c' k l j')
    then have j: "j \<noteq> i" using ci by auto
    with Move_join hush [of j] have "hushed c (code (settle (holds (ws ! j)) (k j')))"
      by (auto intro: hushed_settle)
    moreover have "stuck ((links h' c)\<lparr>tx_open := True\<rparr>)"
      using st Move_join(3,6) by (auto simp: stuck_fields)
    ultimately show ?thesis
      using j Move_join frozen_update [OF assms(2), of j "settle (holds (ws ! j)) (k j')" h'] ex'
      by (simp add: nth_list_update)
  next
    case (Move_spawn j l k c')
    then have j: "j \<noteq> i" using ci by auto
    with Move_spawn hush [of j] have "hushed c (code (settle (holds (ws ! j)) (k c')))"
      by (auto intro: hushed_settle)
    moreover have "before_lock (code (settle (holds (ws ! j)) (k c')))" if "before_lock (code (ws ! j))"
    proof -
      have "at_lock (code (settle (holds (ws ! j)) (k c')))" using that Move_spawn(5) by simp
      then show ?thesis by (rule at_lock_before)
    qed
    ultimately show ?thesis
      using j Move_spawn own(3) st frozen_update [OF assms(2), of j "settle (holds (ws ! j)) (k c')" h'] ex'
      by (simp add: nth_list_update)
  qed
qed

lemma frozen_spawn:
  assumes "frozen i c ws h" and "well_locked t False" and "hushed c t"
  shows "frozen i c (ws @ [settle {} t]) h"
proof -
  have "i < length ws" using assms(1) by (auto simp: frozen_def exclusive_def)
  with assms exclusive_spawn [OF _ assms(2), of ws h] show ?thesis
    by (auto simp: frozen_def nth_append hushed_settle less_Suc_eq)
qed

lemma settle_before_lock: "before_lock t \<Longrightarrow> code (settle E t) = t"
  by (cases t) simp_all

lemma at_lock_hushed: "at_lock (code (settle E t)) \<Longrightarrow> hushed c t"
  by (induction E t rule: settle.induct) auto

lemma before_lock_hushed: "before_lock t \<Longrightarrow> hushed c t"
  by (cases t) (auto intro: at_lock_hushed)

lemma before_lock_unanswered: "before_lock t \<Longrightarrow> \<not> has_answer t"
  by (cases t) simp_all

text \<open>
  Once the pool is frozen it stays so: the lock is never let go, a call that waits for it stays
  where it is, and a call that comes later does not get past its first section.
\<close>

lemma frozen_for_ever:
  assumes "runs K ws h es ws' h'" and "frozen i c ws h"
    and "\<forall>t\<in>K. well_locked t False \<and> before_lock t"
  shows "frozen i c ws' h' \<and> length ws \<le> length ws'
         \<and> (\<forall>j<length ws. at_lock (code (ws ! j)) \<or> has_answer (code (ws ! j)) \<longrightarrow> ws' ! j = ws ! j)
         \<and> (\<forall>j<length ws'. length ws \<le> j \<longrightarrow> before_lock (code (ws' ! j)))"
  using assms
proof (induction rule: runs.induct)
  case (Runs_nil ws h)
  then show ?case by auto
next
  case (Runs_step ws h es ws' h' e ws'' h'')
  note IH = Runs_step.IH [OF Runs_step.prems]
  from IH have "frozen i c ws' h'" by blast
  from IH frozen_step [OF Runs_step.hyps(2) this] show ?case by auto
next
  case (Runs_call ws h es ws' h' t)
  then have "frozen i c (ws' @ [settle {} t]) h'"
    by (intro frozen_spawn before_lock_hushed) auto
  with Runs_call show ?case
    by (auto simp: nth_append less_Suc_eq settle_before_lock)
qed

lemma at_lock_simps [simp]: "at_lock (under_lock access k)"
  by (simp add: under_lock_def)

lemma before_lock_simps [simp]: "before_lock (under_lock access k)" "before_lock (open_call l sid seat r)"
  by (simp_all add: under_lock_def open_call_def)

lemma before_lock_calls:
  "t \<in> keygen_calls C D \<Longrightarrow> before_lock t"
  "u \<in> recover_calls C D \<Longrightarrow> before_lock u"
  "v \<in> sign_calls C D \<Longrightarrow> before_lock v"
  by (auto simp: keygen_calls_def recover_calls_def sign_calls_def keygen_first_calls_def recover_first_calls_def
      sign_first_calls_def keygen_advance_call_def keygen_collect_call_def recover_advance_call_def
      recover_collect_call_def sign_advance_call_def collect_mode_call_def)

end
