(* ===== verification/Lock_Calls.thy ===== *)
theory Lock_Calls
  imports Locks
begin

text \<open>
  A later round alone: the worker of \<open>Locks\<close> that has the pool for itself answers as the call of
  \<open>Dkls_Engine\<close> does, and leaves the same sessions.
\<close>

section \<open>A worker alone\<close>

text \<open>
  One call from its start to its answer under a schedule, as in \<open>Relay\<close>: nobody else is there, so
  a section always gets the lock, and both lookups of a call find the same session. First rounds
  are not run in this way.
\<close>

definition channel_open :: "endpoint set \<Rightarrow> 'z desk \<Rightarrow> channel \<Rightarrow> bool" where
  "channel_open E d c \<longleftrightarrow> Tx c \<in> E \<or> c \<in> at_channel ` ran (seats d)"

definition received :: "endpoint set \<Rightarrow> 'z desk \<Rightarrow> channel \<Rightarrow> bool" where
  "received E d c \<longleftrightarrow> Rx c \<in> E \<or> c \<in> at_channel ` ran (seats d)"

primrec alone ::
  "('z desk, 'r) call \<Rightarrow> endpoint set \<Rightarrow> schedule \<Rightarrow> 'z desk \<Rightarrow> (channel \<Rightarrow> 'r link)
   \<Rightarrow> (string res \<times> 'z desk \<times> (channel \<Rightarrow> 'r link)) option" where
  "alone (Answer r) E sch d ls = Some (r, d, ls)"
| "alone (Section k g) E sch d ls = alone (k d) E sch (g d) ls"
| "alone (Holding e t) E sch d ls = alone t (insert e E) sch d ls"
| "alone (Send c m k) E sch d ls =
     (if received E d c then
        Option.bind (inject_all sch ((ls c)\<lparr>tx_open := channel_open E d c\<rparr>) [m]) (\<lambda>(r, l, sch').
          alone (k (r = Inr ())) E sch' d (ls(c := l)))
      else None)"
| "alone (Collect_batch c q k) E sch d ls =
     (if received E d c \<and> q = c then
        Option.bind (collect_batch sch ((ls c)\<lparr>tx_open := channel_open E d c\<rparr>)) (\<lambda>(r, l, sch').
          alone (k r) E sch' d (ls(c := l)))
      else None)"
| "alone (Join c k) E sch d ls =
     (let l = (ls c)\<lparr>tx_open := channel_open E d c\<rparr> in
      if received E d c then
        Option.bind (run_out l) (\<lambda>l'. Option.bind (task_outcome (prog l')) (\<lambda>j. alone (k j) E sch d (ls(c := l'))))
      else Option.bind (task_outcome (prog l)) (\<lambda>j. alone (k j) E sch d (ls(c := l))))"
| "alone (Spawn l k) E sch d ls = None"

subsection \<open>It is a run of the pool\<close>

lemma runs_trans: "runs K ws' h' es' ws'' h'' \<Longrightarrow> runs K ws h es ws' h' \<Longrightarrow> runs K ws h (es @ es') ws'' h''"
proof (induction rule: runs.induct)
  case (Runs_step ws' h' es' ws1 h1 e ws2 h2)
  then show ?case using runs.Runs_step [of K ws h "es @ es'" ws1 h1 e ws2 h2] by simp
qed (auto intro: runs.intros)

lemma runs_then:
  assumes "step ws h e ws' h'" and "\<exists>es. runs K ws' h' es ws'' h''"
  shows "\<exists>es. runs K ws h es ws'' h''"
  using assms runs_trans [OF _ Runs_step [OF Runs_nil assms(1)]] by blast

lemma runs_one: "step ws h e ws' h' \<Longrightarrow> \<exists>es. runs K ws h es ws' h'"
  using Runs_step [OF Runs_nil] by blast

lemma set_link_again [simp]: "set_link c a (set_link c b h) = set_link c a h"
  by (simp add: set_link_def)

lemma link_at_set: "link_at ws (set_link c l h) c = l\<lparr>tx_open := has_sender ws (desk h) c\<rparr>"
  by (simp add: link_at_def)

lemma link_at_settled:
  "link_at ws h c = l \<Longrightarrow> tx_open l' = tx_open l \<Longrightarrow> link_at ws (set_link c l' h) c = l'"
  by (cases l') (auto simp: link_at_set)

lemma task_alone:
  assumes "link_at [w] h c = l" and "c < next_channel h" and "has_receiver [w] (desk h) c"
  shows "\<exists>e. step [w] h e [w] (set_link c (task_step l) h)"
    and "link_at [w] (set_link c (task_step l) h) c = task_step l"
  using Move_task [of c h l "[w]" True] assms by (auto simp: move_emits_def intro: link_at_settled)

lemma runs_tasks:
  "link_at [w] h c = l \<Longrightarrow> c < next_channel h \<Longrightarrow> has_receiver [w] (desk h) c \<Longrightarrow>
     (\<exists>es. runs K [w] (set_link c ((task_step ^^ n) l) h) es ws' h') \<Longrightarrow> n > 0 \<Longrightarrow>
     \<exists>es. runs K [w] h es ws' h'"
proof (induction n arbitrary: l h)
  case (Suc n)
  obtain e where e: "step [w] h e [w] (set_link c (task_step l) h)"
    using task_alone(1) [OF Suc.prems(1-3)] by blast
  have "(task_step ^^ Suc n) l = (task_step ^^ n) (task_step l)"
    by (simp add: funpow_swap1)
  with Suc.prems(2-4) Suc.IH [OF task_alone(2) [OF Suc.prems(1-3)]]
  have "\<exists>es. runs K [w] (set_link c (task_step l) h) es ws' h'"
    by (cases n) simp_all
  then show ?case by (rule runs_then [OF e])
qed simp

lemma runs_send:
  "inject_all sch l [m] = Some (r, l', sch') \<Longrightarrow> link_at [w] h c = l \<Longrightarrow> c < next_channel h \<Longrightarrow>
     has_receiver [w] (desk h) c \<Longrightarrow> code w = Send c m k \<Longrightarrow>
     \<exists>es. runs K [w] h es [settle (holds w) (k (r = Inr ()))] (set_link c l' h)"
proof (induction sch arbitrary: l h)
  case (Cons a sch)
  show ?case
  proof (cases a)
    case Task
    obtain e where e: "step [w] h e [w] (set_link c (task_step l) h)"
      using task_alone(1) [OF Cons.prems(2-4)] by blast
    show ?thesis
      using runs_then [OF e] Cons.IH [OF _ task_alone(2) [OF Cons.prems(2-4)]] Cons.prems Task by simp
  next
    case Caller
    consider "task_done (prog l)" | "\<not> task_done (prog l)" "length (inq l) < in_capacity"
      | "\<not> task_done (prog l)" "\<not> length (inq l) < in_capacity" by blast
    then show ?thesis
    proof cases
      case 1
      with Move_send_closed [of 0 "[w]" c m k l h] Cons.prems Caller
      have "step [w] h Silent [settle (holds w) (k (r = Inr ()))] (set_link c l' h)" by auto
      then show ?thesis by (rule runs_one)
    next
      case 2
      with Move_send [of 0 "[w]" c m k l h] Cons.prems Caller
      have "step [w] h Silent [settle (holds w) (k (r = Inr ()))] (set_link c l' h)" by auto
      then show ?thesis by (rule runs_one)
    next
      case 3
      with Cons Caller show ?thesis by simp
    qed
  qed
qed simp

lemma runs_collect:
  "collect_loop sch l p = Some (r, l', sch') \<Longrightarrow>
     link_at [w] h c = l \<Longrightarrow> c < next_channel h \<Longrightarrow> has_receiver [w] (desk h) c \<Longrightarrow>
     (returned p \<longrightarrow> links h c = l) \<Longrightarrow> code w = Collect_batch c c k \<Longrightarrow> stage w = p \<Longrightarrow>
     \<exists>es. runs K [w] h es [settle (holds w) (k r)] ((set_link c l' h)\<lparr>holder := None\<rparr>)"
proof (induction arbitrary: h w rule: collect_run_induct)
  case (Returned sch l r)
  then have "links h c = l" by simp
  then have l: "set_link c l h = h" unfolding set_link_def by (simp add: fun_upd_idem)
  have "step [w] h (Taken c (phase_msgs (Returned r))) [settle (holds w) (k r)]
      ((set_link c l h)\<lparr>holder := None\<rparr>)"
    unfolding l using Move_return [of 0 "[w]" c c k r h] Returned.prems(5,6) by simp
  then show ?case by (rule runs_one)
next
  case (Move a sch l p l1 p1)
  let ?w = "w\<lparr>stage := p1\<rparr>" and ?h = "set_link c l1 h"
  have step: "\<exists>e. step [w] h e [?w] ?h"
  proof (cases a)
    case Task
    with Move.hyps(2) have l1: "p1 = stage w" "l1 = task_step l" using Move.prems(6) by simp_all
    have "?w = w" unfolding l1(1) by simp
    then show ?thesis unfolding l1(2) using task_alone(1) [OF Move.prems(1-3)] by metis
  next
    case Caller
    have "collect_at c c ((links h)(c := link_at [w] h c)) p = ((links h)(c := l1), p1)"
      using Move.hyps(2) Caller Move.prems(1) by (simp add: collect_at_same)
    with Move.hyps(1) Move.prems(5,6)
    have "step [w] h Silent ([w][0 := ([w] ! 0)\<lparr>stage := p1\<rparr>]) (h\<lparr>links := (links h)(c := l1)\<rparr>)"
      by (intro Move_collect [where k = k and c = c and q = c]) simp_all
    then show ?thesis by (auto simp: set_link_def)
  qed
  have keep: "has_sender [?w] (desk h) c = has_sender [w] (desk h) c" "has_receiver [?w] (desk h) c"
    using Move.prems(3) by (simp_all add: has_sender_def has_receiver_def)
  then have "link_at [?w] ?h c = l1"
    using link_at_settled [OF Move.prems(1), of l1] move_tx_open [OF Move.hyps(2)]
    by (simp add: link_at_set keep(1))
  with Move.IH [of ?w ?h] Move.prems keep(2) have "\<exists>es. runs K [?w] ?h es [settle (holds w) (k r)] ((set_link c l' h)\<lparr>holder := None\<rparr>)"
    by simp
  with step show ?case using runs_then by blast
qed

abbreviation entering ::
  "('z, 'r) worker \<Rightarrow> channel \<Rightarrow> 'z desk \<Rightarrow> (channel \<Rightarrow> 'r link) \<Rightarrow> ('z, 'r) hall" where
  "entering w n d ls \<equiv>
     \<lparr>desk = d, links = ls, holder = (if collecting (code w) then Some 0 else None), next_channel = n\<rparr>"

lemma link_at_alone:
  "link_at [\<lparr>holds = E, stage = p, code = t\<rparr>] \<lparr>desk = d, links = ls, holder = x, next_channel = n\<rparr> c =
     (ls c)\<lparr>tx_open := channel_open E d c\<rparr>"
  "has_receiver [\<lparr>holds = E, stage = p, code = t\<rparr>] d c = received E d c"
  by (simp_all add: link_at_def has_sender_def channel_open_def has_receiver_def received_def)

text \<open>A worker that enters the next point, after the moves that lead there.\<close>

lemma runs_enter:
  assumes "\<exists>es. runs K ws h es [settle E t] h'"
    and "\<exists>es. runs K [settle E t] (entering (settle E t) n d ls) es ws'' h''"
    and "well_locked t False" and "h' = \<lparr>desk = d, links = ls, holder = None, next_channel = n\<rparr>"
  shows "\<exists>es. runs K ws h es ws'' h''"
proof -
  have "h' = entering (settle E t) n d ls"
    using assms(4) settle_collecting [OF assms(3)] by simp
  with assms(1,2) show ?thesis using runs_trans by metis
qed

text \<open>The join of a task that is there for nobody else.\<close>

lemma runs_join:
  fixes E c k d and ls :: "channel \<Rightarrow> 'r link"
  defines "l \<equiv> (ls c)\<lparr>tx_open := channel_open E d c\<rparr>"
  assumes "(task_step ^^ m) l = o'" and "m > 0 \<longrightarrow> received E d c" and "task_outcome (prog o') = Some x" and "c < n"
  shows "\<exists>es. runs K [settle E (Join c k)] \<lparr>desk = d, links = ls, holder = None, next_channel = n\<rparr> es
    [settle E (k x)] \<lparr>desk = d, links = ls(c := o'), holder = None, next_channel = n\<rparr>"
proof -
  let ?w = "settle E (Join c k)" and ?h = "\<lparr>desk = d, links = ls, holder = None, next_channel = n\<rparr>"
  have at: "link_at [?w] ?h c = l" by (simp add: link_at_alone l_def)
  have op: "tx_open o' = tx_open l"
    unfolding assms(2) [symmetric] by (induction m) simp_all
  have "\<exists>es. runs K [?w] ?h es [settle E (k x)] (set_link c o' ?h)"
  proof (cases m)
    case 0
    then have "o' = link_at [?w] ?h c" using assms(2) at by simp
    with Move_join [of 0 "[?w]" c k o' ?h x] assms(4) show ?thesis by (intro runs_one) simp
  next
    case (Suc m')
    have "link_at [?w] (set_link c o' ?h) c = o'"
      using op by (intro link_at_settled [OF at]) simp
    with Move_join [of 0 "[?w]" c k o' "set_link c o' ?h" x] assms(4)
    have "\<exists>es. runs K [?w] (set_link c o' ?h) es [settle E (k x)] (set_link c o' ?h)"
      by (intro runs_one) simp
    then show ?thesis
      using runs_tasks [OF at, where n = m and K = K] assms(2,3,5) Suc by (simp add: link_at_alone)
  qed
  then show ?thesis by (simp add: set_link_def)
qed

lemma alone_join:
  fixes E c k d and ls :: "channel \<Rightarrow> 'r link"
  defines "l \<equiv> (ls c)\<lparr>tx_open := channel_open E d c\<rparr>"
  assumes "alone (Join c k) E sch d ls = Some (r, d', ls')"
  obtains x o' m where "(task_step ^^ m) l = o'" "m > 0 \<longrightarrow> received E d c" "task_outcome (prog o') = Some x"
    and "alone (k x) E sch d (ls(c := o')) = Some (r, d', ls')"
proof (cases "received E d c")
  case True
  with assms(2) obtain o' x where "run_out l = Some o'" "task_outcome (prog o') = Some x"
    "alone (k x) E sch d (ls(c := o')) = Some (r, d', ls')"
    by (auto simp: bind_eq_Some_conv Let_def l_def)
  with that [of _ o' x] True run_out_steps [of l o'] show thesis by blast
next
  case False
  with assms(2) obtain x where "task_outcome (prog l) = Some x" "alone (k x) E sch d (ls(c := l)) = Some (r, d', ls')"
    by (auto simp: bind_eq_Some_conv Let_def l_def)
  with that [of 0 l x] show thesis by simp
qed

lemma alone_runs:
  "alone t E sch d ls = Some (r, d', ls') \<Longrightarrow> well_locked t b \<Longrightarrow> below t n \<Longrightarrow> desk_below n d \<Longrightarrow>
     \<exists>es. runs K [settle E t] (entering (settle E t) n d ls) es [settle {} (Answer r)]
            \<lparr>desk = d', links = ls', holder = None, next_channel = n\<rparr>"
proof (induction t arbitrary: E sch d ls b)
  case (Answer x)
  then show ?case by (auto intro: Runs_nil)
next
  case (Section k g)
  let ?w = "settle E (k d)"
  have "step [settle E (Section k g)] (entering (settle E (Section k g)) n d ls) Silent [?w] (entering ?w n (g d) ls)"
    using Move_section [of 0 "[settle E (Section k g)]" k g "entering (settle E (Section k g)) n d ls" ?w]
    by simp
  moreover have "alone (k d) E sch (g d) ls = Some (r, d', ls')" "well_locked (k d) True" "below (k d) n"
    "desk_below n (g d)"
    using Section.prems by simp_all
  ultimately show ?case
    by (intro runs_then [OF _ Section.IH [OF rangeI]])
next
  case (Holding e t)
  then show ?case by simp
next
  case (Send c m k)
  let ?l = "(ls c)\<lparr>tx_open := channel_open E d c\<rparr>"
  obtain x l sch' where i: "inject_all sch ?l [m] = Some (x, l, sch')" and rx: "received E d c"
    and rest: "alone (k (x = Inr ())) E sch' d (ls(c := l)) = Some (r, d', ls')"
    using Send.prems(1) by (auto simp: bind_eq_Some_conv split: if_splits)
  have wl: "well_locked (k (x = Inr ())) False" "below (k (x = Inr ())) n" "c < n" using Send.prems(2,3) by simp_all
  have "\<exists>es. runs K [settle E (Send c m k)] (entering (settle E (Send c m k)) n d ls) es
      [settle E (k (x = Inr ()))] (set_link c l \<lparr>desk = d, links = ls, holder = None, next_channel = n\<rparr>)"
    using runs_send [OF i, of "settle E (Send c m k)"] rx wl(3) by (simp add: link_at_alone)
  then show ?case
    using Send.IH [OF rangeI rest wl(1,2) Send.prems(4)] wl(1) by (rule runs_enter) (simp add: set_link_def fun_upd_def)
next
  case (Collect_batch c q k)
  let ?l = "(ls c)\<lparr>tx_open := channel_open E d c\<rparr>"
  obtain x l sch' where i: "collect_batch sch ?l = Some (x, l, sch')" and rx: "received E d c" "q = c"
    and rest: "alone (k x) E sch' d (ls(c := l)) = Some (r, d', ls')"
    using Collect_batch.prems(1) by (auto simp: bind_eq_Some_conv split: if_splits)
  have wl: "well_locked (k x) False" "below (k x) n" "c < n" using Collect_batch.prems(2,3) by simp_all
  have "\<exists>es. runs K [settle E (Collect_batch c q k)] (entering (settle E (Collect_batch c q k)) n d ls) es
      [settle E (k x)] ((set_link c l \<lparr>desk = d, links = ls, holder = Some 0, next_channel = n\<rparr>)\<lparr>holder := None\<rparr>)"
    using runs_collect [OF i [unfolded collect_batch_def], of "settle E (Collect_batch c q k)"] rx wl(3)
    by (simp add: link_at_alone)
  then show ?case
    using Collect_batch.IH [OF rangeI rest wl(1,2) Collect_batch.prems(4)] wl(1)
    by (rule runs_enter) (simp add: set_link_def fun_upd_def)
next
  case (Join c k)
  let ?l = "(ls c)\<lparr>tx_open := channel_open E d c\<rparr>"
  obtain x o' m where x: "(task_step ^^ m) ?l = o'" "m > 0 \<longrightarrow> received E d c" "task_outcome (prog o') = Some x"
    and rest: "alone (k x) E sch d (ls(c := o')) = Some (r, d', ls')"
    by (rule alone_join [OF Join.prems(1)])
  have wl: "well_locked (k x) False" "below (k x) n" "c < n" using Join.prems(2,3) by simp_all
  have "\<exists>es. runs K [settle E (Join c k)] (entering (settle E (Join c k)) n d ls) es [settle E (k x)]
      \<lparr>desk = d, links = ls(c := o'), holder = None, next_channel = n\<rparr>"
    using runs_join [where ls = ls and E = E and d = d and c = c and k = k, OF x wl(3)] by simp
  then show ?case
    using Join.IH [OF rangeI rest wl(1,2) Join.prems(4)] wl(1) by (rule runs_enter) (rule refl)
qed simp

section \<open>The calls alone\<close>

lemma alone_simps [simp]:
  "alone (under_lock access k) E sch d ls = (case access d of (a, d') \<Rightarrow> alone (k a) E sch d' ls)"
  "alone (returning r t) E sch d ls =
     (case r of Inl e \<Rightarrow> Some (Inl e, d, ls) | Inr v \<Rightarrow> alone (t v) E sch d ls)"
  by (simp_all add: under_lock_def returning_def split: prod.split sum.split)

lemma inject_all_Cons:
  "inject_all sch l (m # ms) =
     Option.bind (inject_all sch l [m]) (\<lambda>(r, l', sch').
       case r of
         Inl e \<Rightarrow> Some (Inl e, l', sch')
       | Inr _ \<Rightarrow> inject_all sch' l' ms)"
  by (induction sch l "[m]" rule: inject_all.induct) simp_all

lemma inject_one_error:
  "inject_all sch l [m] = Some (r, l', sch') \<Longrightarrow>
     r = Inr () \<or> r = Inl (Wrap ''failed to inject message'' ''channel closed'')"
  by (induction sch l "[m]" rule: inject_all.induct) (auto split: if_splits)

lemma tx_open_same: "tx_open l = x \<Longrightarrow> l\<lparr>tx_open := x\<rparr> = l"
  by (cases l) simp

lemma alone_send_all:
  "tx_open (ls c) = channel_open E d c \<Longrightarrow> received E d c \<Longrightarrow>
     alone (send_all c ms k) E sch d ls =
       Option.bind (inject_all sch (ls c) ms) (\<lambda>(r, l, sch'). alone (k r) E sch' d (ls(c := l)))"
proof (induction ms arbitrary: sch ls)
  case Nil
  then show ?case by (simp del: fun_upd_apply)
next
  case (Cons m ms)
  have l: "(ls c)\<lparr>tx_open := channel_open E d c\<rparr> = ls c"
    using Cons.prems(1) by (rule tx_open_same)
  show ?case
  proof (cases "inject_all sch (ls c) [m]")
    case None
    with Cons.prems(2) show ?thesis by (simp add: l inject_all_Cons [of sch "ls c" m ms])
  next
    case (Some a)
    obtain r l' sch' where a: "inject_all sch (ls c) [m] = Some (r, l', sch')"
      using Some by (cases a) auto
    have "tx_open ((ls(c := l')) c) = channel_open E d c"
      using inject_all_tx_open [OF a] Cons.prems(1) by simp
    from Cons.IH [where ls = "ls(c := l')", OF this Cons.prems(2)] Cons.prems(2) a inject_one_error [OF a] show ?thesis
      by (auto simp: l inject_all_Cons [of sch "ls c" m ms] fun_upd_same simp del: fun_upd_apply)
  qed
qed

text \<open>A later round from the clone of the sender on is an exchange with the task.\<close>

lemma alone_exchange:
  assumes "tx_open (ls c) = channel_open E d c" and "access d = (Some seat, d')" and "at_channel seat = c"
    and "channel_open E d' c = channel_open E d c" and "received E d c" and "received E d' c"
  shows "alone (send_all c msgs (\<lambda>injected. returning injected (\<lambda>_.
      under_lock access (\<lambda>found. returning (ok_or found e) (\<lambda>seat.
        Collect_batch (at_channel seat) c k))))) E sch d ls =
    Option.bind (inject_all sch (ls c) msgs) (\<lambda>(r, l, sch').
      case r of
        Inl e \<Rightarrow> Some (Inl e, d, ls(c := l))
      | Inr _ \<Rightarrow> Option.bind (collect_batch sch' l) (\<lambda>(out, l', sch'').
          alone (k out) E sch'' d' (ls(c := l'))))"
proof -
  have norm: "l\<lparr>tx_open := channel_open E d' c\<rparr> = l" if "inject_all sch (ls c) msgs = Some (r, l, sch')" for r l sch'
    using inject_all_tx_open [OF that] assms(1,4) by (intro tx_open_same) simp
  show ?thesis
    unfolding alone_send_all [where ls = ls, OF assms(1,5)]
  proof (rule Option.bind_cong [OF refl], clarify)
    fix r l sch'
    assume "inject_all sch (ls c) msgs = Some (r, l, sch')"
    from norm [OF this] show "alone (returning r (\<lambda>_. under_lock access (\<lambda>found. returning (ok_or found e) (\<lambda>seat.
        Collect_batch (at_channel seat) c k)))) E sch' d (ls(c := l)) =
      (case r of
         Inl e \<Rightarrow> Some (Inl e, d, ls(c := l))
       | Inr _ \<Rightarrow> Option.bind (collect_batch sch' l) (\<lambda>(out, l', sch'').
           alone (k out) E sch'' d' (ls(c := l'))))"
      by (cases r) (simp_all add: assms(2,3,6) fun_upd_same del: fun_upd_apply)
  qed
qed

lemma map_option_bind: "map_option g (Option.bind m f) = Option.bind m (\<lambda>x. map_option g (f x))"
  by (cases m) simp_all

text \<open>So it is enough to compare what follows the exchange, for every link it may leave.\<close>

lemma exchange_alone:
  assumes op: "tx_open (ls c)" and acc: "access d = (Some seat, d')" and c: "at_channel seat = c"
    and failed: "\<And>e l. F (Inl e, l) = Some (G (Inl e, d, ls(c := l)))"
    and here: "c \<in> at_channel ` ran (seats d)" "c \<in> at_channel ` ran (seats d')"
    and collected: "\<And>out l sch'. tx_open l \<Longrightarrow> (out = None \<longrightarrow> task_done (prog l)) \<Longrightarrow>
      F (Inr out, l) = map_option G (alone (k out) {Tx c} sch' d' (ls(c := l)))"
  shows "Option.bind (exchange sch (ls c) msgs) F =
    map_option G (alone (send_all c msgs (\<lambda>injected. returning injected (\<lambda>_.
      under_lock access (\<lambda>found. returning (ok_or found e) (\<lambda>seat.
        Collect_batch (at_channel seat) c k))))) {Tx c} sch d ls)"
proof -
  have "Option.bind (exchange sch (ls c) msgs) F =
      Option.bind (inject_all sch (ls c) msgs) (\<lambda>(r, l, sch').
        map_option G (case r of
          Inl e \<Rightarrow> Some (Inl e, d, ls(c := l))
        | Inr _ \<Rightarrow> Option.bind (collect_batch sch' l) (\<lambda>(out, l', sch'').
            alone (k out) {Tx c} sch'' d' (ls(c := l')))))"
    unfolding exchange_def Option.bind_assoc
  proof (rule Option.bind_cong [OF refl], clarify)
    fix r l sch'
    assume i: "inject_all sch (ls c) msgs = Some (r, l, sch')"
    have "Option.bind (collect_batch sch' l) (\<lambda>(out, l', sch''). F (Inr out, l')) =
        Option.bind (collect_batch sch' l) (\<lambda>(out, l', sch'').
          map_option G (alone (k out) {Tx c} sch'' d' (ls(c := l'))))"
    proof (rule Option.bind_cong [OF refl], clarify)
      fix out l' sch''
      assume c: "collect_batch sch' l = Some (out, l', sch'')"
      have "out = None \<longrightarrow> task_done (prog l')" using c collect_batch_None by blast
      moreover have "tx_open l'"
        using c op inject_all_tx_open [OF i] by (auto simp: collect_batch_def dest: collect_loop_tx_open)
      ultimately show "F (Inr out, l') = map_option G (alone (k out) {Tx c} sch'' d' (ls(c := l')))"
        by (intro collected)
    qed
    then show "Option.bind
        (case r of Inl e \<Rightarrow> Some (Inl e, l)
         | Inr _ \<Rightarrow> Option.bind (collect_batch sch' l) (\<lambda>(out, l2, _). Some (Inr out, l2))) F =
      map_option G (case r of
          Inl e \<Rightarrow> Some (Inl e, d, ls(c := l))
        | Inr _ \<Rightarrow> Option.bind (collect_batch sch' l) (\<lambda>(out, l', sch'').
            alone (k out) {Tx c} sch'' d' (ls(c := l'))))"
      by (cases r) (simp_all add: failed map_option_bind split_def Option.bind_assoc del: fun_upd_apply)
  qed
  also have "\<dots> = map_option G (alone (send_all c msgs (\<lambda>injected. returning injected (\<lambda>_.
      under_lock access (\<lambda>found. returning (ok_or found e) (\<lambda>seat.
        Collect_batch (at_channel seat) c k))))) {Tx c} sch d ls)"
    using alone_exchange [where access = access and ls = ls and c = c and E = "{Tx c}" and d = d and d' = d'
        and seat = seat and sch = sch and msgs = msgs and k = k and e = e] op acc c here
    by (simp add: channel_open_def received_def map_option_bind split_def del: fun_upd_apply)
  finally show ?thesis .
qed

subsection \<open>The tables as tables of the engine\<close>

definition keygen_session_at :: "(channel \<Rightarrow> bytes link) \<Rightarrow> seat \<Rightarrow> keygen_session" where
  "keygen_session_at ls seat = \<lparr>ks_link = ls (at_channel seat), ks_has_task = at_has_task seat\<rparr>"

definition recovery_session_at :: "(channel \<Rightarrow> bytes link) \<Rightarrow> recovery_seat \<Rightarrow> recovery_session" where
  "recovery_session_at ls seat =
     \<lparr>rs_link = ls (at_channel seat), rs_has_task = at_has_task seat,
      rs_created_at = at_created seat, rs_rotation_version = at_rotation_version seat\<rparr>"

definition sign_session_at :: "(channel \<Rightarrow> (bytes \<times> byte) link) \<Rightarrow> sign_seat \<Rightarrow> sign_session" where
  "sign_session_at ls seat =
     \<lparr>ss_link = ls (at_channel seat), ss_has_task = at_has_task seat, ss_digest = at_digest seat,
      ss_consumed = at_consumed seat, ss_public_key_hex = at_public_key_hex seat\<rparr>"

definition sessions_at ::
  "((channel \<Rightarrow> 'r link) \<Rightarrow> 'z seat_scheme \<Rightarrow> 's) \<Rightarrow> 'z desk \<Rightarrow> (channel \<Rightarrow> 'r link) \<Rightarrow> string \<rightharpoonup> 's" where
  "sessions_at f d ls sid = map_option (f ls) (seats d sid)"

definition keygen_engine :: "engine \<Rightarrow> keygen_desk \<Rightarrow> (channel \<Rightarrow> bytes link) \<Rightarrow> engine" where
  "keygen_engine st d ls = st\<lparr>keygen_sessions := sessions_at keygen_session_at d ls\<rparr>"

definition recovery_engine :: "engine \<Rightarrow> recovery_desk \<Rightarrow> (channel \<Rightarrow> bytes link) \<Rightarrow> engine" where
  "recovery_engine st d ls = st\<lparr>recovery_sessions := sessions_at recovery_session_at d ls\<rparr>"

definition sign_engine :: "engine \<Rightarrow> sign_desk \<Rightarrow> (channel \<Rightarrow> (bytes \<times> byte) link) \<Rightarrow> engine" where
  "sign_engine st d ls = st\<lparr>sign_sessions := sessions_at sign_session_at d ls\<rparr>"

text \<open>Two sessions never share a channel, and the sessions of the table keep theirs open.\<close>

definition seats_sound :: "'z desk \<Rightarrow> (channel \<Rightarrow> 'r link) \<Rightarrow> bool" where
  "seats_sound d ls \<longleftrightarrow>
     (\<forall>a b s t. seats d a = Some s \<longrightarrow> seats d b = Some t \<longrightarrow> at_channel s = at_channel t \<longrightarrow> a = b)
     \<and> (\<forall>a s. seats d a = Some s \<longrightarrow> tx_open (ls (at_channel s)))"

lemma seats_open: "seats_sound d ls \<Longrightarrow> seats d sid = Some s \<Longrightarrow> tx_open (ls (at_channel s))"
  unfolding seats_sound_def by blast

lemma seats_other:
  "seats_sound d ls \<Longrightarrow> seats d sid = Some s \<Longrightarrow> seats d k = Some t \<Longrightarrow> k \<noteq> sid \<Longrightarrow> at_channel t \<noteq> at_channel s"
  unfolding seats_sound_def by blast

lemma channel_open_seat: "seats d sid = Some s \<Longrightarrow> channel_open x d (at_channel s)"
  unfolding channel_open_def by (blast intro: ranI)

lemma seat_here: "seats d sid = Some s \<Longrightarrow> at_channel s \<in> at_channel ` ran (seats d)"
  by (blast intro: ranI)

text \<open>A session has the state of its own channel and of no other.\<close>

definition reads_own :: "((channel \<Rightarrow> 'r link) \<Rightarrow> 'z seat_scheme \<Rightarrow> 's) \<Rightarrow> bool" where
  "reads_own f \<longleftrightarrow> (\<forall>ls ls' t. ls' (at_channel t) = ls (at_channel t) \<longrightarrow> f ls' t = f ls t)"

lemma reads_own: "reads_own keygen_session_at" "reads_own recovery_session_at" "reads_own sign_session_at"
  by (simp_all add: reads_own_def keygen_session_at_def recovery_session_at_def sign_session_at_def)

lemma sessions_elsewhere:
  assumes "reads_own f" and "seats_sound d ls" and "seats d sid = Some s" and "k \<noteq> sid"
  shows "map_option (f (ls(at_channel s := l))) (seats d k) = map_option (f ls) (seats d k)"
proof (cases "seats d k")
  case (Some t)
  then have "(ls(at_channel s := l)) (at_channel t) = ls (at_channel t)"
    using seats_other [OF assms(2,3) Some assms(4)] by simp
  with assms(1) have "f (ls(at_channel s := l)) t = f ls t" unfolding reads_own_def by blast
  with Some show ?thesis by simp
qed simp

lemma sessions_link:
  assumes "reads_own f" and "seats_sound d ls" and "seats d sid = Some s"
  shows "sessions_at f d (ls(at_channel s := l)) = (sessions_at f d ls)(sid \<mapsto> f (ls(at_channel s := l)) s)"
  using sessions_elsewhere [OF assms] assms(3) by (intro ext) (auto simp: sessions_at_def)

lemma sessions_taken:
  assumes "reads_own f" and "seats_sound d ls" and "seats d sid = Some s"
  shows "sessions_at f (d\<lparr>seats := (seats d)(sid := None)\<rparr>) (ls(at_channel s := l)) =
         (sessions_at f d ls)(sid := None)"
    and "sessions_at f (d\<lparr>seats := (seats d)(sid := None)\<rparr>) ls = (sessions_at f d ls)(sid := None)"
  using sessions_elsewhere [OF assms] by (auto simp: sessions_at_def)

lemma sessions_at_Some: "seats d sid = Some s \<Longrightarrow> sessions_at f d ls sid = Some (f ls s)"
  by (simp add: sessions_at_def)

lemma sessions_at_None: "seats d sid = None \<Longrightarrow> sessions_at f d ls sid = None"
  by (simp add: sessions_at_def)

text \<open>The end of a later round, whose task is done.\<close>

lemma alone_clone_finish:
  assumes "seats d sid = Some s" and "tx_open l" and "task_done (prog l)"
  shows "alone (finish_call kind sid reply) {Tx (at_channel s)} sch d (ls(at_channel s := l)) =
    (if \<not> at_has_task s then Some (Inl (Msg ''no task handle''), snd (take_seat sid d), ls(at_channel s := l))
     else Option.bind (join_link l) (\<lambda>j. Some (reply s j, snd (take_seat sid d), ls(at_channel s := l))))"
  using assms join_link_done [OF assms(3)]
  by (simp add: finish_call_def take_seat_def channel_open_def Let_def tx_open_same)

lemma keygen_advance_alone:
  assumes "seats_sound d ls"
  shows "keygen_advance C D x sid p (keygen_engine st d ls) =
    map_option (\<lambda>(r, d', ls'). (r, keygen_engine st d' ls'))
      (alone (keygen_advance_call C D sid p) {} (cc_schedule x) d ls)"
proof (cases "seats d sid")
  case None
  then show ?thesis
    by (simp add: keygen_advance_call_def keygen_advance_def find_seat_def keygen_engine_def sessions_at_None)
next
  case (Some s)
  let ?c = "at_channel s"
  have found: "keygen_sessions (keygen_engine st d ls) sid = Some (keygen_session_at ls s)"
    using Some by (simp add: keygen_engine_def sessions_at_Some)
  show ?thesis
  proof (cases "parse_server_envelope_batch C p")
    case (Inl e)
    with Some found show ?thesis
      by (simp add: keygen_advance_call_def keygen_advance_def find_seat_def)
  next
    case (Inr v)
    obtain env msgs where v: "v = (env, msgs)" by fastforce
    have st1: "insert_keygen_session sid (keygen_session_at ls s\<lparr>ks_link := l\<rparr>) (keygen_engine st d ls) =
        keygen_engine st d (ls(?c := l))" for l
      using sessions_link [OF reads_own(1) assms Some, of l]
      by (simp add: keygen_engine_def insert_keygen_session_def keygen_session_at_def)
    have taken: "keygen_engine st (snd (take_seat sid d)) (ls(?c := l)) = keygen_engine st (snd (take_seat sid d)) ls"
      "snd (remove_keygen_session sid (keygen_engine st d (ls(?c := l)))) =
         keygen_engine st (snd (take_seat sid d)) ls" for l
      using sessions_link [OF reads_own(1) assms Some, of l] sessions_taken [OF reads_own(1) assms Some]
      by (simp_all add: keygen_engine_def remove_keygen_session_def take_seat_def)
    show ?thesis
      unfolding keygen_advance_call_def keygen_advance_def
      by (simp add: found find_seat_def [of sid d] Some Inr v keygen_session_at_def del: fun_upd_apply,
          rule exchange_alone [where d' = d and seat = s])
         (simp_all add: seats_open [OF assms Some] find_seat_def Some st1 [unfolded keygen_session_at_def, simplified]
            alone_clone_finish [OF Some] seat_here [OF Some] map_option_bind taken Let_def split: option.split del: fun_upd_apply)
  qed
qed

lemma recover_advance_alone:
  assumes "seats_sound d ls"
  shows "recover_advance C D x sid p (recovery_engine st d ls) =
    map_option (\<lambda>(r, d', ls'). (r, recovery_engine st d' ls'))
      (alone (recover_advance_call C D x sid p) {} (cc_schedule x) d ls)"
proof (cases "seats d sid")
  case None
  then show ?thesis
    by (simp add: recover_advance_call_def recover_advance_def find_live_seat_def recovery_engine_def sessions_at_None)
next
  case (Some s)
  let ?c = "at_channel s"
  have found: "recovery_sessions (recovery_engine st d ls) sid = Some (recovery_session_at ls s)"
    using Some by (simp add: recovery_engine_def sessions_at_Some)
  show ?thesis
  proof (cases "elapsed (cc_now x) (at_created s) > SESSION_TTL")
    case True
    have "sessions_at recovery_session_at (d\<lparr>seats := (seats d)(sid := None), aborted := A\<rparr>) ls =
        (sessions_at recovery_session_at d ls)(sid := None)" for A
      by (rule ext) (simp add: sessions_at_def)
    then have "recovery_engine st (d\<lparr>seats := (seats d)(sid := None), aborted := A\<rparr>) ls =
        snd (remove_recovery_session sid (recovery_engine st d ls))" for A
      by (simp add: recovery_engine_def remove_recovery_session_def)
    with True Some found show ?thesis
      by (simp add: recover_advance_call_def recover_advance_def find_live_seat_def recovery_session_at_def)
  next
    case live: False
    show ?thesis
    proof (cases "parse_server_envelope_batch C p")
      case (Inl e)
      with Some found live show ?thesis
        by (simp add: recover_advance_call_def recover_advance_def find_live_seat_def recovery_session_at_def)
    next
      case (Inr v)
      obtain env msgs where v: "v = (env, msgs)" by fastforce
      have st1: "insert_recovery_session sid (recovery_session_at ls s\<lparr>rs_link := l\<rparr>) (recovery_engine st d ls) =
          recovery_engine st d (ls(?c := l))" for l
        using sessions_link [OF reads_own(2) assms Some, of l]
        by (simp add: recovery_engine_def insert_recovery_session_def recovery_session_at_def)
      have taken: "recovery_engine st (snd (take_seat sid d)) (ls(?c := l)) = recovery_engine st (snd (take_seat sid d)) ls"
        "snd (remove_recovery_session sid (recovery_engine st d (ls(?c := l)))) =
           recovery_engine st (snd (take_seat sid d)) ls" for l
        using sessions_link [OF reads_own(2) assms Some, of l] sessions_taken [OF reads_own(2) assms Some]
        by (simp_all add: recovery_engine_def remove_recovery_session_def take_seat_def)
      show ?thesis
        unfolding recover_advance_call_def recover_advance_def
        using live
        by (simp add: found find_live_seat_def [of x sid d] Some Inr v recovery_session_at_def del: fun_upd_apply,
            intro exchange_alone [where d' = d and seat = s])
           (simp_all add: seats_open [OF assms Some] find_seat_def Some st1 [unfolded recovery_session_at_def, simplified]
              alone_clone_finish [OF Some] seat_here [OF Some] map_option_bind taken Let_def split: option.split del: fun_upd_apply)
    qed
  qed
qed

lemma sign_advance_alone:
  assumes "seats_sound d ls"
  shows "sign_advance C x sid p (sign_engine st d ls) =
    map_option (\<lambda>(r, d', ls'). (r, sign_engine st d' ls'))
      (alone (sign_advance_call C sid p) {} (cc_schedule x) d ls)"
proof (cases "seats d sid")
  case None
  then show ?thesis
    by (simp add: sign_advance_call_def sign_advance_def find_unconsumed_def sign_engine_def sessions_at_None)
next
  case (Some s)
  let ?c = "at_channel s"
  have found: "sign_sessions (sign_engine st d ls) sid = Some (sign_session_at ls s)"
    using Some by (simp add: sign_engine_def sessions_at_Some)
  show ?thesis
  proof (cases "at_consumed s")
    case True
    with Some found show ?thesis
      by (simp add: sign_advance_call_def sign_advance_def find_unconsumed_def sign_session_at_def)
  next
    case fresh: False
    show ?thesis
    proof (cases "parse_server_envelope_batch C p")
      case (Inl e)
      with Some found fresh show ?thesis
        by (simp add: sign_advance_call_def sign_advance_def find_unconsumed_def sign_session_at_def)
    next
      case (Inr v)
      obtain env msgs where v: "v = (env, msgs)" by fastforce
      let ?d = "snd (mark_consumed True sid d)" and ?s = "s\<lparr>at_consumed := True\<rparr>"
      have marked: "seats ?d sid = Some ?s" "mark_consumed True sid d = (Some s, ?d)"
        by (simp_all add: mark_consumed_def Some)
      have same: "s\<lparr>at_consumed := False\<rparr> = s" using fresh by (cases s) simp
      have reset: "mark_consumed False sid ?d = (Some ?s, d)" "snd (take_seat sid ?d) = snd (take_seat sid d)"
        using Some same by (simp_all add: mark_consumed_def take_seat_def fun_upd_idem)
      have finish: "alone (finish_call kind sid reply) {Tx ?c} sch ?d (ls(?c := l)) =
        (if \<not> at_has_task s then Some (Inl (Msg ''no task handle''), snd (take_seat sid d), ls(?c := l))
         else Option.bind (join_link l) (\<lambda>j. Some (reply ?s j, snd (take_seat sid d), ls(?c := l))))"
        if "tx_open l" "task_done (prog l)" for kind reply sch l
        using alone_clone_finish [OF marked(1), of l kind reply sch ls] that by (simp add: reset(2))
      have st1: "insert_sign_session sid
          \<lparr>ss_link = l, ss_has_task = at_has_task s, ss_digest = at_digest s, ss_consumed = False,
           ss_public_key_hex = at_public_key_hex s\<rparr> (sign_engine st d ls) = sign_engine st d (ls(?c := l))" for l
        using sessions_link [OF reads_own(3) assms Some, of l] fresh
        by (simp add: sign_engine_def insert_sign_session_def sign_session_at_def)
      have taken: "sign_engine st (snd (take_seat sid d)) (ls(?c := l)) = sign_engine st (snd (take_seat sid d)) ls"
        "snd (remove_sign_session sid (sign_engine st d (ls(?c := l)))) =
           sign_engine st (snd (take_seat sid d)) ls" for l
        using sessions_link [OF reads_own(3) assms Some, of l] sessions_taken [OF reads_own(3) assms Some]
        by (simp_all add: sign_engine_def remove_sign_session_def take_seat_def)
      show ?thesis
        unfolding sign_advance_call_def sign_advance_def
        by (simp add: found find_unconsumed_def [of sid d] Some Inr v sign_session_at_def fresh del: fun_upd_apply,
            rule exchange_alone [where d' = ?d and seat = s], simp add: seats_open [OF assms Some],
            rule marked(2), rule refl)
           (simp_all add: seat_here [OF Some] seat_here [OF marked(1), simplified] st1 finish taken reset(1) map_option_bind Let_def split: option.split del: fun_upd_apply)
    qed
  qed
qed

text \<open>Collect mode: nobody has a clone, so the channel closes as the session leaves the table.\<close>

lemma sessions_take: "sessions_at f (snd (take_seat sid d)) ls = (sessions_at f d ls)(sid := None)"
  by (rule ext) (simp add: sessions_at_def take_seat_def)

lemma closed_when_taken:
  assumes "seats_sound d ls" and "seats d sid = Some s"
  shows "\<not> channel_open {} (snd (take_seat sid d)) (at_channel s)"
  using seats_other [OF assms] by (fastforce simp: channel_open_def take_seat_def ran_def split: if_splits)

lemma sessions_take_link:
  assumes "reads_own f" and "seats_sound d ls" and "seats d sid = Some s"
  shows "(sessions_at f d (ls(at_channel s := l)))(sid := None) = (sessions_at f d ls)(sid := None)"
  by (simp add: sessions_link [OF assms])

lemma alone_collect:
  assumes "seats_sound d ls"
  shows "alone (collect_mode_call kind sid reply) {} sch d ls =
    (case seats d sid of
       None \<Rightarrow> Some (Inl (NotFound kind sid), snd (take_seat sid d), ls)
     | Some s \<Rightarrow>
         if \<not> at_has_task s then Some (Inl (Msg ''no task handle''), snd (take_seat sid d), ls)
         else let l = (ls (at_channel s))\<lparr>tx_open := False\<rparr> in
           Option.bind (run_out l) (\<lambda>l'. Option.bind (task_outcome (prog l')) (\<lambda>j.
             Some (reply s j, snd (take_seat sid d), ls(at_channel s := l')))))"
proof (cases "seats d sid")
  case (Some s)
  with closed_when_taken [OF assms Some] show ?thesis
    by (simp add: collect_mode_call_def take_seat_def Let_def channel_open_def received_def)
qed (simp add: collect_mode_call_def take_seat_def)

lemma keygen_collect_alone:
  assumes "seats_sound d ls"
  shows "keygen_collect C D sid (keygen_engine st d ls) =
    map_option (\<lambda>(r, d', ls'). (r, keygen_engine st d' ls'))
      (alone (keygen_collect_call C D sid) {} sch d ls)"
proof (cases "seats d sid")
  case None
  then show ?thesis
    by (simp add: keygen_collect_call_def alone_collect [OF assms] keygen_collect_def remove_keygen_session_def
        keygen_engine_def sessions_at_None sessions_take)
next
  case (Some s)
  then show ?thesis
    by (simp add: keygen_collect_call_def alone_collect [OF assms] keygen_collect_def remove_keygen_session_def
        keygen_engine_def sessions_at_Some sessions_take sessions_take_link [OF reads_own(1) assms Some]
        keygen_session_at_def map_option_bind join_link_def Let_def)
qed

lemma recover_collect_alone:
  assumes "seats_sound d ls"
  shows "recover_collect C D x sid (recovery_engine st d ls) =
    map_option (\<lambda>(r, d', ls'). (r, recovery_engine st d' ls'))
      (alone (recover_collect_call C D x sid) {} sch d ls)"
proof (cases "seats d sid")
  case None
  then show ?thesis
    by (simp add: recover_collect_call_def alone_collect [OF assms] recover_collect_def remove_recovery_session_def
        recovery_engine_def sessions_at_None sessions_take)
next
  case (Some s)
  then show ?thesis
    by (simp add: recover_collect_call_def alone_collect [OF assms] recover_collect_def remove_recovery_session_def
        recovery_engine_def sessions_at_Some sessions_take sessions_take_link [OF reads_own(2) assms Some]
        recovery_session_at_def map_option_bind join_link_def Let_def)
qed

subsection \<open>First rounds\<close>

text \<open>
  A table with nobody at it: no call under way, the lock free.
\<close>

definition idle :: "channel \<Rightarrow> 'z desk \<Rightarrow> (channel \<Rightarrow> 'r link) \<Rightarrow> ('z, 'r) hall" where
  "idle n d ls = \<lparr>desk = d, links = ls, holder = None, next_channel = n\<rparr>"

text \<open>The pool can take one call from its start to this answer, with nobody else in it.\<close>

definition answers_alone ::
  "('z desk, 'r) call \<Rightarrow> channel \<Rightarrow> 'z desk \<Rightarrow> (channel \<Rightarrow> 'r link) \<Rightarrow> string res \<Rightarrow> 'z desk
   \<Rightarrow> (channel \<Rightarrow> 'r link) \<Rightarrow> bool"
where
  "answers_alone t n d ls r d' ls' \<longleftrightarrow>
     (\<exists>es n'. runs {} [settle {} t] (idle n d ls) es [settle {} (Answer r)] (idle n' d' ls'))"

lemma open_alone:
  "answers_alone (open_call l sid seat r) n d ls r (snd (put_seat sid (seat n) d)) (ls(n := l))"
proof -
  let ?w = "settle {} (open_call l sid seat r) :: ('a, 'b) worker"
  let ?v = "\<lparr>holds = {Tx n, Rx n}, stage = Enter, code = under_lock (put_seat sid (seat n)) (\<lambda>_. Answer r)\<rparr>
      :: ('a, 'b) worker"
  have "step [?w] (idle n d ls) (Opened n (outq l)) [?v] (idle (Suc n) d (ls(n := l)))"
    using Move_spawn [of 0 "[?w]" l _ n "idle n d ls"]
    by (simp add: open_call_def under_lock_def idle_def set_link_def insert_commute)
  moreover have "step [?v] (idle (Suc n) d (ls(n := l))) Silent [settle {} (Answer r)]
      (idle (Suc n) (snd (put_seat sid (seat n) d)) (ls(n := l)))"
    using Move_section [of 0 "[?v]" _ _ "idle (Suc n) d (ls(n := l))" "settle {} (Answer r)"]
    by (simp add: under_lock_def idle_def)
  ultimately show ?thesis
    unfolding answers_alone_def by (intro exI) (rule Runs_step, rule Runs_step, rule Runs_nil)
qed

lemma sessions_put:
  assumes "reads_own f" and "desk_below n d" and "at_channel seat = n"
  shows "sessions_at f (snd (put_seat sid seat d)) (ls(n := l)) = (sessions_at f d ls)(sid \<mapsto> f (ls(n := l)) seat)"
proof (rule ext)
  fix k
  have "map_option (f (ls(n := l))) (seats d k) = map_option (f ls) (seats d k)"
  proof (cases "seats d k")
    case (Some t)
    with assms(2) have "at_channel t \<noteq> n" by (auto simp: desk_below_def)
    then have "(ls(n := l)) (at_channel t) = ls (at_channel t)" by simp
    with assms(1) have "f (ls(n := l)) t = f ls t" unfolding reads_own_def by blast
    with Some show ?thesis by simp
  qed simp
  then show "sessions_at f (snd (put_seat sid seat d)) (ls(n := l)) k =
      ((sessions_at f d ls)(sid \<mapsto> f (ls(n := l)) seat)) k"
    by (simp add: sessions_at_def put_seat_def)
qed

text \<open>
  A call of \<open>K\<close> answers \<open>r\<close> when it has the pool for itself, and leaves the sessions of \<open>st'\<close>.
\<close>

definition answered_alone ::
  "('z desk, 'r) call set \<Rightarrow> channel \<Rightarrow> 'z desk \<Rightarrow> (channel \<Rightarrow> 'r link)
   \<Rightarrow> ('z desk \<Rightarrow> (channel \<Rightarrow> 'r link) \<Rightarrow> engine) \<Rightarrow> string res \<Rightarrow> engine \<Rightarrow> bool"
where
  "answered_alone K n d ls st_of r st' \<longleftrightarrow>
     (\<exists>t\<in>K. \<exists>d' ls'. answers_alone t n d ls r d' ls' \<and> st' = st_of d' ls')"

lemma open_answered:
  assumes "open_call l sid seat r \<in> K" and "st' = st_of (snd (put_seat sid (seat n) d)) (ls(n := l))"
  shows "answered_alone K n d ls st_of r st'"
  unfolding answered_alone_def assms(2) by (intro bexI [OF _ assms(1)] exI conjI) (rule open_alone, rule refl)

lemma keygen_first_alone:
  assumes "desk_below n d" and "keygen_sessions s1 sid = None"
    and "keygen_round1 C D x sid p s1 = Some (r, insert_keygen_session sid s s1)"
  shows "answered_alone (keygen_first_calls C D) n d ls (keygen_engine st) r
           (insert_keygen_session sid s (keygen_engine st d ls))"
proof -
  let ?seat = "\<lambda>c. \<lparr>at_channel = c, at_has_task = ks_has_task s\<rparr>"
  have "open_call (ks_link s) sid ?seat r \<in> keygen_first_calls C D"
    unfolding keygen_first_calls_def using assms(2,3) by blast
  moreover have "insert_keygen_session sid s (keygen_engine st d ls) =
      keygen_engine st (snd (put_seat sid (?seat n) d)) (ls(n := ks_link s))"
    using sessions_put [OF reads_own(1) assms(1)]
    by (cases s) (simp add: keygen_engine_def insert_keygen_session_def keygen_session_at_def)
  ultimately show ?thesis by (rule open_answered)
qed

lemma recover_first_alone:
  assumes "desk_below n d" and "recovery_sessions s1 sid = None"
    and "recover_round1 C D x sid p share rv s1 = Some (r, insert_recovery_session sid s s1)"
  shows "answered_alone (recover_first_calls C D) n d ls (recovery_engine st) r
           (insert_recovery_session sid s (recovery_engine st d ls))"
proof -
  let ?seat = "\<lambda>c. \<lparr>at_channel = c, at_has_task = rs_has_task s, at_created = rs_created_at s,
    at_rotation_version = rs_rotation_version s\<rparr>"
  have "open_call (rs_link s) sid ?seat r \<in> recover_first_calls C D"
    unfolding recover_first_calls_def using assms(2,3) by blast
  moreover have "insert_recovery_session sid s (recovery_engine st d ls) =
      recovery_engine st (snd (put_seat sid (?seat n) d)) (ls(n := rs_link s))"
    using sessions_put [OF reads_own(2) assms(1)]
    by (cases s) (simp add: recovery_engine_def insert_recovery_session_def recovery_session_at_def)
  ultimately show ?thesis by (rule open_answered)
qed

lemma sign_first_alone:
  assumes "desk_below n d" and "sign_sessions s1 sid = None"
    and "sign_round1 C D x sid p share mh s1 = Some (r, insert_sign_session sid s s1)"
  shows "answered_alone (sign_first_calls C D) n d ls (sign_engine st) r
           (insert_sign_session sid s (sign_engine st d ls))"
proof -
  let ?seat = "\<lambda>c. \<lparr>at_channel = c, at_has_task = ss_has_task s, at_digest = ss_digest s,
    at_consumed = ss_consumed s, at_public_key_hex = ss_public_key_hex s\<rparr>"
  have "open_call (ss_link s) sid ?seat r \<in> sign_first_calls C D"
    unfolding sign_first_calls_def using assms(2,3) by blast
  moreover have "insert_sign_session sid s (sign_engine st d ls) =
      sign_engine st (snd (put_seat sid (?seat n) d)) (ls(n := ss_link s))"
    using sessions_put [OF reads_own(3) assms(1)]
    by (cases s) (simp add: sign_engine_def insert_sign_session_def sign_session_at_def)
  ultimately show ?thesis by (rule open_answered)
qed

subsection \<open>The same answers\<close>

text \<open>Whenever the call of the engine returns, so does the worker, and to the same effect.\<close>

definition same_alone ::
  "('z desk, 'r) call \<Rightarrow> channel \<Rightarrow> 'z desk \<Rightarrow> (channel \<Rightarrow> 'r link)
   \<Rightarrow> ('z desk \<Rightarrow> (channel \<Rightarrow> 'r link) \<Rightarrow> engine) \<Rightarrow> outcome \<Rightarrow> bool"
where
  "same_alone t n d ls st_of out \<longleftrightarrow>
     (\<forall>r st'. out = Some (r, st') \<longrightarrow> answered_alone {t} n d ls st_of r st')"

lemma same_aloneI:
  assumes "out = map_option (\<lambda>(r, d', ls'). (r, st_of d' ls')) (alone t {} sch d ls)"
    and "well_locked t False" and "below t n" and "desk_below n d"
  shows "same_alone t n d ls st_of out"
proof -
  have "answers_alone t n d ls r d' ls'" if "alone t {} sch d ls = Some (r, d', ls')" for r d' ls'
    using alone_runs [OF that assms(2-4), of "{}"] settle_collecting [OF assms(2)]
    unfolding answers_alone_def by (auto simp: idle_def)
  with assms(1) show ?thesis unfolding same_alone_def answered_alone_def by (auto; blast)
qed

text \<open>The channels of a table have been made, are its own and are open.\<close>

definition table_sound :: "channel \<Rightarrow> 'z desk \<Rightarrow> (channel \<Rightarrow> 'r link) \<Rightarrow> bool" where
  "table_sound n d ls \<longleftrightarrow> desk_below n d \<and> seats_sound d ls"

lemma seats_of_table: "table_sound n d ls \<Longrightarrow> seats_sound d ls"
  by (simp add: table_sound_def)

lemma below_collect: "below (keygen_collect_call C D sid) n" "below (recover_collect_call C D x sid) n"
  by (simp_all add: keygen_collect_call_def recover_collect_call_def below_parts)

lemma later_same:
  assumes "table_sound n d ls"
  shows "same_alone (keygen_advance_call C D sid p) n d ls (keygen_engine st)
      (keygen_advance C D x sid p (keygen_engine st d ls))"
    and "same_alone (keygen_collect_call C D sid) n d ls (keygen_engine st)
      (keygen_collect C D sid (keygen_engine st d ls))"
  using assms unfolding table_sound_def
  by (blast intro: same_aloneI [OF keygen_advance_alone well_locked_advance(1) below_advance(1)]
      same_aloneI [OF keygen_collect_alone well_locked_collect(1) below_collect(1)])+

lemma later_same_recover:
  assumes "table_sound n d ls"
  shows "same_alone (recover_advance_call C D x sid p) n d ls (recovery_engine st)
      (recover_advance C D x sid p (recovery_engine st d ls))"
    and "same_alone (recover_collect_call C D x sid) n d ls (recovery_engine st)
      (recover_collect C D x sid (recovery_engine st d ls))"
  using assms unfolding table_sound_def
  by (blast intro: same_aloneI [OF recover_advance_alone well_locked_advance(2) below_advance(2)]
      same_aloneI [OF recover_collect_alone well_locked_collect(2) below_collect(2)])+

lemma later_same_sign:
  assumes "table_sound n d ls"
  shows "same_alone (sign_advance_call C sid p) n d ls (sign_engine st)
      (sign_advance C x sid p (sign_engine st d ls))"
  using assms unfolding table_sound_def
  by (blast intro: same_aloneI [OF sign_advance_alone well_locked_advance(3) below_advance(3)])

section \<open>Examples\<close>

text \<open>Example tables: one session, on channel 0.\<close>

definition ex_keygen_desk :: keygen_desk where
  "ex_keygen_desk = \<lparr>seats = [''k'' \<mapsto> \<lparr>at_channel = 0, at_has_task = True\<rparr>], aborted = {}\<rparr>"

definition ex_recovery_desk :: recovery_desk where
  "ex_recovery_desk =
     \<lparr>seats = [''r'' \<mapsto> \<lparr>at_channel = 0, at_has_task = True, at_created = 0, at_rotation_version = 1\<rparr>],
      aborted = {}\<rparr>"

definition ex_sign_desk :: sign_desk where
  "ex_sign_desk =
     \<lparr>seats = [''s'' \<mapsto> \<lparr>at_channel = 0, at_has_task = True, at_digest = MessageDigest (replicate 32 0),
                     at_consumed = False, at_public_key_hex = []\<rparr>],
      aborted = {}\<rparr>"

lemmas ex_desks = ex_keygen_desk_def ex_recovery_desk_def ex_sign_desk_def

lemma ex_desks_sound:
  "table_sound 1 ex_keygen_desk (\<lambda>_. new_link t)" "table_sound 1 ex_recovery_desk (\<lambda>_. new_link t)"
  "table_sound 1 ex_sign_desk (\<lambda>_. new_link t')"
  by (auto simp: ex_desks table_sound_def desk_below_def seats_sound_def new_link_def split: if_splits)

lemma ex_desks_below: "desk_below 1 ex_keygen_desk" "desk_below 1 ex_recovery_desk" "desk_below 1 ex_sign_desk"
  by (simp_all add: ex_desks desk_below_def)

text \<open>A keygen round of the example table that returns, alone.\<close>

lemma ex_round_alone:
  obtains p r d' ls' where
    "alone (keygen_advance_call ex_codecs ex_dkls ''k'' p) {} ex_schedule ex_keygen_desk
       (\<lambda>_. new_link (ex_run [1] ex_ks)) = Some (Inr r, d', ls')"
proof -
  obtain p env where p: "parse_server_envelope_batch ex_codecs p = Inr (env, [[9]])"
    using ex_server_envelope by blast
  obtain r where r: "make_in_progress_batch ex_codecs ''k'' Dkg (we_round env) [[1]] = Inr r"
    using batch_reads [OF ex_json_law] by blast
  let ?ls = "\<lambda>_ :: channel. new_link (ex_run [1] ex_ks)"
  have "sessions_at keygen_session_at ex_keygen_desk ?ls ''k'' =
      Some \<lparr>ks_link = new_link (ex_run [1] ex_ks), ks_has_task = True\<rparr>"
    by (simp add: sessions_at_def ex_keygen_desk_def keygen_session_at_def)
  with p r have "\<exists>st'. keygen_advance ex_codecs ex_dkls (ex_ctx ex_schedule) ''k'' p
      (keygen_engine init_engine ex_keygen_desk ?ls) = Some (Inr r, st')"
    by (simp add: keygen_advance_def keygen_engine_def ex_exchange ex_ctx_def)
  then show thesis
    using that keygen_advance_alone [OF seats_of_table [OF ex_desks_sound(1)], of ex_codecs ex_dkls "ex_ctx ex_schedule"]
    by (fastforce simp: ex_ctx_def)
qed

text \<open>
  The first calls of the pool are given by what the first rounds of \<open>Dkls_Engine\<close> answer when they
  open a session, so that one of them has a run that opens the same session, by construction;
  refused first rounds are not among them.
\<close>

lemma secp_first_calls_alone:
  assumes "table_sound n dk lk" and "table_sound n dr lr" and "table_sound n ds ls"
  shows "(keygen_sessions s1 sid = None \<longrightarrow>
            keygen_round1 C D x sid p s1 = Some (r, insert_keygen_session sid ks s1) \<longrightarrow>
            answered_alone (keygen_first_calls C D) n dk lk (keygen_engine st) r
              (insert_keygen_session sid ks (keygen_engine st dk lk)))
       \<and> (recovery_sessions s1 sid = None \<longrightarrow>
            recover_round1 C D x sid p share rv s1 = Some (r, insert_recovery_session sid rs s1) \<longrightarrow>
            answered_alone (recover_first_calls C D) n dr lr (recovery_engine st) r
              (insert_recovery_session sid rs (recovery_engine st dr lr)))
       \<and> (sign_sessions s1 sid = None \<longrightarrow>
            sign_round1 C D x sid p share mh s1 = Some (r, insert_sign_session sid ss s1) \<longrightarrow>
            answered_alone (sign_first_calls C D) n ds ls (sign_engine st) r
              (insert_sign_session sid ss (sign_engine st ds ls)))"
  using assms
  by (auto simp: table_sound_def intro: keygen_first_alone recover_first_alone sign_first_alone)

section \<open>Properties\<close>

text \<open>
  Property C19: a later secp256k1 call that is not interrupted is the call of the model. Whenever a
  later round of keygen, recover or sign, or the collect mode of the first two, returns, the call as a
  worker with nobody else in the pool has a run, through its sections, sends, collections and the
  join, to the same answer that leaves the same table and the same sessions.
\<close>

theorem secp_calls_alone:
  assumes "table_sound n dk lk" and "table_sound n dr lr" and "table_sound n ds ls"
  shows "same_alone (keygen_advance_call C D sid p) n dk lk (keygen_engine st)
           (keygen_advance C D x sid p (keygen_engine st dk lk))
       \<and> same_alone (keygen_collect_call C D sid) n dk lk (keygen_engine st)
           (keygen_collect C D sid (keygen_engine st dk lk))
       \<and> same_alone (recover_advance_call C D x sid p) n dr lr (recovery_engine st)
           (recover_advance C D x sid p (recovery_engine st dr lr))
       \<and> same_alone (recover_collect_call C D x sid) n dr lr (recovery_engine st)
           (recover_collect C D x sid (recovery_engine st dr lr))
       \<and> same_alone (sign_advance_call C sid p) n ds ls (sign_engine st)
           (sign_advance C x sid p (sign_engine st ds ls))"
  using assms by (intro conjI later_same later_same_recover later_same_sign) (simp_all add: table_sound_def)

theorem secp_calls_alone_witness:
  "\<exists>p r d' ls'. answers_alone (keygen_advance_call ex_codecs ex_dkls ''k'' p) 1 ex_keygen_desk
     (\<lambda>_. new_link (ex_run [1] ex_ks)) (Inr r) d' ls'"
proof -
  obtain p r d' ls' where "alone (keygen_advance_call ex_codecs ex_dkls ''k'' p) {} ex_schedule ex_keygen_desk
      (\<lambda>_. new_link (ex_run [1] ex_ks)) = Some (Inr r, d', ls')"
    by (rule ex_round_alone)
  then have "keygen_advance ex_codecs ex_dkls (ex_ctx ex_schedule) ''k'' p
      (keygen_engine init_engine ex_keygen_desk (\<lambda>_. new_link (ex_run [1] ex_ks))) =
    Some (Inr r, keygen_engine init_engine d' ls')"
    using keygen_advance_alone [OF seats_of_table [OF ex_desks_sound(1)]] by (simp add: ex_ctx_def)
  with secp_calls_alone [OF ex_desks_sound(1) [of "ex_run [1] ex_ks"] ex_desks_sound(2,3), where C = ex_codecs
      and D = ex_dkls and sid = "''k''" and p = p and st = init_engine and x = "ex_ctx ex_schedule", THEN conjunct1]
  show ?thesis unfolding same_alone_def answered_alone_def by blast
qed

end
