(* ===== verification/Lock_Pools.thy ===== *)
theory Lock_Pools
  imports Lock_Calls
begin

text \<open>
  The pool of calls at one session table: one worker collects at a time, the batches share out
  what the task sends, a call that waits for a first message that does not come stops every
  other, and what the check of \<open>consumed\<close> sees.
\<close>

section \<open>Runs from an idle table\<close>

definition one_collects :: "('z, 'r) worker list \<Rightarrow> ('z, 'r) hall \<Rightarrow> bool" where
  "one_collects ws h \<longleftrightarrow> (\<forall>i<length ws. collecting (code (ws ! i)) = (holder h = Some i))"

text \<open>
  On every channel, what the calls took, what the holder of the lock has collected and what is
  queued are together what was there at first and what the task sent.
\<close>

definition shared_out :: "(channel \<Rightarrow> 'r link) \<Rightarrow> event list \<Rightarrow> ('z, 'r) worker list \<Rightarrow> ('z, 'r) hall \<Rightarrow> bool" where
  "shared_out ls es ws h \<longleftrightarrow>
     (\<forall>c. foldl (haul c) [] es @ in_hand ws h c @ outq (links h c) = foldl (supplied c) (outq (ls c)) es)"

text \<open>
  The pool does not get on any more: the lock stays with the first worker, and no call that has no
  answer yet, or comes later, is answered.
\<close>

definition stalled :: "('z desk, 'r) call set \<Rightarrow> ('z, 'r) worker list \<Rightarrow> ('z, 'r) hall \<Rightarrow> bool" where
  "stalled K ws h \<longleftrightarrow>
     (\<forall>es ws' h'. runs K ws h es ws' h' \<longrightarrow> holder h' = Some 0 \<and>
        (\<forall>j<length ws'. has_answer (code (ws' ! j)) \<longrightarrow> j < length ws \<and> has_answer (code (ws ! j))))"

lemma idle_fields [simp]:
  "desk (idle n d ls) = d" "links (idle n d ls) = ls" "holder (idle n d ls) = None" "next_channel (idle n d ls) = n"
  by (simp_all add: idle_def)

lemma exclusive_idle: "exclusive [] (idle n d ls)"
  by (simp add: exclusive_def)

lemma placed_idle: "desk_below n d \<Longrightarrow> placed [] (idle n d ls)"
  by (simp add: placed_def)

text \<open>
  What a pool relies on of the calls that come to its table: they collect only with the lock, they
  begin by waiting for it, and they bring no channels but those they make.
\<close>

locale table_calls =
  fixes K :: "('z desk, 'r) call set"
  assumes collects_locked: "t \<in> K \<Longrightarrow> well_locked t False"
    and begins_locked: "t \<in> K \<Longrightarrow> before_lock t"
    and brings_none: "t \<in> K \<Longrightarrow> below t 0"
begin

lemma run_exclusive: "runs K [] (idle n d ls) es ws h \<Longrightarrow> exclusive ws h"
  using exclusive_runs exclusive_idle collects_locked by blast

lemma run_one_collects: "runs K [] (idle n d ls) es ws h \<Longrightarrow> one_collects ws h"
  using run_exclusive by (auto simp: exclusive_def one_collects_def)

lemma run_shares_out:
  assumes "runs K [] (idle n d ls) es ws h" and "desk_below n d"
  shows "shared_out ls es ws h"
  unfolding shared_out_def
  using runs_conserve [OF assms(1) exclusive_idle placed_idle [OF assms(2)]] collects_locked brings_none
  by (simp add: in_hand_free)

text \<open>In a frozen pool where the others wait or are done no call is answered any more.\<close>

lemma frozen_stalled:
  assumes "frozen 0 c ws h"
    and "\<And>j. 0 < j \<Longrightarrow> j < length ws \<Longrightarrow> at_lock (code (ws ! j)) \<or> has_answer (code (ws ! j))"
  shows "stalled K ws h"
  unfolding stalled_def
proof (intro allI impI conjI)
  fix es ws' h' assume run: "runs K ws h es ws' h'"
  have "\<forall>t\<in>K. well_locked t False \<and> before_lock t"
    using collects_locked begins_locked by blast
  note f = frozen_for_ever [OF run assms(1) this]
  then show "holder h' = Some 0" by (auto simp: frozen_def)
  fix j assume j: "j < length ws'" "has_answer (code (ws' ! j))"
  have "j \<noteq> 0" using f j by (auto simp: frozen_def)
  have "\<not> length ws \<le> j" using f j before_lock_unanswered by blast
  then show "j < length ws" by simp
  with assms(2) [of j] f \<open>j \<noteq> 0\<close> have "ws' ! j = ws ! j" by blast
  with j(2) show "has_answer (code (ws ! j))" by simp
qed

end

interpretation keygen_pool: table_calls "keygen_calls C D" for C D
  by unfold_locales (erule well_locked_calls before_lock_calls below_calls)+

interpretation recover_pool: table_calls "recover_calls C D" for C D
  by unfold_locales (erule well_locked_calls before_lock_calls below_calls)+

interpretation sign_pool: table_calls "sign_calls C D" for C D
  by unfold_locales (erule well_locked_calls before_lock_calls below_calls)+

section \<open>A later round up to its batch\<close>

text \<open>The lookup, the messages for the task and the second lookup, as every later round has them.\<close>

definition second_lookup ::
  "('z desk \<Rightarrow> ('z desk, 'r) call) \<Rightarrow> ('z desk \<Rightarrow> 'z desk) \<Rightarrow> string \<Rightarrow> channel \<Rightarrow> bool" where
  "second_lookup k g sid c \<longleftrightarrow>
     (\<forall>d s. seats d sid = Some s \<longrightarrow>
        (\<exists>k'. settle {Tx c} (k d) = \<lparr>holds = {Tx c}, stage = Enter, code = Collect_batch (at_channel s) c k'\<rparr>)
        \<and> at_channel s \<in> at_channel ` ran (seats (g d)) \<and> aborted (g d) = aborted d)"

definition reaches_batch ::
  "('z desk, 'r) call \<Rightarrow> string \<Rightarrow> 'z desk \<Rightarrow> channel \<Rightarrow> bytes list \<Rightarrow> bool" where
  "reaches_batch t sid d c msgs \<longleftrightarrow>
     (\<exists>k1 g1 k k2 g2. t = Section k1 g1 \<and> g1 d = d
        \<and> settle {} (k1 d) = settle {Tx c} (send_all c msgs k)
        \<and> settle {Tx c} (k (Inr ())) = \<lparr>holds = {Tx c}, stage = Enter, code = Section k2 g2\<rparr>
        \<and> second_lookup k2 g2 sid c)"

lemma reaches_batchI:
  "t = Section k1 g1 \<Longrightarrow> g1 d = d \<Longrightarrow> settle {} (k1 d) = settle {Tx c} (send_all c msgs k) \<Longrightarrow>
     settle {Tx c} (k (Inr ())) = \<lparr>holds = {Tx c}, stage = Enter, code = Section k2 g2\<rparr> \<Longrightarrow>
     second_lookup k2 g2 sid c \<Longrightarrow> reaches_batch t sid d c msgs"
  unfolding reaches_batch_def by blast

lemma returning_simps: "returning (Inl e) k = Answer (Inl e)" "returning (Inr v) k = k v"
  by (simp_all add: returning_def)

lemma second_lookups:
  "second_lookup (\<lambda>d. returning (ok_or (fst (find_seat sid d)) e) (\<lambda>seat. Collect_batch (at_channel seat) c k))
     (\<lambda>d. snd (find_seat sid d)) sid c"
  "second_lookup (\<lambda>d. returning (ok_or (fst (mark_consumed v sid d)) e) (\<lambda>seat. Collect_batch (at_channel seat) c k'))
     (\<lambda>d. snd (mark_consumed v sid d)) sid c"
proof -
  have "at_channel s \<in> at_channel ` ran ((seats d)(sid \<mapsto> s\<lparr>at_consumed := v\<rparr>))" for s d
    using seat_here [of "d\<lparr>seats := (seats d)(sid \<mapsto> s\<lparr>at_consumed := v\<rparr>)\<rparr>" sid "s\<lparr>at_consumed := v\<rparr>"] by simp
  then show "second_lookup (\<lambda>d. returning (ok_or (fst (mark_consumed v sid d)) e)
       (\<lambda>seat. Collect_batch (at_channel seat) c k')) (\<lambda>d. snd (mark_consumed v sid d)) sid c"
    by (auto simp: second_lookup_def mark_consumed_def returning_simps)
qed (auto simp: second_lookup_def find_seat_def returning_simps intro: seat_here)

lemma reaching_calls:
  assumes p: "parse_server_envelope_batch C p = Inr (env, msgs)"
  shows "seats dk sid = Some ks \<Longrightarrow> reaches_batch (keygen_advance_call C D sid p) sid dk (at_channel ks) msgs"
    and "seats dr sid = Some rs \<Longrightarrow> elapsed (cc_now x) (at_created rs) \<le> SESSION_TTL \<Longrightarrow>
           reaches_batch (recover_advance_call C D x sid p) sid dr (at_channel rs) msgs"
    and "seats ds sid = Some ss \<Longrightarrow> \<not> at_consumed ss \<Longrightarrow>
           reaches_batch (sign_advance_call C sid p) sid ds (at_channel ss) msgs"
proof -
  show "reaches_batch (keygen_advance_call C D sid p) sid dk (at_channel ks) msgs" if "seats dk sid = Some ks"
    unfolding keygen_advance_call_def
    by (subst under_lock_def, rule reaches_batchI, rule refl, simp add: find_seat_def,
        simp add: find_seat_def [of sid dk] that p returning_simps,
        simp add: returning_simps under_lock_def, rule second_lookups)
  show "reaches_batch (recover_advance_call C D x sid p) sid dr (at_channel rs) msgs"
    if "seats dr sid = Some rs" "elapsed (cc_now x) (at_created rs) \<le> SESSION_TTL"
    unfolding recover_advance_call_def
    by (subst under_lock_def, rule reaches_batchI, rule refl,
        simp add: find_live_seat_def that(1) leD [OF that(2)],
        simp add: find_live_seat_def that(1) leD [OF that(2)] p returning_simps,
        simp add: returning_simps under_lock_def, rule second_lookups)
  show "reaches_batch (sign_advance_call C sid p) sid ds (at_channel ss) msgs"
    if "seats ds sid = Some ss" "\<not> at_consumed ss"
    unfolding sign_advance_call_def
    by (subst under_lock_def, rule reaches_batchI, rule refl, simp add: find_unconsumed_def that,
        simp add: find_unconsumed_def that p returning_simps,
        simp add: returning_simps under_lock_def, rule second_lookups)
qed

text \<open>A worker sends all its messages while there is room for them, and nobody else moves.\<close>

lemma runs_send_all:
  "i < length ws \<Longrightarrow> ws ! i = settle {Tx c} (send_all c ms k) \<Longrightarrow>
     \<not> task_done (prog (links h c)) \<Longrightarrow> length (inq (links h c)) + length ms \<le> in_capacity \<Longrightarrow>
     \<exists>es h'. runs K ws h es (ws[i := settle {Tx c} (k (Inr ()))]) h'
        \<and> desk h' = desk h \<and> holder h' = holder h \<and> next_channel h' = next_channel h
        \<and> prog (links h' c) = prog (links h c) \<and> inq (links h' c) = inq (links h c) @ ms
        \<and> outq (links h' c) = outq (links h c)"
proof (induction ms arbitrary: ws h)
  case Nil
  then have "ws[i := settle {Tx c} (k (Inr ()))] = ws" by (simp add: list_update_same_conv)
  then show ?case by (auto intro: Runs_nil)
next
  case (Cons m ms)
  let ?w = "settle {Tx c} (send_all c ms k)"
  let ?l = "link_at ws h c"
  let ?h = "set_link c (?l\<lparr>inq := inq ?l @ [m]\<rparr>) h"
  have "step ws h Silent (ws[i := ?w]) ?h"
    using Move_send [of i ws c m "\<lambda>taken. if taken then send_all c ms k
        else k (Inl (Wrap ''failed to inject message'' ''channel closed''))" ?l h] Cons.prems by simp
  note first = Runs_step [OF Runs_nil [of K] this]
  have "\<exists>es h'. runs K (ws[i := ?w]) ?h es ((ws[i := ?w])[i := settle {Tx c} (k (Inr ()))]) h'
      \<and> desk h' = desk ?h \<and> holder h' = holder ?h \<and> next_channel h' = next_channel ?h
      \<and> prog (links h' c) = prog (links ?h c) \<and> inq (links h' c) = inq (links ?h c) @ ms
      \<and> outq (links h' c) = outq (links ?h c)"
    by (rule Cons.IH) (use Cons.prems in simp_all)
  then obtain es h' where "runs K (ws[i := ?w]) ?h es (ws[i := settle {Tx c} (k (Inr ()))]) h'"
    "desk h' = desk h" "holder h' = holder h" "next_channel h' = next_channel h"
    "prog (links h' c) = prog (links h c)" "inq (links h' c) = inq (links h c) @ m # ms"
    "outq (links h' c) = outq (links h c)" by auto
  with runs_trans [OF _ first] show ?case by blast
qed

text \<open>Room for the messages in the channel of a task that is not done.\<close>

definition room :: "(channel \<Rightarrow> 'r link) \<Rightarrow> channel \<Rightarrow> bytes list \<Rightarrow> bool" where
  "room ls c msgs \<longleftrightarrow> \<not> task_done (prog (ls c)) \<and> length (inq (ls c)) + length msgs \<le> in_capacity"

text \<open>A later round, from its lookup to the second lock.\<close>

lemma later_injects:
  assumes "reaches_batch t sid (desk h) c msgs" and "t \<in> K" and "holder h = None" and "room (links h) c msgs"
  shows "\<exists>es h' k g. runs K ws h es (ws @ [\<lparr>holds = {Tx c}, stage = Enter, code = Section k g\<rparr>]) h'
    \<and> second_lookup k g sid c \<and> desk h' = desk h \<and> holder h' = None \<and> next_channel h' = next_channel h
    \<and> prog (links h' c) = prog (links h c) \<and> inq (links h' c) = inq (links h c) @ msgs
    \<and> outq (links h' c) = outq (links h c)"
proof -
  let ?n = "length ws"
  obtain k1 g1 k k2 g2 where t: "t = Section k1 g1" "g1 (desk h) = desk h"
    "settle {} (k1 (desk h)) = settle {Tx c} (send_all c msgs k)"
    "settle {Tx c} (k (Inr ())) = \<lparr>holds = {Tx c}, stage = Enter, code = Section k2 g2\<rparr>"
    "second_lookup k2 g2 sid c"
    using assms(1) by (auto simp: reaches_batch_def)
  let ?w = "settle {Tx c} (send_all c msgs k) :: ('a, 'b) worker"
  have called: "runs K ws h [] (ws @ [settle {} t]) h"
    by (rule Runs_call [OF Runs_nil assms(2)])
  have free: "\<not> collecting (code ?w)"
    by (cases msgs) (use t(4) in simp_all)
  have same: "h\<lparr>desk := g1 (desk h), holder := if collecting (code ?w) then Some ?n else None\<rparr> = h"
    using t(2) free assms(3) by (cases h) simp
  have "step (ws @ [settle {} t]) h Silent ((ws @ [settle {} t])[?n := ?w])
      (h\<lparr>desk := g1 (desk h), holder := if collecting (code ?w) then Some ?n else None\<rparr>)"
    by (rule Move_section [where k = k1 and g = g1]) (simp_all add: t(1,3) assms(3))
  then have "step (ws @ [settle {} t]) h Silent (ws @ [?w]) h"
    unfolding same by simp
  with called have looked: "runs K ws h ([] @ [Silent]) (ws @ [?w]) h"
    by (rule Runs_step)
  obtain es h' where sent: "runs K (ws @ [?w]) h es ((ws @ [?w])[?n := settle {Tx c} (k (Inr ()))]) h'"
    and h': "desk h' = desk h" "holder h' = holder h" "next_channel h' = next_channel h"
    "prog (links h' c) = prog (links h c)" "inq (links h' c) = inq (links h c) @ msgs"
    "outq (links h' c) = outq (links h c)"
    using runs_send_all [of ?n "ws @ [?w]" c msgs k h K] assms(4) by (auto simp: room_def)
  from runs_trans [OF sent looked]
  have "runs K ws h (([] @ [Silent]) @ es) (ws @ [settle {Tx c} (k (Inr ()))]) h'" by simp
  with h' assms(3) t(4,5) show ?thesis by metis
qed

section \<open>A table that is held for ever\<close>

text \<open>A task that waits for input, with nothing in its channels either way.\<close>

definition quiet :: "'r link \<Rightarrow> bool" where
  "quiet l \<longleftrightarrow> awaiting (prog l) \<and> inq l = [] \<and> outq l = []"

text \<open>A call that gets the lock when the task of the session has nothing to say stays there.\<close>

lemma batch_frozen:
  assumes "0 < length ws" and "ws ! 0 = \<lparr>holds = {Tx c}, stage = Enter, code = Section k g\<rparr>"
    and "second_lookup k g sid c" and "seats (desk h) sid = Some s" and "quiet (links h (at_channel s))"
    and "at_channel s \<notin> aborted (desk h)" and "at_channel s < next_channel h" and "holder h = None"
    and "exclusive ws h" and others: "\<And>j. 0 < j \<Longrightarrow> j < length ws \<Longrightarrow> has_answer (code (ws ! j))"
  shows "\<exists>w h'. step ws h Silent (ws[0 := w]) h' \<and> frozen 0 (at_channel s) (ws[0 := w]) h' \<and> \<not> has_answer (code w)"
proof -
  let ?c = "at_channel s"
  obtain k' where k': "settle {Tx c} (k (desk h)) = \<lparr>holds = {Tx c}, stage = Enter, code = Collect_batch ?c c k'\<rparr>"
    and g: "?c \<in> at_channel ` ran (seats (g (desk h)))" "aborted (g (desk h)) = aborted (desk h)"
    using assms(3,4) unfolding second_lookup_def by blast
  let ?w = "\<lparr>holds = {Tx c}, stage = Enter, code = Collect_batch ?c c k'\<rparr>"
  let ?h = "h\<lparr>desk := g (desk h), holder := Some 0\<rparr>"
  have step: "step ws h Silent (ws[0 := ?w]) ?h"
    using Move_section [of 0 ws k g h ?w] assms(1,2,8) k' by simp
  have "hushed ?c (code (ws ! j))" if "0 < j" "j < length ws" for j
    using others [OF that] by (cases "code (ws ! j)") simp_all
  with exclusive_step [OF step assms(9)] assms(1,5,6,7) g have "frozen 0 ?c (ws[0 := ?w]) ?h"
    by (simp add: frozen_def quiet_def stuck_fields nth_list_update)
  with step show ?thesis by (intro exI [of _ ?w] exI [of _ ?h]) simp
qed

text \<open>
  The calls \<open>ts\<close> bring the idle table to a state in which the first of them never gets its answer,
  nor does any call that comes later; the others of them have theirs.
\<close>

definition freezes ::
  "('z desk, 'r) call set \<Rightarrow> ('z desk, 'r) call list \<Rightarrow> channel \<Rightarrow> 'z desk \<Rightarrow> (channel \<Rightarrow> 'r link) \<Rightarrow> bool" where
  "freezes K ts n d ls \<longleftrightarrow>
     (\<exists>es ws h. runs (set ts) [] (idle n d ls) es ws h \<and> length ws = length ts \<and> stalled K ws h
        \<and> (\<forall>j<length ws. has_answer (code (ws ! j)) \<longleftrightarrow> j \<noteq> 0))"

text \<open>A session whose task waits for input; one whose task takes these messages.\<close>

definition waits_quietly ::
  "channel \<Rightarrow> 'z desk \<Rightarrow> (channel \<Rightarrow> 'r link) \<Rightarrow> string \<Rightarrow> 'z seat_scheme \<Rightarrow> bool" where
  "waits_quietly n d ls sid s \<longleftrightarrow>
     desk_below n d \<and> seats d sid = Some s \<and> quiet (ls (at_channel s)) \<and> at_channel s \<notin> aborted d"

definition takes_messages ::
  "channel \<Rightarrow> 'z desk \<Rightarrow> (channel \<Rightarrow> 'r link) \<Rightarrow> string \<Rightarrow> 'z seat_scheme \<Rightarrow> bytes list \<Rightarrow> bool" where
  "takes_messages n d ls sid s msgs \<longleftrightarrow> desk_below n d \<and> seats d sid = Some s \<and> room ls (at_channel s) msgs"

text \<open>A first round that opens a session whose task waits for input.\<close>

definition opens_quietly :: "string \<Rightarrow> ('z desk, 'r) call \<Rightarrow> bool" where
  "opens_quietly sid t \<longleftrightarrow>
     (\<exists>l seat r. t = open_call l sid seat r \<and> quiet l \<and> (\<forall>c. at_channel (seat c) = c))"

context table_calls begin

lemma freezesI:
  assumes "runs (set ts) [] (idle n d ls) es ws h" and "set ts \<subseteq> K" and "length ws = length ts"
    and "0 < length ws" and "ws ! 0 = \<lparr>holds = {Tx c}, stage = Enter, code = Section k g\<rparr>"
    and "second_lookup k g sid c" and "seats (desk h) sid = Some s" and "quiet (links h (at_channel s))"
    and "at_channel s \<notin> aborted (desk h)" and "at_channel s < next_channel h" and "holder h = None"
    and others: "\<And>j. 0 < j \<Longrightarrow> j < length ws \<Longrightarrow> has_answer (code (ws ! j))"
  shows "freezes K ts n d ls"
proof -
  have "exclusive ws h" using exclusive_runs [OF assms(1) exclusive_idle] collects_locked assms(2) by blast
  from batch_frozen [OF assms(4-11) this others] obtain w h' where
    step: "step ws h Silent (ws[0 := w]) h'" and f: "frozen 0 (at_channel s) (ws[0 := w]) h'" "\<not> has_answer (code w)"
    by blast
  have "stalled K (ws[0 := w]) h'"
    using others by (intro frozen_stalled [OF f(1)]) simp
  with Runs_step [OF assms(1) step] assms(3,4) f(2) others show ?thesis
    unfolding freezes_def by (intro exI conjI) (auto simp: nth_list_update split: if_splits)
qed

text \<open>A later round with nothing in its envelope, for a session whose task waits.\<close>

lemma empty_freezes:
  assumes "t \<in> K" and "reaches_batch t sid d (at_channel s) []" and q: "waits_quietly n d ls sid s"
  shows "freezes K [t] n d ls"
proof -
  have "room ls (at_channel s) []"
    using q by (cases "prog (ls (at_channel s))") (simp_all add: room_def waits_quietly_def quiet_def in_capacity_def)
  then obtain es h k g where
    "runs {t} [] (idle n d ls) es ([] @ [\<lparr>holds = {Tx (at_channel s)}, stage = Enter, code = Section k g\<rparr>]) h"
    "second_lookup k g sid (at_channel s)" "desk h = d" "holder h = None" "next_channel h = n"
    "prog (links h (at_channel s)) = prog (ls (at_channel s))"
    "inq (links h (at_channel s)) = inq (ls (at_channel s)) @ []"
    "outq (links h (at_channel s)) = outq (ls (at_channel s))"
    using later_injects [of t sid "idle n d ls" "at_channel s" "[]" "{t}" "[]"] assms(2) by auto
  with assms show ?thesis
    by (intro freezesI [where ts = "[t]" and sid = sid and s = s])
       (auto simp: quiet_def waits_quietly_def desk_below_def)
qed

text \<open>A later round whose session is replaced before it comes to its batch.\<close>

lemma replaced_freezes:
  assumes "t \<in> K" and "reaches_batch t sid d (at_channel s) msgs" and "takes_messages n d ls sid s msgs"
    and "t' \<in> K" and "opens_quietly sid t'"
  shows "freezes K [t, t'] n d ls"
proof -
  obtain l seat r where t': "t' = open_call l sid seat r" "quiet l" "\<And>c. at_channel (seat c) = c"
    using assms(5) by (auto simp: opens_quietly_def)
  let ?c = "at_channel s"
  let ?K = "set [t, t']"
  obtain es h k g where
    run: "runs ?K [] (idle n d ls) es ([] @ [\<lparr>holds = {Tx ?c}, stage = Enter, code = Section k g\<rparr>]) h"
    and sl: "second_lookup k g sid ?c" and h: "desk h = d" "holder h = None" "next_channel h = n"
    using later_injects [of t sid "idle n d ls" ?c msgs ?K "[]"] assms(2,3)
    by (auto simp: takes_messages_def)
  let ?w = "\<lparr>holds = {Tx ?c}, stage = Enter, code = Section k g\<rparr> :: ('z, 'r) worker"
  let ?v = "\<lparr>holds = {Tx n, Rx n}, stage = Enter, code = under_lock (put_seat sid (seat n)) (\<lambda>_. Answer r)\<rparr>
      :: ('z, 'r) worker"
  let ?h = "(set_link n l h)\<lparr>next_channel := Suc n\<rparr>"
  let ?e = "?h\<lparr>desk := snd (put_seat sid (seat n) d), holder := None\<rparr>"
  have "runs ?K [] (idle n d ls) es [?w, settle {} t'] h"
    using Runs_call [OF run, of t'] by simp
  moreover have "step [?w, settle {} t'] h (Opened n (outq l)) [?w, ?v] ?h"
    using Move_spawn [of 1 "[?w, settle {} t']" l _ n h] h(3) t'(1)
    by (simp add: open_call_def under_lock_def insert_commute)
  moreover have "step [?w, ?v] ?h Silent [?w, settle {} (Answer r)] ?e"
    using Move_section [of 1 "[?w, ?v]" _ _ ?h "settle {} (Answer r)"] h(1,2)
    by (simp add: under_lock_def)
  ultimately have "runs ?K [] (idle n d ls) ((es @ [Opened n (outq l)]) @ [Silent]) [?w, settle {} (Answer r)] ?e"
    by (intro Runs_step)
  moreover have "n \<notin> aborted d" using assms(3) by (auto simp: takes_messages_def desk_below_def)
  ultimately show ?thesis
    using assms(1,4) t'(2,3) sl
    by (intro freezesI [where ts = "[t, t']" and sid = sid and s = "seat n"])
       (auto simp: put_seat_def less_Suc_eq)
qed

end

section \<open>Properties\<close>

text \<open>
  Property C10: calls that overlap share out what a task sends. Along every run of first rounds,
  later rounds and collect mode that starts with an idle table, a call waits for its batch with the
  lock exactly when it has it, so no two calls collect at once; and on every channel the batches
  the calls took, one after the other, then what the holder of the lock has collected so far, then
  what is still queued, are together what was queued when the channel was made, or at the start,
  and what the task sent since, in order: nothing is lost, repeated or handed to two calls.
\<close>

theorem overlapping_batches:
  assumes "desk_below n dk" and "desk_below n dr" and "desk_below n ds"
  shows "(runs (keygen_calls C D) [] (idle n dk lk) ek wk hk \<longrightarrow> one_collects wk hk \<and> shared_out lk ek wk hk)
   \<and> (runs (recover_calls C D) [] (idle n dr lr) er wr hr \<longrightarrow> one_collects wr hr \<and> shared_out lr er wr hr)
   \<and> (runs (sign_calls C D) [] (idle n ds ls) es ws hs \<longrightarrow> one_collects ws hs \<and> shared_out ls es ws hs)"
  using assms
  by (blast intro: keygen_pool.run_one_collects recover_pool.run_one_collects sign_pool.run_one_collects
      keygen_pool.run_shares_out recover_pool.run_shares_out sign_pool.run_shares_out)

theorem overlapping_batches_witness:
  "\<exists>es w h. runs (keygen_calls ex_codecs ex_dkls) [] (idle 1 ex_keygen_desk (\<lambda>_. new_link (ex_run [1] ex_ks))) es [w] h
     \<and> has_answer (code w) \<and> foldl (haul 0) [] es @ outq (links h 0) = foldl (supplied 0) [] es"
proof -
  let ?ls = "\<lambda>_ :: channel. new_link (ex_run [1] ex_ks)"
  obtain p r d' ls' where a: "alone (keygen_advance_call ex_codecs ex_dkls ''k'' p) {} ex_schedule ex_keygen_desk
      ?ls = Some (Inr r, d', ls')"
    by (rule ex_round_alone)
  let ?t = "keygen_advance_call ex_codecs ex_dkls ''k'' p" and ?K = "keygen_calls ex_codecs ex_dkls"
  let ?w = "settle {} (Answer (Inr r))"
  note below = ex_desks_below
  obtain es where "runs ?K [settle {} ?t] (idle 1 ex_keygen_desk ?ls) es [?w] (idle 1 d' ls')"
    using alone_runs [OF a well_locked_advance(1) below_advance(1) below(1), of ?K]
      settle_collecting [OF well_locked_advance(1)]
    by (auto simp: idle_def)
  moreover have "runs ?K [] (idle 1 ex_keygen_desk ?ls) [] ([] @ [settle {} ?t]) (idle 1 ex_keygen_desk ?ls)"
    by (rule Runs_call [OF Runs_nil calls_members(1)])
  ultimately have run: "runs ?K [] (idle 1 ex_keygen_desk ?ls) es [?w] (idle 1 d' ls')"
    using runs_trans by fastforce
  with overlapping_batches [OF below, of ex_codecs ex_dkls ?ls es "[?w]" "idle 1 d' ls'"]
  have "shared_out ?ls es [?w] (idle 1 d' ls')" by blast
  then have "foldl (haul 0) [] es @ outq (links (idle 1 d' ls') 0) = foldl (supplied 0) [] es"
    unfolding shared_out_def by (auto simp: in_hand_free new_link_def dest: spec [of _ 0])
  with run show ?thesis by (intro exI conjI) auto
qed

text \<open>Example sessions that wait, and a first round that opens one.\<close>

lemma quiet_waiting: "quiet ex_waiting"
  by (simp add: quiet_def ex_waiting_def new_link_def)

lemma ex_quietly:
  obtains k r s where
    "waits_quietly 1 ex_keygen_desk (\<lambda>_. ex_waiting :: bytes link) ''k'' k"
    "waits_quietly 1 ex_recovery_desk (\<lambda>_. ex_waiting :: bytes link) ''r'' r"
    "elapsed (cc_now (ex_ctx [])) (at_created r) \<le> SESSION_TTL"
    "waits_quietly 1 ex_sign_desk (\<lambda>_. ex_waiting :: (bytes \<times> byte) link) ''s'' s" "\<not> at_consumed s"
proof -
  have "\<exists>k. waits_quietly 1 ex_keygen_desk (\<lambda>_. ex_waiting :: bytes link) ''k'' k"
    "\<exists>r. waits_quietly 1 ex_recovery_desk (\<lambda>_. ex_waiting :: bytes link) ''r'' r
       \<and> elapsed (cc_now (ex_ctx [])) (at_created r) \<le> SESSION_TTL"
    "\<exists>s. waits_quietly 1 ex_sign_desk (\<lambda>_. ex_waiting :: (bytes \<times> byte) link) ''s'' s \<and> \<not> at_consumed s"
    by (simp_all add: waits_quietly_def quiet_waiting ex_desks desk_below_def elapsed_def ex_ctx_def)
  then show thesis using that by blast
qed

lemma ex_takes:
  obtains d :: sign_desk and s where
    "takes_messages 1 d (\<lambda>_. ex_waiting :: (bytes \<times> byte) link) sid s [[9]]" "\<not> at_consumed s"
proof -
  obtain s where s: "seats ex_sign_desk ''s'' = Some s" "\<not> at_consumed s" "at_channel s = 0"
    by (simp add: ex_sign_desk_def)
  have "takes_messages 1 \<lparr>seats = Map.empty(sid \<mapsto> s), aborted = {}\<rparr> (\<lambda>_. ex_waiting :: (bytes \<times> byte) link) sid s [[9]]"
    using s(3) by (simp add: takes_messages_def desk_below_def room_def ex_waiting_def new_link_def in_capacity_def)
  then show thesis using s(2) by (rule that)
qed

lemma ex_opens:
  obtains sid t where "t \<in> sign_first_calls ex_codecs ex_dkls" "opens_quietly sid t"
proof -
  let ?sid = "hex_encode ex_codecs (replicate 32 1)" and ?mh = "hex_encode ex_codecs (replicate 32 2)"
  obtain p env where p: "parse_server_envelope_batch ex_codecs p = Inr (env, [[9]])"
    using ex_server_envelope by blast
  obtain e where e: "from_slice ex_codecs dec_share_envelope ex_ks = Inl e"
    using ex_not_envelope by blast
  have lib: "keyshare_from_bytes ex_dkls ex_ks = Some (Keyshare ex_ks)"
    "parse_derivation_path ex_dkls ''m'' = Inr (DerivationPath ''m'')"
    "sign_run ex_dkls su seed = ex_run [3] (EcdsaSignature (replicate 64 4), RecoveryId [1])"
    "exported_keys init_engine = {}" "cc_schedule (ex_ctx sch) = sch" for su seed sch
    by (simp_all add: ex_dkls_def init_engine_def ex_ctx_def)
  obtain r s where first: "sign_round1 ex_codecs ex_dkls (ex_ctx ex_schedule) ?sid p
       (Some (b64_encode ex_codecs ex_ks)) (Some ?mh) init_engine =
       Some (r, insert_sign_session ?sid s init_engine)" and q: "quiet (ss_link s)"
    using p e
    by (simp add: sign_round1_def sign_prepare_def message_digest_from_hex_def codec_simps ex_laws
          try_into_array_def share_envelope_decode_def lib instance_id_from_session_def ex_exchange_new quiet_def)
  let ?t = "open_call (ss_link s) ?sid (\<lambda>c. \<lparr>at_channel = c, at_has_task = ss_has_task s,
       at_digest = ss_digest s, at_consumed = ss_consumed s, at_public_key_hex = ss_public_key_hex s\<rparr>) r"
  have "sign_sessions init_engine ?sid = None" by (simp add: init_engine_def)
  with first have "?t \<in> sign_first_calls ex_codecs ex_dkls"
    unfolding sign_first_calls_def by blast
  moreover have "opens_quietly ?sid ?t"
    unfolding opens_quietly_def using q by (intro exI conjI) (rule refl, simp_all)
  ultimately show thesis by (rule that)
qed

text \<open>
  Property C4: one call with nothing in its envelope can stop a table for good. If the task of a
  session waits for input, nothing of it is queued either way, and a later round comes with an
  empty list of payloads, then the idle table comes to a state from which no keygen, no
  recover, no sign call respectively, of whatever session and round, is ever answered: the call
  never gets its batch, and it never lets the lock go.
\<close>

theorem empty_batch_freezes_table:
  assumes "parse_server_envelope_batch C p = Inr (env, [])"
    and "waits_quietly n dk lk k ks"
    and "waits_quietly n dr lr r rs" and "elapsed (cc_now x) (at_created rs) \<le> SESSION_TTL"
    and "waits_quietly n ds ls s ss" and "\<not> at_consumed ss"
  shows "freezes (keygen_calls C D) [keygen_advance_call C D k p] n dk lk
         \<and> freezes (recover_calls C D) [recover_advance_call C D x r p] n dr lr
         \<and> freezes (sign_calls C D) [sign_advance_call C s p] n ds ls"
  using assms(2-6) reaching_calls [OF assms(1)]
  by (auto simp: waits_quietly_def
      intro!: keygen_pool.empty_freezes [where sid = k and s = ks] recover_pool.empty_freezes [where sid = r and s = rs]
        sign_pool.empty_freezes [where sid = s and s = ss] calls_members)

theorem empty_batch_freezes_table_witness:
  "\<exists>p. freezes (sign_calls ex_codecs ex_dkls) [sign_advance_call ex_codecs ''s'' p] 1 ex_sign_desk (\<lambda>_. ex_waiting)"
proof -
  obtain p env where p: "parse_server_envelope_batch ex_codecs p = Inr (env, [])"
    using ex_server_envelope by blast
  obtain k r s where
    "waits_quietly 1 ex_keygen_desk (\<lambda>_. ex_waiting :: bytes link) ''k'' k"
    "waits_quietly 1 ex_recovery_desk (\<lambda>_. ex_waiting :: bytes link) ''r'' r"
    "elapsed (cc_now (ex_ctx [])) (at_created r) \<le> SESSION_TTL"
    "waits_quietly 1 ex_sign_desk (\<lambda>_. ex_waiting :: (bytes \<times> byte) link) ''s'' s" "\<not> at_consumed s"
    by (rule ex_quietly)
  from empty_batch_freezes_table [OF p this] show ?thesis by blast
qed

text \<open>
  Property C5: a first round that comes between the lookup and the batch of a later round of the
  same session can stop a table for good. The later round has given its messages to the old
  task; if the first round then puts a new session under the same id into the table, whose task
  waits for input, the later round waits for the new task, which nobody can give anything to any
  more: the first round is answered, the later round is not, nor is any call that comes after.
\<close>

theorem replaced_session_freezes_table:
  assumes "parse_server_envelope_batch C p = Inr (env, msgs)"
  shows "(takes_messages n dk lk sid ks msgs \<longrightarrow> t \<in> keygen_first_calls C D \<longrightarrow> opens_quietly sid t \<longrightarrow>
            freezes (keygen_calls C D) [keygen_advance_call C D sid p, t] n dk lk)
       \<and> (takes_messages n dr lr sid rs msgs \<longrightarrow> elapsed (cc_now x) (at_created rs) \<le> SESSION_TTL \<longrightarrow>
            u \<in> recover_first_calls C D \<longrightarrow> opens_quietly sid u \<longrightarrow>
            freezes (recover_calls C D) [recover_advance_call C D x sid p, u] n dr lr)
       \<and> (takes_messages n ds ls sid ss msgs \<longrightarrow> \<not> at_consumed ss \<longrightarrow>
            v \<in> sign_first_calls C D \<longrightarrow> opens_quietly sid v \<longrightarrow>
            freezes (sign_calls C D) [sign_advance_call C sid p, v] n ds ls)"
proof (intro conjI impI)
  assume "takes_messages n dk lk sid ks msgs" "t \<in> keygen_first_calls C D" "opens_quietly sid t"
  moreover from this have "t \<in> keygen_calls C D" "reaches_batch (keygen_advance_call C D sid p) sid dk (at_channel ks) msgs"
    using reaching_calls(1) [OF assms] by (simp_all add: keygen_calls_def takes_messages_def)
  ultimately show "freezes (keygen_calls C D) [keygen_advance_call C D sid p, t] n dk lk"
    by (intro keygen_pool.replaced_freezes calls_members)
next
  assume "takes_messages n dr lr sid rs msgs" "elapsed (cc_now x) (at_created rs) \<le> SESSION_TTL"
    "u \<in> recover_first_calls C D" "opens_quietly sid u"
  moreover from this have "u \<in> recover_calls C D" "reaches_batch (recover_advance_call C D x sid p) sid dr (at_channel rs) msgs"
    using reaching_calls(2) [OF assms] by (simp_all add: recover_calls_def takes_messages_def)
  ultimately show "freezes (recover_calls C D) [recover_advance_call C D x sid p, u] n dr lr"
    by (intro recover_pool.replaced_freezes calls_members)
next
  assume "takes_messages n ds ls sid ss msgs" "\<not> at_consumed ss" "v \<in> sign_first_calls C D" "opens_quietly sid v"
  moreover from this have "v \<in> sign_calls C D" "reaches_batch (sign_advance_call C sid p) sid ds (at_channel ss) msgs"
    using reaching_calls(3) [OF assms] by (simp_all add: sign_calls_def takes_messages_def)
  ultimately show "freezes (sign_calls C D) [sign_advance_call C sid p, v] n ds ls"
    by (intro sign_pool.replaced_freezes calls_members)
qed

theorem replaced_session_freezes_table_witness:
  "\<exists>sid p t d. t \<in> sign_first_calls ex_codecs ex_dkls \<and> seats d sid \<noteq> None
     \<and> freezes (sign_calls ex_codecs ex_dkls) [sign_advance_call ex_codecs sid p, t] 1 d (\<lambda>_. ex_waiting)"
proof -
  obtain sid t where t: "t \<in> sign_first_calls ex_codecs ex_dkls" "opens_quietly sid t"
    by (rule ex_opens)
  obtain p env where p: "parse_server_envelope_batch ex_codecs p = Inr (env, [[9]])"
    using ex_server_envelope by blast
  obtain d :: sign_desk and s where d: "takes_messages 1 d (\<lambda>_. ex_waiting :: (bytes \<times> byte) link) sid s [[9]]" "\<not> at_consumed s"
    by (rule ex_takes [of sid])
  have "freezes (sign_calls ex_codecs ex_dkls) [sign_advance_call ex_codecs sid p, t] 1 d (\<lambda>_. ex_waiting)"
    using replaced_session_freezes_table [OF p, THEN conjunct2, THEN conjunct2, rule_format, OF d t] .
  with t(1) d(1) show ?thesis unfolding takes_messages_def by blast
qed

text \<open>
  Property C9: the check of \<open>consumed\<close> does not keep a second round 2 out while the first is under
  way. Two sign calls for the same session, with the same envelope or with two, both pass the
  check if neither has come to its batch; the task is then given the messages of both, and both
  wait for the lock. It takes no more than room for the messages in the channel.
\<close>

theorem replays_overlap:
  assumes "parse_server_envelope_batch C p = Inr (env, msgs)" and "parse_server_envelope_batch C p' = Inr (env', msgs')"
    and "seats d sid = Some s" and "\<not> at_consumed s" and "room ls (at_channel s) (msgs @ msgs')"
  shows "\<exists>es w w' h. runs {sign_advance_call C sid p, sign_advance_call C sid p'} [] (idle n d ls) es [w, w'] h
    \<and> inq (links h (at_channel s)) = inq (ls (at_channel s)) @ msgs @ msgs'
    \<and> at_lock (code w) \<and> at_lock (code w') \<and> seats (desk h) sid = Some s"
proof -
  let ?c = "at_channel s" and ?K = "{sign_advance_call C sid p, sign_advance_call C sid p'}"
  note reach = reaching_calls(3) [OF assms(1,3,4)] reaching_calls(3) [OF assms(2,3,4)]
  have "room (links (idle n d ls)) ?c msgs" using assms(5) by (simp add: room_def)
  then obtain es h w where first: "runs ?K [] (idle n d ls) es [w] h" "at_lock (code w)" "desk h = d" "holder h = None"
    "prog (links h ?c) = prog (ls ?c)" "inq (links h ?c) = inq (ls ?c) @ msgs"
    using later_injects [of "sign_advance_call C sid p" sid "idle n d ls" ?c msgs ?K "[]"] reach(1) by auto
  have "room (links h) ?c msgs'" using assms(5) first(5,6) by (simp add: room_def)
  then obtain es' h' w' where "runs ?K [w] h es' ([w] @ [w']) h'" "at_lock (code w')" "desk h' = d"
    "inq (links h' ?c) = inq (links h ?c) @ msgs'"
    using later_injects [of "sign_advance_call C sid p'" sid h ?c msgs' ?K "[w]"] reach(2) first(3,4) by auto
  with runs_trans [OF _ first(1)] first assms(3) show ?thesis
    by (metis append_Cons append_Nil append_assoc)
qed

theorem replays_overlap_witness:
  "\<exists>p es w w' h. runs {sign_advance_call ex_codecs ''s'' p} [] (idle 1 ex_sign_desk (\<lambda>_. ex_waiting)) es [w, w'] h
     \<and> inq (links h 0) = [[9], [9]]"
proof -
  obtain p env where p: "parse_server_envelope_batch ex_codecs p = Inr (env, [[9]])"
    using ex_server_envelope by blast
  obtain s where s: "seats ex_sign_desk ''s'' = Some s" "\<not> at_consumed s" "at_channel s = 0"
    by (simp add: ex_sign_desk_def)
  have "room (\<lambda>_. ex_waiting :: (bytes \<times> byte) link) (at_channel s) ([[9]] @ [[9]])"
    by (simp add: room_def ex_waiting_def new_link_def in_capacity_def)
  from replays_overlap [OF p p s(1,2) this, of 1] s(3)
  obtain es w w' h where "runs {sign_advance_call ex_codecs ''s'' p} [] (idle 1 ex_sign_desk (\<lambda>_. ex_waiting)) es [w, w'] h"
    "inq (links h 0) = inq (ex_waiting :: (bytes \<times> byte) link) @ [[9]] @ [[9]]" by auto
  then show ?thesis by (intro exI conjI) (assumption, simp add: ex_waiting_def new_link_def)
qed

subsection \<open>When \<open>consumed\<close> is seen\<close>

definition consumed_in :: "sign_desk \<Rightarrow> string \<Rightarrow> bool" where
  "consumed_in d sid \<longleftrightarrow> (\<exists>s. seats d sid = Some s \<and> at_consumed s)"

text \<open>What the call does next with the table leaves the session unconsumed, or takes it out.\<close>

primrec clears :: "string \<Rightarrow> (sign_desk, 'r) call \<Rightarrow> bool" where
  "clears sid (Answer r) = False"
| "clears sid (Section k g) = (\<forall>d. \<not> consumed_in (g d) sid)"
| "clears sid (Holding e t) = clears sid t"
| "clears sid (Send c m k) = False"
| "clears sid (Collect_batch c q k) = (\<forall>r. clears sid (k r))"
| "clears sid (Join c k) = False"
| "clears sid (Spawn l k) = False"

text \<open>A call that makes a session consumed clears that again.\<close>

primrec cares :: "(sign_desk, 'r) call \<Rightarrow> bool" where
  "cares (Answer r) = True"
| "cares (Section k g) =
     (\<forall>d. cares (k d) \<and> (\<forall>sid. consumed_in (g d) sid \<longrightarrow> consumed_in d sid \<or> clears sid (k d)))"
| "cares (Holding e t) = cares t"
| "cares (Send c m k) = (\<forall>b. cares (k b))"
| "cares (Collect_batch c q k) = (\<forall>r. cares (k r))"
| "cares (Join c k) = (\<forall>j. cares (k j))"
| "cares (Spawn l k) = (\<forall>c. cares (k c))"

lemma clears_settle: "clears sid (code (settle E t)) = clears sid t"
  by (induction E t rule: settle.induct) auto

lemma cares_settle: "cares (code (settle E t)) = cares t"
  by (induction E t rule: settle.induct) auto

definition accounted :: "(unit sign_seat_ext, 'r) worker list \<Rightarrow> (unit sign_seat_ext, 'r) hall \<Rightarrow> bool" where
  "accounted ws h \<longleftrightarrow>
     (\<forall>w\<in>set ws. cares (code w))
     \<and> (\<forall>sid. consumed_in (desk h) sid \<longrightarrow> (\<exists>w\<in>set ws. clears sid (code w)))"

text \<open>A worker that neither reads nor writes the table goes on clearing what it has to.\<close>

lemma accounted_update:
  assumes "accounted ws h" and "i < length ws" and "cares (code w)"
    and "\<And>sid. consumed_in (desk h') sid \<Longrightarrow> clears sid (code w) \<or> consumed_in (desk h) sid"
    and "\<And>sid. consumed_in (desk h') sid \<Longrightarrow> clears sid (code (ws ! i)) \<Longrightarrow> clears sid (code w)"
  shows "accounted (ws[i := w]) h'"
proof -
  have "\<exists>w'\<in>set (ws[i := w]). clears sid (code w')" if c: "consumed_in (desk h') sid" for sid
  proof (cases "clears sid (code w)")
    case True
    with assms(2) show ?thesis by (meson set_update_memI)
  next
    case False
    with assms(4) [OF c] have "consumed_in (desk h) sid" by simp
    with assms(1) obtain j where j: "j < length ws" "clears sid (code (ws ! j))"
      unfolding accounted_def by (metis in_set_conv_nth)
    with False assms(5) [OF c] have "j \<noteq> i" by blast
    with j show ?thesis by (metis length_list_update nth_list_update_neq nth_mem)
  qed
  moreover have "\<forall>w'\<in>set (ws[i := w]). cares (code w')"
    using assms(1,3) by (auto simp: accounted_def dest: subsetD [OF set_update_subset_insert])
  ultimately show ?thesis by (simp add: accounted_def)
qed

lemma accounted_step: "step ws h e ws' h' \<Longrightarrow> accounted ws h \<Longrightarrow> accounted ws' h'"
proof (induction rule: step.induct)
  case (Move_task c h l x ws)
  then show ?case by (simp add: accounted_def)
next
  case (Move_cancel c h ws)
  then show ?case by (simp add: accounted_def)
next
  case (Move_section i ws k g h w)
  then have "cares (Section k g)" using nth_mem by (fastforce simp: accounted_def)
  with Move_section show ?case
    by (intro accounted_update) (auto simp: clears_settle cares_settle)
next
  case (Move_send i ws c m k l h)
  then have "cares (Send c m k)" using nth_mem by (fastforce simp: accounted_def)
  with Move_send show ?case by (intro accounted_update) (auto simp: clears_settle cares_settle)
next
  case (Move_send_closed i ws c m k l h)
  then have "cares (Send c m k)" using nth_mem by (fastforce simp: accounted_def)
  with Move_send_closed show ?case by (intro accounted_update) (auto simp: clears_settle cares_settle)
next
  case (Move_collect i ws c q k h ls p)
  then have "cares (Collect_batch c q k)" using nth_mem by (fastforce simp: accounted_def)
  with Move_collect show ?case by (intro accounted_update) auto
next
  case (Move_return i ws c q k r h)
  then have "cares (Collect_batch c q k)" using nth_mem by (fastforce simp: accounted_def)
  with Move_return show ?case by (intro accounted_update) (auto simp: clears_settle cares_settle)
next
  case (Move_join i ws c k l h j)
  then have "cares (Join c k)" using nth_mem by (fastforce simp: accounted_def)
  with Move_join show ?case by (intro accounted_update) (auto simp: clears_settle cares_settle)
next
  case (Move_spawn i ws l k c h)
  then have "cares (Spawn l k)" using nth_mem by (fastforce simp: accounted_def)
  with Move_spawn show ?case by (intro accounted_update) (auto simp: clears_settle cares_settle)
qed

lemma accounted_spawn: "accounted ws h \<Longrightarrow> cares t \<Longrightarrow> accounted (ws @ [settle {} t]) h"
  by (auto simp: accounted_def cares_settle)

lemma accounted_runs:
  "runs K ws h es ws' h' \<Longrightarrow> accounted ws h \<Longrightarrow> \<forall>t\<in>K. cares t \<Longrightarrow> accounted ws' h'"
  by (induction rule: runs.induct) (blast intro: accounted_step accounted_spawn)+

lemma cares_send_all: "(\<And>r. cares (k r)) \<Longrightarrow> cares (send_all c ms k)"
  by (induction ms) auto

lemma cares_simps [simp]:
  "cares (under_lock access k) \<longleftrightarrow>
     (\<forall>d. cares (k (fst (access d))) \<and>
       (\<forall>sid. consumed_in (snd (access d)) sid \<longrightarrow> consumed_in d sid \<or> clears sid (k (fst (access d)))))"
  "cares (returning r t) \<longleftrightarrow> (\<forall>v. r = Inr v \<longrightarrow> cares (t v))"
  "clears sid (under_lock access k) \<longleftrightarrow> (\<forall>d. \<not> consumed_in (snd (access d)) sid)"
  by (auto simp: under_lock_def returning_def split: sum.split)

lemma consumed_in_access:
  "consumed_in (snd (find_seat sid d)) k \<longleftrightarrow> consumed_in d k"
  "consumed_in (snd (find_unconsumed sid d)) k \<longleftrightarrow> consumed_in d k"
  "consumed_in (snd (take_seat sid d)) k \<longleftrightarrow> k \<noteq> sid \<and> consumed_in d k"
  "consumed_in (snd (mark_consumed v sid d)) k \<longleftrightarrow>
     (if k = sid then v \<and> seats d sid \<noteq> None else consumed_in d k)"
  by (auto simp: consumed_in_def find_seat_def find_unconsumed_def take_seat_def mark_consumed_def split: option.split)

lemma sign_finish:
  "cares (finish_call kind sid reply)" "clears sid (finish_call kind sid reply)"
  by (simp_all add: finish_call_def consumed_in_access)

lemma cares_marked:
  assumes "\<And>r. cares (k r)" and "\<And>r. clears sid (k r)"
  shows "cares (under_lock (mark_consumed True sid) (\<lambda>found. returning (ok_or found e) (\<lambda>seat.
    Collect_batch (at_channel seat) c k)))"
  using assms by (auto simp: consumed_in_access) (auto simp: mark_consumed_def returning_def)

lemma cares_reset: "cares (under_lock (mark_consumed False sid) (\<lambda>_. Answer r))"
  by (simp add: consumed_in_access split: if_split)

lemma cares_sign: "cares (sign_advance_call C sid p)"
  unfolding sign_advance_call_def
  by (subst cares_simps(1))
     (auto simp: consumed_in_access sign_finish cares_reset split: option.split
        intro!: cares_send_all cares_marked simp del: cares_simps(1))

lemma sign_inserted: "sign_sessions (insert_sign_session sid s st) sid = Some s"
  by (simp add: session_defs)

lemma cares_first: "t \<in> sign_first_calls C D \<Longrightarrow> cares t"
proof -
  assume "t \<in> sign_first_calls C D"
  then obtain x sid p share mh st r s where none: "sign_sessions st sid = None"
    and first: "sign_round1 C D x sid p share mh st = Some (r, insert_sign_session sid s st)"
    and t: "t = open_call (ss_link s) sid (\<lambda>c. \<lparr>at_channel = c, at_has_task = ss_has_task s, at_digest = ss_digest s,
      at_consumed = ss_consumed s, at_public_key_hex = ss_public_key_hex s\<rparr>) r"
    unfolding sign_first_calls_def by blast
  from sign_round1_state [OF first] none have "\<not> ss_consumed s"
    by (metis sign_inserted option.distinct(1) option.inject sign_session.select_convs(4))
  then show "cares t" unfolding t by (auto simp: open_call_def consumed_in_def put_seat_def)
qed

lemma settle_settled: "code (settle E t) \<noteq> Holding e t'"
  by (induction E t rule: settle.induct) auto

lemma runs_settled:
  "runs K ws h es ws' h' \<Longrightarrow> \<forall>w\<in>set ws. \<forall>e t. code w \<noteq> Holding e t \<Longrightarrow>
     \<forall>w\<in>set ws'. \<forall>e t. code w \<noteq> Holding e t"
proof (induction rule: runs.induct)
  case (Runs_step ws h es ws' h' e ws'' h'')
  from Runs_step.hyps(2) Runs_step.IH [OF Runs_step.prems] show ?case
    by cases (auto simp: settle_settled dest!: subsetD [OF set_update_subset_insert] nth_mem)
qed (auto simp: settle_settled)

text \<open>
  Property C11: a session is seen consumed only between another call's batch and the next time that
  call has the lock. Along every run of first and later rounds of sign that starts with an idle
  table of unconsumed sessions, when a session is marked, some worker either has the lock and
  collects, or waits for the lock to unmark it or to take it out; when every call has its answer,
  none is marked.
\<close>

theorem consumed_window:
  assumes "runs (sign_calls C D) [] (idle n d ls) es ws h" and "\<forall>sid. \<not> consumed_in d sid" and "consumed_in (desk h) sid"
  shows "\<exists>i<length ws. clears sid (code (ws ! i)) \<and> (holder h = Some i \<or> at_lock (code (ws ! i)))
           \<and> (holder h = None \<longrightarrow> at_lock (code (ws ! i))) \<and> \<not> has_answer (code (ws ! i))"
proof -
  have "accounted [] (idle n d ls)" using assms(2) by (simp add: accounted_def)
  moreover have "\<forall>t\<in>sign_calls C D. cares t"
    by (auto simp: sign_calls_def cares_sign intro: cares_first)
  ultimately have "accounted ws h" by (rule accounted_runs [OF assms(1)])
  then obtain i where i: "i < length ws" "clears sid (code (ws ! i))"
    using assms(3) unfolding accounted_def by (metis in_set_conv_nth)
  have "collecting (code (ws ! i)) = (holder h = Some i)"
    using sign_pool.run_one_collects [OF assms(1)] i(1) by (simp add: one_collects_def)
  moreover have "\<forall>e t. code (ws ! i) \<noteq> Holding e t"
    using runs_settled [OF assms(1)] i(1) by simp
  ultimately show ?thesis
    using i by (intro exI [of _ i]) (cases "code (ws ! i)"; simp)
qed

theorem consumed_window_witness:
  "\<exists>p es w h. runs (sign_calls ex_codecs ex_dkls) [] (idle 1 ex_sign_desk (\<lambda>_. ex_waiting)) es [w] h
     \<and> consumed_in (desk h) ''s'' \<and> clears ''s'' (code w)"
proof -
  obtain p env where p: "parse_server_envelope_batch ex_codecs p = Inr (env, [])"
    using ex_server_envelope by blast
  obtain s where s: "seats ex_sign_desk ''s'' = Some s" "\<not> at_consumed s"
    by (simp add: ex_sign_desk_def)
  let ?K = "sign_calls ex_codecs ex_dkls" and ?t = "sign_advance_call ex_codecs ''s'' p" and ?c = "at_channel s"
  let ?ls = "\<lambda>_ :: channel. ex_waiting :: (bytes \<times> byte) link"
  obtain k1 g1 k2 where t: "?t = Section k1 g1" "g1 ex_sign_desk = ex_sign_desk"
    "settle {} (k1 ex_sign_desk) =
       \<lparr>holds = {Tx ?c}, stage = Enter, code = Section k2 (\<lambda>d. snd (mark_consumed True ''s'' d))\<rparr>"
    "\<exists>k. settle {Tx ?c} (k2 ex_sign_desk) = \<lparr>holds = {Tx ?c}, stage = Enter, code = Collect_batch ?c ?c k\<rparr>"
    using p s by (simp add: sign_advance_call_def under_lock_def returning_def find_unconsumed_def mark_consumed_def)
  then obtain k where k: "settle {Tx ?c} (k2 ex_sign_desk) =
      \<lparr>holds = {Tx ?c}, stage = Enter, code = Collect_batch ?c ?c k\<rparr>" by blast
  let ?v = "\<lparr>holds = {Tx ?c}, stage = Enter, code = Section k2 (\<lambda>d. snd (mark_consumed True ''s'' d))\<rparr>
      :: (unit sign_seat_ext, bytes \<times> byte) worker"
  let ?w = "\<lparr>holds = {Tx ?c}, stage = Enter, code = Collect_batch ?c ?c k\<rparr>"
  let ?h = "(idle 1 (snd (mark_consumed True ''s'' ex_sign_desk)) ?ls)\<lparr>holder := Some 0\<rparr>"
  have "runs ?K [] (idle 1 ex_sign_desk ?ls) [] ([] @ [settle {} ?t]) (idle 1 ex_sign_desk ?ls)"
    by (rule Runs_call [OF Runs_nil calls_members(3)])
  moreover have "step [settle {} ?t] (idle 1 ex_sign_desk ?ls) Silent [?v] (idle 1 ex_sign_desk ?ls)"
    using Move_section [of 0 "[settle {} ?t]" k1 g1 "idle 1 ex_sign_desk ?ls" ?v] t(1-3) by (simp add: idle_def)
  moreover have "step [?v] (idle 1 ex_sign_desk ?ls) Silent [?w] ?h"
    using Move_section [of 0 "[?v]" k2 _ "idle 1 ex_sign_desk ?ls" ?w] k by (simp add: idle_def)
  ultimately have run: "runs ?K [] (idle 1 ex_sign_desk ?ls) (([] @ [Silent]) @ [Silent]) [?w] ?h"
    by (intro Runs_step) simp_all
  have none: "\<forall>sid. \<not> consumed_in ex_sign_desk sid" by (simp add: consumed_in_def ex_sign_desk_def)
  have some: "consumed_in (desk ?h) ''s''" using s(1) by (simp add: consumed_in_access)
  from consumed_window [OF run none some] have "clears ''s'' (code ?w)" by simp
  with run some show ?thesis by (intro exI conjI)
qed

end
