(* ===== verification/Dco.thy ===== *)
theory Dco
  imports Sse
begin

text \<open>
  The second codec of \<open>rust/src/frb_generated.rs\<close>: the \<open>IntoDart\<close> instances, which turn the types
  of the interface into values of the Dart virtual machine. No wire function uses them; they are
  what the glue would send if a function were switched to that codec. The values and the
  conversions of the base types are the bridge's, a parameter.
\<close>

section \<open>The bridge's conversions\<close>

text \<open>\<open>into_dart\<close> of the base types, of an array of values and of an option of a value.\<close>

record 'd dart_lib =
  dart_i32 :: "i32 \<Rightarrow> 'd"
  dart_u8 :: "byte \<Rightarrow> 'd"
  dart_string :: "string \<Rightarrow> 'd"
  dart_array32 :: "bytes \<Rightarrow> 'd"
  dart_strings :: "string list \<Rightarrow> 'd"
  dart_list :: "'d list \<Rightarrow> 'd"
  dart_option :: "'d option \<Rightarrow> 'd"

text \<open>Values that are the same in Dart come from the same value.\<close>

definition dart_law :: "'d dart_lib \<Rightarrow> bool" where
  "dart_law L \<longleftrightarrow> inj (dart_i32 L) \<and> inj (dart_u8 L) \<and> inj (dart_string L) \<and> inj (dart_array32 L)
     \<and> inj (dart_strings L) \<and> inj (dart_list L) \<and> inj (dart_option L)"

section \<open>The instances\<close>

text \<open>\<open>into_into_dart\<close> of the interface types.\<close>

definition into_into_dart :: "'a \<Rightarrow> 'a" where
  "into_into_dart x = x"

definition curve_into_dart :: "'d dart_lib \<Rightarrow> curve \<Rightarrow> 'd" where
  "curve_into_dart L c = (case c of Secp256k1 \<Rightarrow> dart_i32 L 0 | Ed25519 \<Rightarrow> dart_i32 L 1)"

definition digest_into_dart :: "'d dart_lib \<Rightarrow> message_digest \<Rightarrow> 'd" where
  "digest_into_dart L d = dart_list L [dart_array32 L (into_bytes d)]"

definition protocol_into_dart :: "'d dart_lib \<Rightarrow> protocol_type \<Rightarrow> 'd" where
  "protocol_into_dart L p =
     (case p of Dkg \<Rightarrow> dart_i32 L 0 | Dsg \<Rightarrow> dart_i32 L 1 | Rotation \<Rightarrow> dart_i32 L 2)"

definition share_envelope_into_dart :: "'d dart_lib \<Rightarrow> share_envelope \<Rightarrow> 'd" where
  "share_envelope_into_dart L e =
     dart_list L [dart_u8 L (se_v e), dart_string L (se_curve e), dart_string L (se_share e)]"

definition wire_envelope_into_dart :: "'d dart_lib \<Rightarrow> wire_envelope \<Rightarrow> 'd" where
  "wire_envelope_into_dart L e =
     dart_list L
       [dart_string L (we_session_id e),
        protocol_into_dart L (into_into_dart (we_protocol e)),
        dart_u8 L (we_round e),
        dart_u8 L (we_from_id e),
        dart_option L (map_option (dart_u8 L) (we_to_id e)),
        dart_string L (we_payload_encoding e),
        dart_string L (we_payload e),
        dart_option L (map_option (dart_string L) (we_step e)),
        dart_option L (map_option (dart_strings L) (we_payloads e)),
        dart_option L (map_option (dart_string L) (we_curve e))]"

section \<open>What is sent can be told apart\<close>

text \<open>The contract of an instance: no two values become the same value in Dart.\<close>

locale dart_type =
  fixes conv :: "'d dart_lib \<Rightarrow> 'a \<Rightarrow> 'd"
  assumes conv_inj: "dart_law L \<Longrightarrow> conv L x = conv L y \<Longrightarrow> x = y"
begin

lemma options_inj:
  assumes "dart_law L" and "dart_option L (map_option (conv L) x) = dart_option L (map_option (conv L) y)"
  shows "x = y"
  using assms conv_inj by (cases x; cases y) (auto simp: dart_law_def inj_eq)

lemma lists_inj:
  assumes "dart_law L" and "dart_list L (map (conv L) xs) = dart_list L (map (conv L) ys)"
  shows "xs = ys"
proof -
  have "map (conv L) xs = map (conv L) ys"
    using assms by (auto simp: dart_law_def inj_eq)
  moreover have "inj (conv L)" using conv_inj [OF assms(1)] by (auto intro: injI)
  ultimately show ?thesis by simp
qed

end

interpretation dart_u8: dart_type dart_u8
  by unfold_locales (auto simp: dart_law_def inj_eq)

interpretation dart_string: dart_type dart_string
  by unfold_locales (auto simp: dart_law_def inj_eq)

interpretation dart_strings: dart_type dart_strings
  by unfold_locales (auto simp: dart_law_def inj_eq)

interpretation dart_curve: dart_type curve_into_dart
  by unfold_locales (auto simp: dart_law_def inj_eq curve_into_dart_def split: curve.splits)

interpretation dart_digest: dart_type digest_into_dart
  by unfold_locales (auto simp: dart_law_def inj_eq digest_into_dart_def message_digest.expand)

interpretation dart_protocol: dart_type protocol_into_dart
  by unfold_locales (auto simp: dart_law_def inj_eq protocol_into_dart_def split: protocol_type.splits)

interpretation dart_share_envelope: dart_type share_envelope_into_dart
  by unfold_locales (auto simp: dart_law_def inj_eq share_envelope_into_dart_def)

interpretation dart_wire_envelope: dart_type wire_envelope_into_dart
proof
  fix L :: "'d dart_lib" and x y
  assume L: "dart_law L" and same: "wire_envelope_into_dart L x = wire_envelope_into_dart L y"
  then show "x = y"
    using dart_u8.options_inj [OF L] dart_string.options_inj [OF L] dart_strings.options_inj [OF L]
      dart_protocol.conv_inj [OF L] dart_u8.conv_inj [OF L] dart_string.conv_inj [OF L]
    by (auto simp: dart_law_def inj_eq wire_envelope_into_dart_def into_into_dart_def intro: wire_envelope.equality)
qed

text \<open>Both codecs number the variants of the enumerations in the same way.\<close>

lemma enums_agree:
  "\<exists>i. curve_into_dart L c = dart_i32 L i \<and> sse_encode_curve B c = sse_encode_i32 B i"
  "\<exists>i. protocol_into_dart L p = dart_i32 L i \<and> sse_encode_protocol B p = sse_encode_i32 B i"
  by (cases c; auto simp: curve_into_dart_def) (cases p; auto simp: protocol_into_dart_def)

text \<open>A bridge that keeps the law.\<close>

datatype ex_dart = Ex_i32 i32 | Ex_u8 byte | Ex_string string | Ex_bytes bytes | Ex_strings "string list"
  | Ex_list "ex_dart list" | Ex_option "ex_dart option"

definition ex_dart_lib :: "ex_dart dart_lib" where
  "ex_dart_lib =
     \<lparr>dart_i32 = Ex_i32, dart_u8 = Ex_u8, dart_string = Ex_string, dart_array32 = Ex_bytes,
      dart_strings = Ex_strings, dart_list = Ex_list, dart_option = Ex_option\<rparr>"

lemma ex_dart_law: "dart_law ex_dart_lib"
  by (simp add: dart_law_def ex_dart_lib_def inj_def)

lemma ex_envelope_into_dart:
  "wire_envelope_into_dart ex_dart_lib e = wire_envelope_into_dart ex_dart_lib e' \<Longrightarrow> e = e'"
  by (rule dart_wire_envelope.conv_inj [OF ex_dart_law])

end
