(* ===== verification/Dialog.thy ===== *)
theory Dialog
  imports Runs
begin

text \<open>
  A session of the secp256k1 path as a conversation: first and later rounds of one session id, with
  anything else that happens to the engine between them. What the protocol behind it has read and
  sent by itself, without relay, channels, schedule and envelopes, is the specification; that the
  server's messages and the answers are this, and that the completed payload is made of the
  protocol's own result, is proved once in the locale \<open>relayed\<close> and for keygen, recover and sign
  by its interpretations.
\<close>

section \<open>A protocol by itself\<close>

text \<open>
  \<open>speaks closed t ins outs t'\<close>: the protocol \<open>t\<close> has read \<open>ins\<close> and sent \<open>outs\<close>, and stands at \<open>t'\<close>. A
  message is refused only when as many are out as the channel holds, and the input ends only
  where it may be \<open>closed\<close>.
\<close>

inductive speaks :: "bool \<Rightarrow> 'r task \<Rightarrow> bytes list \<Rightarrow> bytes list \<Rightarrow> 'r task \<Rightarrow> bool"
  for closed :: bool and t :: "'r task" where
  Speaks_start: "speaks closed t [] [] t"
| Speaks_send: "speaks closed t ins outs (Emit m k) \<Longrightarrow> speaks closed t is (outs @ [m]) (k True)"
| Speaks_full: "speaks closed t ins outs (Emit m k) \<Longrightarrow> out_capacity \<le> length outs \<Longrightarrow>
     speaks closed t ins outs (k False)"
| Speaks_read: "speaks closed t ins outs (Await k) \<Longrightarrow> speaks closed t (ins @ [m]) os (k (Some m))"
| Speaks_end: "speaks closed t ins outs (Await k) \<Longrightarrow> closed \<Longrightarrow> speaks closed t ins outs (k None)"

lemma speaks_closed: "speaks False t ins outs u \<Longrightarrow> speaks True t ins outs u"
  by (induction rule: speaks.induct) (auto intro: speaks.intros)

text \<open>
  The link of a session whose protocol was \<open>t\<close> and which was \<open>given\<close> messages and of which
  the caller has \<open>got\<close> others: what the protocol has not read is queued in, what the caller has not got is queued out.
\<close>

definition relays :: "'r task \<Rightarrow> bytes list \<Rightarrow> bytes list \<Rightarrow> 'r link \<Rightarrow> bool" where
  "relays t given got l \<longleftrightarrow> tx_open l \<and>
     (\<exists>ins. speaks False t ins (got @ outq l) (prog l) \<and> given = ins @ inq l)"

lemma relays_new: "relays t [] [] (new_link t)"
  by (simp add: relays_def new_link_def Speaks_start)

lemma relays_task_step:
  assumes "relays t g a l"
  shows "relays t g a (task_step l)"
proof -
  obtain ins where l: "tx_open l" "speaks False t ins (a @ outq l) (prog l)" "g = ins @ inq l"
    using assms by (auto simp: relays_def)
  show ?thesis
  proof (cases "prog l")
    case (Emit m k)
    with l(2) Speaks_send [of False t ins "a @ outq l" m k] Speaks_full [of False t ins "a @ outq l" m k]
    show ?thesis using l by (auto simp: relays_def task_step_def start_send_def Emit)
  next
    case (Await k)
    with l(2) Speaks_read [of False t ins "a @ outq l" k] show ?thesis
      using l by (auto simp: relays_def task_step_def poll_next_def Await split: list.split)
  qed (use assms in \<open>simp_all add: task_step_done\<close>)
qed

lemma relays_enable [simp]: "relays t g a (enable l) \<longleftrightarrow> relays t g a l"
  by (simp add: relays_def)

text \<open>A collecting caller moves messages from the queue to its batch.\<close>

lemma relays_collect_step:
  "relays t g (a @ phase_msgs p) l \<Longrightarrow> collect_step l p = (l', p') \<Longrightarrow> relays t g (a @ phase_msgs p') l'"
  using collect_step_msgs [of l p l' p'] collect_step_prog [of l p l' p'] by (simp add: relays_def)

lemma relays_collect:
  "collect_loop sch l p = Some (r, l', sch') \<Longrightarrow> relays t g (a @ phase_msgs p) l \<Longrightarrow>
     relays t g (a @ phase_msgs (Returned r)) l'"
proof (induction rule: collect_run_induct)
  case (Move b sch l p l1 p1)
  then show ?case
    by (cases b) (auto intro: relays_task_step relays_collect_step)
qed simp

lemma relays_inject:
  "inject_all sch l ms = Some (Inr (), l', sch') \<Longrightarrow> relays t g a l \<Longrightarrow> relays t (g @ ms) a l'"
proof (induction sch l ms arbitrary: g rule: inject_all.induct)
  case (3 sch l m ms)
  then show ?case by (simp add: relays_task_step)
next
  case (4 sch l m ms)
  have "relays t (g @ [m]) a (l\<lparr>inq := inq l @ [m]\<rparr>)" using 4(4) by (auto simp: relays_def)
  with 4 show ?case by (fastforce split: if_splits)
qed simp_all

lemma relays_exchange:
  assumes "exchange sch l ms = Some (Inr out, l')" and "relays t g a l"
  shows "relays t (g @ ms) (a @ phase_msgs (Returned out)) l'"
  using assms(1)
proof (cases rule: exchange_cases)
  case (collected l1 sch1 out' sch2)
  then show ?thesis
    using relays_collect [of sch1 l1 Enter out l' sch2 t "g @ ms" a] relays_inject [OF _ assms(2)]
    by (simp add: collect_batch_def)
qed simp


text \<open>The batch that is not there: the protocol is done and all of it has been got.\<close>

lemma collect_None_empty:
  "collect_loop sch l p = Some (r, l', sch') \<Longrightarrow> \<not> returned p \<Longrightarrow> r = None \<Longrightarrow> outq l' = []"
proof (induction rule: collect_run_induct)
  case (Move a sch l p l1 p1)
  show ?case
  proof (cases "returned p1")
    case False
    with Move show ?thesis by simp
  next
    case True
    with Move.hyps(1,2) have "a = Caller" by (cases a) auto
    with True Move.hyps Move.prems show ?thesis
      by (cases p) (auto split: list.splits if_splits)
  qed
qed simp

lemma relays_done:
  assumes "exchange sch l ms = Some (Inr None, l')" and "relays t g a l"
  shows "\<exists>ins. prefix ins (g @ ms) \<and> speaks False t ins a (prog l') \<and> task_done (prog l')"
proof -
  have r: "relays t (g @ ms) a l'" using relays_exchange [OF assms] by simp
  obtain l1 sch1 sch2 where c: "collect_batch sch1 l1 = Some (None, l', sch2)"
    using assms(1) by (auto elim: exchange_cases)
  then have "outq l' = []" unfolding collect_batch_def by (rule collect_None_empty) simp_all
  with r collect_batch_None [OF c] show ?thesis
    by (auto simp: relays_def) (metis prefixI)
qed

text \<open>A join lets the protocol go on by itself.\<close>

lemma speaks_task_step:
  assumes "speaks closed t ins (outs @ outq l) (prog l)" and "tx_open l \<or> closed"
  shows "\<exists>ins' sent. inq l = ins' @ inq (task_step l) \<and> outq (task_step l) = outq l @ sent
    \<and> speaks closed t (ins @ ins') (outs @ outq (task_step l)) (prog (task_step l))"
proof (cases "prog l")
  case (Emit m k)
  with assms(1) Speaks_send [of closed t ins "outs @ outq l" m k] Speaks_full [of closed t ins "outs @ outq l" m k]
  show ?thesis by (auto simp: task_step_def start_send_def)
next
  case (Await k)
  with assms Speaks_read [of closed t ins "outs @ outq l" k] Speaks_end [of closed t ins "outs @ outq l" k]
  show ?thesis by (cases "inq l") (auto simp: task_step_def poll_next_def)
qed (use assms in \<open>simp_all add: task_step_done\<close>)

lemma task_steps_tx_open [simp]: "tx_open ((task_step ^^ n) l) = tx_open l"
  by (induction n) simp_all

lemma speaks_task_steps:
  assumes "speaks closed t ins (outs @ outq l) (prog l)" and "tx_open l \<or> closed"
  shows "\<exists>ins' sent. inq l = ins' @ inq ((task_step ^^ n) l) \<and> outq ((task_step ^^ n) l) = outq l @ sent
    \<and> speaks closed t (ins @ ins') (outs @ outq ((task_step ^^ n) l)) (prog ((task_step ^^ n) l))"
proof (induction n)
  case (Suc n)
  have open_end: "tx_open ((task_step ^^ n) l) \<or> closed" using assms(2) by simp
  from Suc obtain ins' sent where IH: "inq l = ins' @ inq ((task_step ^^ n) l)"
    "outq ((task_step ^^ n) l) = outq l @ sent"
    "speaks closed t (ins @ ins') (outs @ outq ((task_step ^^ n) l)) (prog ((task_step ^^ n) l))" by blast
  from speaks_task_step [OF IH(3) open_end] obtain ins'' sent' where
    "inq ((task_step ^^ n) l) = ins'' @ inq (task_step ((task_step ^^ n) l))"
    "outq (task_step ((task_step ^^ n) l)) = outq ((task_step ^^ n) l) @ sent'"
    "speaks closed t ((ins @ ins') @ ins'') (outs @ outq (task_step ((task_step ^^ n) l)))
       (prog (task_step ((task_step ^^ n) l)))" by blast
  with IH(1,2) show ?case
    by (intro exI [of _ "ins' @ ins''"] exI [of _ "sent @ sent'"]) simp
qed (use assms in simp)

lemma speaks_join:
  assumes "join_link l = Some (Inr r)" and "speaks closed t ins (outs @ outq l) (prog l)" and "tx_open l \<or> closed"
  shows "\<exists>ins' outs'. prefix ins' (inq l) \<and> prefix (outs @ outq l) outs'
    \<and> speaks closed t (ins @ ins') outs' (Finished r)"
proof -
  obtain l' where l': "run_out l = Some l'" "task_outcome (prog l') = Some (Inr r)"
    using assms(1) by (auto simp: join_link_def bind_eq_Some_conv)
  then have fin: "prog l' = Finished r" by (cases "prog l'") simp_all
  obtain n where "l' = (task_step ^^ n) l" using run_out_steps [OF l'(1)] by blast
  with speaks_task_steps [OF assms(2,3), of n] fin obtain ins' sent where
    "inq l = ins' @ inq l'" "outq l' = outq l @ sent" "speaks closed t (ins @ ins') (outs @ outq l') (Finished r)"
    by auto
  then show ?thesis by (intro exI [of _ ins'] exI [of _ "outs @ outq l'"]) simp
qed

section \<open>Conversations\<close>

text \<open>
  What the two sides of a session have said, for a session whose link \<open>link_of\<close> finds in the
  engine: it \<open>opens\<close> with a first round for a protocol, messages and an answer, and \<open>goes_on\<close> with
  later rounds. Between them the task may take steps, and everything may happen to the engine
  that leaves the link as it is.
\<close>

inductive dialog ::
  "(engine \<Rightarrow> 'r link option) \<Rightarrow> ('r task \<Rightarrow> bytes list \<Rightarrow> bytes list \<Rightarrow> engine \<Rightarrow> bool)
   \<Rightarrow> (engine \<Rightarrow> bytes list \<Rightarrow> bytes list \<Rightarrow> engine \<Rightarrow> bool)
   \<Rightarrow> 'r task \<Rightarrow> bytes list \<Rightarrow> bytes list \<Rightarrow> engine \<Rightarrow> bool"
  for link_of opens goes_on where
  Dialog_open: "opens t given got st \<Longrightarrow> dialog link_of opens goes_on t given got st"
| Dialog_round: "dialog link_of opens goes_on t given got st \<Longrightarrow> goes_on st msgs batch st' \<Longrightarrow>
     dialog link_of opens goes_on t (given @ msgs) (got @ batch) st'"
| Dialog_task: "dialog link_of opens goes_on t given got st \<Longrightarrow> link_of st = Some l \<Longrightarrow>
     link_of st' = Some (task_step l) \<Longrightarrow> dialog link_of opens goes_on t given got st'"
| Dialog_other: "dialog link_of opens goes_on t given got st \<Longrightarrow> link_of st' = link_of st \<Longrightarrow>
     dialog link_of opens goes_on t given got st'"

text \<open>The contract of the rounds of one operation: an exchange with the protocol's link.\<close>

locale relayed =
  fixes C :: codecs
    and link_of :: "engine \<Rightarrow> 'r link option"
    and opens :: "'r task \<Rightarrow> bytes list \<Rightarrow> bytes list \<Rightarrow> engine \<Rightarrow> bool"
    and goes_on :: "engine \<Rightarrow> bytes list \<Rightarrow> bytes list \<Rightarrow> engine \<Rightarrow> bool"
  assumes opens_exchange: "json_law C \<Longrightarrow> b64_law C \<Longrightarrow> opens t given got st \<Longrightarrow>
      \<exists>sch d l. exchange sch (new_link t) given = Some (Inr (Some (got, d)), l) \<and> link_of st = Some l"
    and goes_on_exchange: "json_law C \<Longrightarrow> b64_law C \<Longrightarrow> goes_on st msgs batch st' \<Longrightarrow>
      \<exists>sch d l l'. link_of st = Some l \<and> exchange sch l msgs = Some (Inr (Some (batch, d)), l')
        \<and> link_of st' = Some l'"
begin

lemma dialog_relays:
  assumes "json_law C" and "b64_law C" and "dialog link_of opens goes_on t given got st"
  shows "\<exists>l. link_of st = Some l \<and> relays t given got l"
  using assms(3)
proof (induction rule: dialog.induct)
  case (Dialog_open t given got st)
  then show ?case
    using relays_exchange [OF _ relays_new] by (fastforce dest!: opens_exchange [OF assms(1,2)])
next
  case (Dialog_round t given got st msgs batch st')
  then obtain sch d l l' where "relays t given got l" "exchange sch l msgs = Some (Inr (Some (batch, d)), l')"
    "link_of st' = Some l'"
    using goes_on_exchange [OF assms(1,2) Dialog_round.hyps(2)] by auto
  then show ?case using relays_exchange by fastforce
qed (auto intro: relays_task_step)

text \<open>A round that finds the protocol done, and a join of the task with no sender left.\<close>

lemma dialog_done:
  assumes "json_law C" and "b64_law C" and "dialog link_of opens goes_on t given got st" and "link_of st = Some l"
    and "exchange sch l msgs = Some (Inr None, l')" and "join_link l' = Some (Inr (Inr v))"
  shows "\<exists>ins. prefix ins (given @ msgs) \<and> speaks False t ins got (Finished (Inr v))"
proof -
  have "relays t given got l" using dialog_relays [OF assms(1-3)] assms(4) by simp
  from relays_done [OF assms(5) this]
  obtain ins where "prefix ins (given @ msgs)" "speaks False t ins got (prog l')" "task_done (prog l')"
    by blast
  moreover from this(3) assms(6) have "prog l' = Finished (Inr v)"
    by (cases "prog l'") (simp_all add: join_link_def)
  ultimately show ?thesis by auto
qed

lemma dialog_joined:
  assumes "json_law C" and "b64_law C" and "dialog link_of opens goes_on t given got st" and "link_of st = Some l"
    and "join_link (l\<lparr>tx_open := False\<rparr>) = Some (Inr (Inr v))"
  shows "\<exists>ins outs. prefix ins given \<and> prefix got outs \<and> speaks True t ins outs (Finished (Inr v))"
proof -
  obtain ins where l: "speaks False t ins (got @ outq l) (prog l)" "given = ins @ inq l"
    using dialog_relays [OF assms(1-3)] assms(4) by (auto simp: relays_def)
  obtain ins' outs' where "prefix ins' (inq l)" "prefix (got @ outq l) outs'"
    "speaks True t (ins @ ins') outs' (Finished (Inr v))"
    using speaks_join [OF assms(5), of True t ins got] speaks_closed [OF l(1)] by auto
  with l(2) show ?thesis by (metis append_prefixD same_prefix_prefix)
qed

end


section \<open>The answers of the engine\<close>

text \<open>The messages the caller of a round reads from its answer.\<close>

definition answers :: "codecs \<Rightarrow> byte \<Rightarrow> string \<Rightarrow> bytes list \<Rightarrow> bool" where
  "answers C rnd r msgs \<longleftrightarrow> (\<exists>env. is_continue C rnd env r \<and> decode_all_payloads C env = Inr msgs)"

lemma is_continue_unique: "is_continue C rnd env r \<Longrightarrow> is_continue C rnd' env' r \<Longrightarrow> env = env'"
  by (auto simp: is_continue_def mpc_round_result_json_def json_option_def)

lemma answers_batch:
  assumes "json_law C" and "b64_law C" and "make_in_progress_batch C sid p rnd batch = Inr r"
  shows "answers C rnd r msgs \<longleftrightarrow> msgs = batch"
proof -
  have "is_continue C rnd (batch_env C sid p rnd batch) r"
    using batch_reads [OF assms(1), of sid p rnd batch] assms(3) by auto
  with decode_batch [OF assms(2), of sid p rnd batch] show ?thesis
    unfolding answers_def using is_continue_unique by (metis sum.inject(2))
qed

text \<open>An answer with a completed payload is not one that goes on.\<close>

lemma completed_no_answers:
  assumes "json_law C" and "make_completed C rnd j = Inr r"
  shows "\<not> answers C rnd' r msgs"
proof -
  have "json_parse C (as_bytes r) = Inr (mpc_round_result_json
       \<lparr>mr_status = ''completed'', mr_round = ucast rnd, mr_client_payload = Some j, mr_error_message = None\<rparr>)"
    using to_json_reads [OF assms(1) payload_json_plain(1)] assms(2) unfolding make_completed_def
    by (metis sum.inject(2))
  then show ?thesis by (auto simp: answers_def is_continue_def mpc_round_result_json_def)
qed

lemma completed_replies:
  "keygen_completed_reply C D sid rnd ks = Inr r \<Longrightarrow> \<exists>j. make_completed C rnd j = Inr r"
  "recovery_completed_reply C D x sid rnd v ks = Inr r \<Longrightarrow> \<exists>j. make_completed C rnd j = Inr r"
  "sign_completed_reply C rnd out = Inr r \<Longrightarrow> \<exists>j. make_completed C rnd j = Inr r"
  by (auto simp: keygen_completed_reply_def recovery_completed_reply_def sign_completed_reply_def
      split: prod.splits if_splits)

text \<open>
  What a later round that answers \<open>r\<close> has done with the link \<open>l\<close> of its session, and which link
  the session has \<open>after\<close>: it goes on with a batch, or the protocol is done and the session closed.
\<close>

definition round_outcome ::
  "schedule \<Rightarrow> 'r link \<Rightarrow> bytes list \<Rightarrow> (bytes list \<Rightarrow> string res) \<Rightarrow> ('r \<Rightarrow> string res)
   \<Rightarrow> string \<Rightarrow> 'r link option \<Rightarrow> bool" where
  "round_outcome sch l msgs reply finish r after \<longleftrightarrow>
     (\<exists>out l'. exchange sch l msgs = Some (Inr out, l')
        \<and> (case out of
             Some (batch, d) \<Rightarrow> reply batch = Inr r \<and> after = Some l'
           | None \<Rightarrow> (\<exists>v. join_link l' = Some (Inr (Inr v)) \<and> finish v = Inr r) \<and> after = None))"

lemma round_outcome_answers:
  assumes "json_law C" and "b64_law C"
    and "round_outcome sch l msgs (make_in_progress_batch C sid p rnd) finish r after"
    and "answers C rnd r batch" and "\<forall>v. finish v = Inr r \<longrightarrow> (\<exists>j. make_completed C rnd j = Inr r)"
  shows "\<exists>d l'. exchange sch l msgs = Some (Inr (Some (batch, d)), l') \<and> after = Some l'"
proof -
  obtain out l' where ex: "exchange sch l msgs = Some (Inr out, l')" using assms(3) by (auto simp: round_outcome_def)
  show ?thesis
  proof (cases out)
    case None
    with assms(3) ex obtain v where "finish v = Inr r" by (auto simp: round_outcome_def)
    with assms(5) obtain j where "make_completed C rnd j = Inr r" by blast
    from completed_no_answers [OF assms(1) this] assms(4) show ?thesis by simp
  next
    case (Some b)
    obtain ms d where b: "b = (ms, d)" by (cases b)
    with assms(3) ex Some have "make_in_progress_batch C sid p rnd ms = Inr r" "after = Some l'"
      by (auto simp: round_outcome_def)
    with ex Some b answers_batch [OF assms(1,2) this(1)] assms(4) show ?thesis by simp
  qed
qed

lemma round_goes_on:
  assumes "json_law C" and "b64_law C"
    and "\<exists>l. link = Some l \<and> round_outcome sch l msgs (make_in_progress_batch C sid p rnd) finish r after"
    and "answers C rnd r batch" and "\<forall>v. finish v = Inr r \<longrightarrow> (\<exists>j. make_completed C rnd j = Inr r)"
  shows "\<exists>sch d l l'. link = Some l \<and> exchange sch l msgs = Some (Inr (Some (batch, d)), l') \<and> after = Some l'"
proof -
  obtain l where l: "link = Some l"
    and o: "round_outcome sch l msgs (make_in_progress_batch C sid p rnd) finish r after"
    using assms(3) by (elim exE conjE)
  from l round_outcome_answers [OF assms(1,2) o assms(4,5)] show ?thesis by metis
qed

lemma first_round_opens:
  assumes "json_law C" and "b64_law C"
    and "\<exists>batch d l. exchange sch (new_link t) msgs = Some (Inr (Some (batch, d)), l)
           \<and> make_in_progress_batch C sid p rnd batch = Inr r \<and> after = Some l"
    and "answers C rnd r got"
  shows "\<exists>sch d l. exchange sch (new_link t) msgs = Some (Inr (Some (got, d)), l) \<and> after = Some l"
proof -
  obtain batch d l where "exchange sch (new_link t) msgs = Some (Inr (Some (batch, d)), l)"
    "make_in_progress_batch C sid p rnd batch = Inr r" "after = Some l"
    using assms(3) by (elim exE conjE)
  with answers_batch [OF assms(1,2) this(2)] assms(4) show ?thesis by metis
qed

lemma round_outcome_done:
  "round_outcome sch l msgs reply finish r None \<Longrightarrow>
     \<exists>l' v. exchange sch l msgs = Some (Inr None, l') \<and> join_link l' = Some (Inr (Inr v)) \<and> finish v = Inr r"
  unfolding round_outcome_def by (auto split: option.splits) (metis option.exhaust surj_pair)

subsection \<open>Keygen\<close>

definition keygen_link :: "string \<Rightarrow> engine \<Rightarrow> bytes link option" where
  "keygen_link sid st = map_option ks_link (keygen_sessions st sid)"

definition keygen_protocol :: "codecs \<Rightarrow> dkls_lib \<Rightarrow> call_ctx \<Rightarrow> string \<Rightarrow> bytes task res" where
  "keygen_protocol C D x sid =
     andThen (instance_id_from_session C sid) (\<lambda>inst.
       Inr (map_task (keyshare_as_slice D) (dkg_run D (two_party_setup inst) (random_seed x))))"

definition keygen_opens ::
  "codecs \<Rightarrow> frost_lib \<Rightarrow> dkls_lib \<Rightarrow> string \<Rightarrow> bytes task \<Rightarrow> bytes list \<Rightarrow> bytes list \<Rightarrow> engine \<Rightarrow> bool"
where
  "keygen_opens C F D sid t given got st' \<longleftrightarrow>
     (\<exists>x p st r env. detect_curve_from_envelope C p \<noteq> Ed25519
        \<and> keygen C F D x sid 1 p st = Some (Inr r, st') \<and> keygen_protocol C D x sid = Inr t
        \<and> parse_server_envelope_batch C p = Inr (env, given) \<and> answers C (we_round env) r got)"

definition keygen_goes_on ::
  "codecs \<Rightarrow> frost_lib \<Rightarrow> dkls_lib \<Rightarrow> string \<Rightarrow> engine \<Rightarrow> bytes list \<Rightarrow> bytes list \<Rightarrow> engine \<Rightarrow> bool"
where
  "keygen_goes_on C F D sid st msgs batch st' \<longleftrightarrow>
     (\<exists>x rnd p r env. rnd \<noteq> 0 \<and> rnd \<noteq> 1 \<and> frost_keygen_sessions st sid = None
        \<and> keygen C F D x sid rnd p st = Some (Inr r, st')
        \<and> parse_server_envelope_batch C p = Inr (env, msgs) \<and> answers C (we_round env) r batch)"

lemma keygen_round1_Inr:
  assumes "keygen_round1 C D x sid p st = Some (Inr r, st')" and "parse_server_envelope_batch C p = Inr (env, msgs)"
    and "keygen_protocol C D x sid = Inr t"
  shows "\<exists>batch d l. exchange (cc_schedule x) (new_link t) msgs = Some (Inr (Some (batch, d)), l)
           \<and> make_in_progress_batch C sid Dkg (we_round env) batch = Inr r \<and> keygen_link sid st' = Some l"
  using assms
  by (auto simp: keygen_round1_def keygen_protocol_def keygen_link_def session_defs case_out attempt_eq_Some
      bind_eq_Some_conv Let_def)

lemma keygen_advance_Inr:
  assumes "keygen_advance C D x sid p st = Some (Inr r, st')" and "parse_server_envelope_batch C p = Inr (env, msgs)"
  shows "\<exists>l. keygen_link sid st = Some l
    \<and> round_outcome (cc_schedule x) l msgs (make_in_progress_batch C sid Dkg (we_round env))
        (keygen_completed_reply C D sid (we_round env)) r (keygen_link sid st')"
proof -
  obtain s where s: "keygen_sessions st sid = Some s"
    using assms(1) by (auto simp: keygen_advance_def attempt_eq_Some)
  obtain out l' where ex: "exchange (cc_schedule x) (ks_link s) msgs = Some (Inr out, l')"
    using assms s by (auto simp: keygen_advance_def attempt_eq_Some bind_eq_Some_conv Let_def)
  show ?thesis
    using assms s ex
    by (cases out)
       (auto simp: round_outcome_def keygen_advance_def keygen_link_def session_defs join_result_def
          bind_eq_Some_conv Let_def split: if_splits)
qed

lemma keygen_secp_rounds:
  "detect_curve_from_envelope C p \<noteq> Ed25519 \<Longrightarrow> keygen C F D x sid 1 p st = keygen_round1 C D x sid p st"
  "rnd \<noteq> 0 \<Longrightarrow> rnd \<noteq> 1 \<Longrightarrow> frost_keygen_sessions st sid = None \<Longrightarrow>
     keygen C F D x sid rnd p st = keygen_advance C D x sid p st"
  "frost_keygen_sessions st sid = None \<Longrightarrow> keygen C F D x sid 0 p st = keygen_collect C D sid st"
  by (simp_all add: keygen_def frost_keygen_session_exists_def)

lemma keygen_opens_exchange:
  assumes "json_law C" and "b64_law C" and "keygen_opens C F D sid t given got st"
  shows "\<exists>sch d l. exchange sch (new_link t) given = Some (Inr (Some (got, d)), l) \<and> keygen_link sid st = Some l"
proof -
  obtain x p st0 r env where "keygen_round1 C D x sid p st0 = Some (Inr r, st)"
    and "parse_server_envelope_batch C p = Inr (env, given)" "keygen_protocol C D x sid = Inr t"
    and "answers C (we_round env) r got"
    using assms(3) unfolding keygen_opens_def by (metis keygen_secp_rounds(1))
  then show ?thesis by (intro first_round_opens [OF assms(1,2) keygen_round1_Inr])
qed

lemma keygen_goes_on_exchange:
  assumes "json_law C" and "b64_law C" and "keygen_goes_on C F D sid st msgs batch st'"
  shows "\<exists>sch d l l'. keygen_link sid st = Some l \<and> exchange sch l msgs = Some (Inr (Some (batch, d)), l')
    \<and> keygen_link sid st' = Some l'"
proof -
  obtain x p r env where c: "keygen_advance C D x sid p st = Some (Inr r, st')"
    "parse_server_envelope_batch C p = Inr (env, msgs)" "answers C (we_round env) r batch"
    using assms(3) unfolding keygen_goes_on_def by (metis keygen_secp_rounds(2))
  show ?thesis
    by (rule round_goes_on [OF assms(1,2) keygen_advance_Inr [OF c(1,2)] c(3)]) (blast intro: completed_replies(1))
qed

interpretation keygen_relay: relayed C "keygen_link sid" "keygen_opens C F D sid" "keygen_goes_on C F D sid"
  for C F D sid
  by unfold_locales (rule keygen_opens_exchange keygen_goes_on_exchange; assumption)+

subsection \<open>Recover\<close>

definition recover_link :: "string \<Rightarrow> engine \<Rightarrow> bytes link option" where
  "recover_link sid st = map_option rs_link (recovery_sessions st sid)"

definition recover_protocol :: "codecs \<Rightarrow> dkls_lib \<Rightarrow> call_ctx \<Rightarrow> string \<Rightarrow> string \<Rightarrow> bytes task res" where
  "recover_protocol C D x sid backup_share =
     andThen (wrap_err ''base64 decode backup_share'' (b64_decode C backup_share)) (\<lambda>old_ks_bytes.
     andThen (ok_or (keyshare_from_bytes D old_ks_bytes) (Msg ''invalid backup keyshare bytes'')) (\<lambda>old_ks.
     andThen (instance_id_from_session C sid) (\<lambda>inst.
       Inr (map_task (keyshare_as_slice D)
              (key_refresh_run D (two_party_setup inst) (random_seed x) (keyshare_for_refresh D old_ks))))))"

definition recover_opens ::
  "codecs \<Rightarrow> frost_lib \<Rightarrow> dkls_lib \<Rightarrow> string \<Rightarrow> bytes task \<Rightarrow> bytes list \<Rightarrow> bytes list \<Rightarrow> engine \<Rightarrow> bool"
where
  "recover_opens C F D sid t given got st' \<longleftrightarrow>
     (\<exists>x p share rv st r env. \<not> opt_share_is_ed25519 C (Some share)
        \<and> recover C F D x sid 1 p (Some share) rv st = Some (Inr r, st') \<and> recover_protocol C D x sid share = Inr t
        \<and> parse_server_envelope_batch C p = Inr (env, given) \<and> answers C (we_round env) r got)"

definition recover_goes_on ::
  "codecs \<Rightarrow> frost_lib \<Rightarrow> dkls_lib \<Rightarrow> string \<Rightarrow> engine \<Rightarrow> bytes list \<Rightarrow> bytes list \<Rightarrow> engine \<Rightarrow> bool"
where
  "recover_goes_on C F D sid st msgs batch st' \<longleftrightarrow>
     (\<exists>x rnd p share rv r env. rnd \<noteq> 0 \<and> rnd \<noteq> 1 \<and> frost_recovery_sessions st sid = None
        \<and> recover C F D x sid rnd p share rv st = Some (Inr r, st')
        \<and> parse_server_envelope_batch C p = Inr (env, msgs) \<and> answers C (we_round env) r batch)"

lemma recover_round1_Inr:
  assumes "recover_round1 C D x sid p (Some share) rv st = Some (Inr r, st')"
    and "parse_server_envelope_batch C p = Inr (env, msgs)" and "recover_protocol C D x sid share = Inr t"
  shows "\<exists>batch d l. exchange (cc_schedule x) (new_link t) msgs = Some (Inr (Some (batch, d)), l)
           \<and> make_in_progress_batch C sid Rotation (we_round env) batch = Inr r \<and> recover_link sid st' = Some l"
  using assms
  by (auto simp: recover_round1_def recover_protocol_def recover_link_def session_defs case_out attempt_eq_Some
      bind_eq_Some_conv Let_def)

lemma recover_advance_Inr:
  assumes "recover_advance C D x sid p st = Some (Inr r, st')" and "parse_server_envelope_batch C p = Inr (env, msgs)"
  shows "\<exists>l. recover_link sid st = Some l
    \<and> round_outcome (cc_schedule x) l msgs (make_in_progress_batch C sid Rotation (we_round env))
        (recovery_completed_reply C D x sid (we_round env) (rs_rotation_version (the (recovery_sessions st sid))))
        r (recover_link sid st')"
proof -
  obtain s where s: "recovery_sessions st sid = Some s" "\<not> elapsed (cc_now x) (rs_created_at s) > SESSION_TTL"
    using assms by (auto simp: recover_advance_def split: option.splits if_splits)
  obtain out l' where ex: "exchange (cc_schedule x) (rs_link s) msgs = Some (Inr out, l')"
    using assms s by (auto simp: recover_advance_def attempt_eq_Some bind_eq_Some_conv Let_def)
  show ?thesis
    using assms s ex
    by (cases out)
       (auto simp: round_outcome_def recover_advance_def recover_link_def session_defs join_result_def
          bind_eq_Some_conv Let_def split: if_splits)
qed

lemma recover_secp_rounds:
  "\<not> opt_share_is_ed25519 C share \<Longrightarrow> recover C F D x sid 1 p share rv st = recover_round1 C D x sid p share rv st"
  "rnd \<noteq> 0 \<Longrightarrow> rnd \<noteq> 1 \<Longrightarrow> frost_recovery_sessions st sid = None \<Longrightarrow>
     recover C F D x sid rnd p share rv st = recover_advance C D x sid p st"
  "frost_recovery_sessions st sid = None \<Longrightarrow> recover C F D x sid 0 p share rv st = recover_collect C D x sid st"
  by (simp_all add: recover_def frost_recovery_session_exists_def)

lemma recover_opens_exchange:
  assumes "json_law C" and "b64_law C" and "recover_opens C F D sid t given got st"
  shows "\<exists>sch d l. exchange sch (new_link t) given = Some (Inr (Some (got, d)), l) \<and> recover_link sid st = Some l"
proof -
  obtain x p share rv st0 r env where "recover_round1 C D x sid p (Some share) rv st0 = Some (Inr r, st)"
    and "parse_server_envelope_batch C p = Inr (env, given)" "recover_protocol C D x sid share = Inr t"
    and "answers C (we_round env) r got"
    using assms(3) unfolding recover_opens_def by (metis recover_secp_rounds(1))
  then show ?thesis by (intro first_round_opens [OF assms(1,2) recover_round1_Inr])
qed

lemma recover_goes_on_exchange:
  assumes "json_law C" and "b64_law C" and "recover_goes_on C F D sid st msgs batch st'"
  shows "\<exists>sch d l l'. recover_link sid st = Some l \<and> exchange sch l msgs = Some (Inr (Some (batch, d)), l')
    \<and> recover_link sid st' = Some l'"
proof -
  obtain x p r env where c: "recover_advance C D x sid p st = Some (Inr r, st')"
    "parse_server_envelope_batch C p = Inr (env, msgs)" "answers C (we_round env) r batch"
    using assms(3) unfolding recover_goes_on_def by (metis recover_secp_rounds(2))
  show ?thesis
    by (rule round_goes_on [OF assms(1,2) recover_advance_Inr [OF c(1,2)] c(3)]) (blast intro: completed_replies(2))
qed

interpretation recover_relay: relayed C "recover_link sid" "recover_opens C F D sid" "recover_goes_on C F D sid"
  for C F D sid
  by unfold_locales (rule recover_opens_exchange recover_goes_on_exchange; assumption)+

subsection \<open>Sign\<close>

definition sign_link :: "string \<Rightarrow> engine \<Rightarrow> (bytes \<times> byte) link option" where
  "sign_link sid st = map_option ss_link (sign_sessions st sid)"

text \<open>The protocol of a signature, for the keyshare and the digest of the first round.\<close>

definition sign_protocol ::
  "codecs \<Rightarrow> dkls_lib \<Rightarrow> call_ctx \<Rightarrow> string \<Rightarrow> string \<Rightarrow> string \<Rightarrow> (bytes \<times> byte) task res" where
  "sign_protocol C D x sid share hash_hex =
     andThen (message_digest_from_hex C hash_hex) (\<lambda>digest.
     andThen (share_envelope_decode C share) (\<lambda>(_, ks_bytes).
     andThen (ok_or (keyshare_from_bytes D ks_bytes) (Msg ''invalid keyshare bytes'')) (\<lambda>ks.
     andThen (instance_id_from_session C sid) (\<lambda>inst.
     andThen (wrap_err ''invalid derivation path'' (parse_derivation_path D ''m'')) (\<lambda>chain_path.
       Inr (map_task (sign_output D) (sign_run D
              \<lparr>ds_instance = inst, ds_party = 0, ds_verifying_keys = [0, 1], ds_keyshare = ks,
               ds_hash = into_bytes digest, ds_chain_path = chain_path\<rparr> (random_seed x))))))))"

definition sign_opens ::
  "codecs \<Rightarrow> frost_lib \<Rightarrow> dkls_lib \<Rightarrow> string \<Rightarrow> (bytes \<times> byte) task \<Rightarrow> bytes list \<Rightarrow> bytes list \<Rightarrow> engine
   \<Rightarrow> bool" where
  "sign_opens C F D sid t given got st' \<longleftrightarrow>
     (\<exists>x p share mh st r env. \<not> opt_share_is_ed25519 C (Some share)
        \<and> sign C F D x sid 1 p (Some share) (Some mh) st = Some (Inr r, st')
        \<and> sign_protocol C D x sid share mh = Inr t
        \<and> parse_server_envelope_batch C p = Inr (env, given) \<and> answers C (we_round env) r got)"

definition sign_goes_on ::
  "codecs \<Rightarrow> frost_lib \<Rightarrow> dkls_lib \<Rightarrow> string \<Rightarrow> engine \<Rightarrow> bytes list \<Rightarrow> bytes list \<Rightarrow> engine \<Rightarrow> bool"
where
  "sign_goes_on C F D sid st msgs batch st' \<longleftrightarrow>
     (\<exists>x rnd p share mh r env. rnd \<noteq> 1 \<and> frost_sign_sessions st sid = None
        \<and> sign C F D x sid rnd p share mh st = Some (Inr r, st')
        \<and> parse_server_envelope_batch C p = Inr (env, msgs) \<and> answers C (we_round env) r batch)"

lemma sign_round1_Inr:
  assumes "sign_round1 C D x sid p (Some share) (Some mh) st = Some (Inr r, st')"
    and "parse_server_envelope_batch C p = Inr (env, msgs)" and "sign_protocol C D x sid share mh = Inr t"
  shows "\<exists>batch d l. exchange (cc_schedule x) (new_link t) msgs = Some (Inr (Some (batch, d)), l)
           \<and> make_in_progress_batch C sid Dsg (we_round env) batch = Inr r \<and> sign_link sid st' = Some l"
  using assms
  by (auto simp: sign_round1_def sign_prepare_def sign_protocol_def sign_link_def session_defs case_out
      attempt_eq_Some bind_eq_Some_conv Let_def split: if_splits)

lemma sign_advance_Inr:
  assumes "sign_advance C x sid p st = Some (Inr r, st')" and "parse_server_envelope_batch C p = Inr (env, msgs)"
  shows "\<exists>l. sign_link sid st = Some l
    \<and> round_outcome (cc_schedule x) l msgs (make_in_progress_batch C sid Dsg (we_round env))
        (sign_completed_reply C (we_round env)) r (sign_link sid st')"
proof -
  obtain s where s: "sign_sessions st sid = Some s" "\<not> ss_consumed s"
    using assms by (auto simp: sign_advance_def attempt_eq_Some split: if_splits)
  obtain out l' where ex: "exchange (cc_schedule x) (ss_link s) msgs = Some (Inr out, l')"
    using assms s by (auto simp: sign_advance_def attempt_eq_Some bind_eq_Some_conv Let_def)
  show ?thesis
    using assms s ex
    by (cases out)
       (auto simp: round_outcome_def sign_advance_def sign_link_def session_defs join_result_def
          bind_eq_Some_conv Let_def split: if_splits)
qed

lemma sign_secp_rounds:
  "\<not> opt_share_is_ed25519 C share \<Longrightarrow> sign C F D x sid 1 p share mh st = sign_round1 C D x sid p share mh st"
  "rnd \<noteq> 1 \<Longrightarrow> frost_sign_sessions st sid = None \<Longrightarrow>
     sign C F D x sid rnd p share mh st = sign_advance C x sid p st"
  by (simp_all add: sign_def frost_sign_session_exists_def)

lemma sign_opens_exchange:
  assumes "json_law C" and "b64_law C" and "sign_opens C F D sid t given got st"
  shows "\<exists>sch d l. exchange sch (new_link t) given = Some (Inr (Some (got, d)), l) \<and> sign_link sid st = Some l"
proof -
  obtain x p share mh st0 r env where "sign_round1 C D x sid p (Some share) (Some mh) st0 = Some (Inr r, st)"
    and "parse_server_envelope_batch C p = Inr (env, given)" "sign_protocol C D x sid share mh = Inr t"
    and "answers C (we_round env) r got"
    using assms(3) unfolding sign_opens_def by (metis sign_secp_rounds(1))
  then show ?thesis by (intro first_round_opens [OF assms(1,2) sign_round1_Inr])
qed

lemma sign_goes_on_exchange:
  assumes "json_law C" and "b64_law C" and "sign_goes_on C F D sid st msgs batch st'"
  shows "\<exists>sch d l l'. sign_link sid st = Some l \<and> exchange sch l msgs = Some (Inr (Some (batch, d)), l')
    \<and> sign_link sid st' = Some l'"
proof -
  obtain x p r env where c: "sign_advance C x sid p st = Some (Inr r, st')"
    "parse_server_envelope_batch C p = Inr (env, msgs)" "answers C (we_round env) r batch"
    using assms(3) unfolding sign_goes_on_def by (metis sign_secp_rounds(2))
  show ?thesis
    by (rule round_goes_on [OF assms(1,2) sign_advance_Inr [OF c(1,2)] c(3)]) (blast intro: completed_replies(3))
qed

interpretation sign_relay: relayed C "sign_link sid" "sign_opens C F D sid" "sign_goes_on C F D sid"
  for C F D sid
  by unfold_locales (rule sign_opens_exchange sign_goes_on_exchange; assumption)+

section \<open>Properties\<close>

text \<open>The conversations of the three operations.\<close>

abbreviation keygen_dialog where
  "keygen_dialog C F D sid \<equiv> dialog (keygen_link sid) (keygen_opens C F D sid) (keygen_goes_on C F D sid)"

abbreviation recover_dialog where
  "recover_dialog C F D sid \<equiv> dialog (recover_link sid) (recover_opens C F D sid) (recover_goes_on C F D sid)"

abbreviation sign_dialog where
  "sign_dialog C F D sid \<equiv> dialog (sign_link sid) (sign_opens C F D sid) (sign_goes_on C F D sid)"

text \<open>Calls of other operations, or for other sessions, leave the link of a session as it is.\<close>

lemma other_calls_keep_links:
  assumes "perform W x c st = Some (r, st')"
  shows "(\<forall>rnd p. c \<noteq> CallKeygen sid rnd p \<and> c \<noteq> CallFrostKeygen sid rnd p) \<Longrightarrow>
           keygen_link sid st' = keygen_link sid st"
    and "(\<forall>rnd p share rv. c \<noteq> CallRecover sid rnd p share rv \<and> c \<noteq> CallFrostRecover sid rnd p share rv) \<Longrightarrow>
           recover_link sid st' = recover_link sid st"
    and "(\<forall>rnd p share mh. c \<noteq> CallSign sid rnd p share mh \<and> c \<noteq> CallFrostSign sid rnd p share mh) \<Longrightarrow>
           sign_link sid st' = sign_link sid st"
  using perform_frame [OF assms]
  by (cases c; auto simp: frame_defs export_frame_def keygen_link_def recover_link_def sign_link_def)+

text \<open>An example: a key generation of two rounds.\<close>

definition ex_id :: string where
  "ex_id = hex_encode ex_codecs (replicate 32 1)"

lemma ex_secp_envelope:
  obtains p env where "parse_server_envelope_batch ex_codecs p = Inr (env, [[9]])"
    "detect_curve_from_envelope ex_codecs p \<noteq> Ed25519"
proof -
  obtain p where p: "parse_server_envelope_batch ex_codecs p =
      Inr ((batch_env ex_codecs ''k'' Dkg 1 [[9]])\<lparr>we_from_id := 1\<rparr>, [[9]])"
    using ex_server_envelope by blast
  then have "detect_curve_from_envelope ex_codecs p \<noteq> Ed25519"
    by (auto simp: parse_server_envelope_batch_def detect_curve_from_envelope_def curve_or_default_def batch_env_def
        wire_envelope_new_batch_def split: if_splits)
  with p show thesis by (rule that)
qed

lemma ex_keygen_dialog:
  obtains t p env st where "keygen_dialog ex_codecs ex_frost ex_dkls ex_id t [[9]] [[1]] st"
    and "parse_server_envelope_batch ex_codecs p = Inr (env, [[9]])" and "frost_keygen_sessions st ex_id = None"
    and "keygen_sessions st ex_id = Some \<lparr>ks_link = \<lparr>inq = [], tx_open = True, outq = [], permit = False,
      waiter = NoWaiter, prog = Await (\<lambda>_. Finished (Inr ex_ks))\<rparr>, ks_has_task = True\<rparr>"
    and "frost_recovery_sessions st ex_id = None" and "frost_sign_sessions st ex_id = None"
proof -
  obtain p env where p: "parse_server_envelope_batch ex_codecs p = Inr (env, [[9]])"
    "detect_curve_from_envelope ex_codecs p \<noteq> Ed25519"
    by (rule ex_secp_envelope)
  obtain r where r: "make_in_progress_batch ex_codecs ex_id Dkg (we_round env) [[1]] = Inr r"
    using batch_reads [OF ex_json_law] by blast
  have lib: "dkg_run ex_dkls su seed = ex_run [1] (Keyshare ex_ks)" "cc_schedule (ex_ctx sch) = sch"
    "keyshare_as_slice ex_dkls (Keyshare ex_ks) = ex_ks" for su seed sch
    by (simp_all add: ex_dkls_def ex_ctx_def)
  obtain inst where inst: "instance_id_from_session ex_codecs ex_id = Inr inst"
    by (simp add: ex_id_def instance_id_from_session_def codec_simps ex_laws try_into_array_def)
  obtain t where t: "keygen_protocol ex_codecs ex_dkls (ex_ctx ex_schedule) ex_id = Inr t"
    using inst by (simp add: keygen_protocol_def)
  define st where "st = insert_keygen_session ex_id \<lparr>ks_link = \<lparr>inq = [], tx_open = True, outq = [], permit = False,
      waiter = NoWaiter, prog = Await (\<lambda>_. Finished (Inr ex_ks))\<rparr>, ks_has_task = True\<rparr> init_engine"
  have "keygen ex_codecs ex_frost ex_dkls (ex_ctx ex_schedule) ex_id 1 p init_engine = Some (Inr r, st)"
    using p r inst
    by (simp add: keygen_secp_rounds keygen_round1_def lib ex_exchange_new st_def)
  with t p answers_batch [OF ex_json_law ex_b64_law r]
  have "keygen_opens ex_codecs ex_frost ex_dkls ex_id t [[9]] [[1]] st"
    unfolding keygen_opens_def by blast
  then show thesis
    by (intro that [of t st p env] Dialog_open p(1)) (simp_all add: st_def session_defs init_engine_def)
qed

text \<open>
  Property C16: a session of the secp256k1 path says what its protocol says. However the task is
  scheduled and whatever else happens to the engine, the protocol that the first round set up has
  read the server's messages of all rounds in their order, up to those queued for it, and the
  messages in the answers of all rounds, with those still queued, are in order what it has sent,
  as if it were run by itself on these messages; the session keeps its sender.
\<close>

theorem sessions_speak_for_protocols:
  assumes "json_law C" and "b64_law C"
  shows "(keygen_dialog C F D k tk gk ak st \<longrightarrow>
            (\<exists>l ins. keygen_link k st = Some l \<and> tx_open l \<and> gk = ins @ inq l
               \<and> speaks False tk ins (ak @ outq l) (prog l)))
       \<and> (recover_dialog C F D r tr gr ar st \<longrightarrow>
            (\<exists>l ins. recover_link r st = Some l \<and> tx_open l \<and> gr = ins @ inq l
               \<and> speaks False tr ins (ar @ outq l) (prog l)))
       \<and> (sign_dialog C F D s ts gs as st \<longrightarrow>
            (\<exists>l ins. sign_link s st = Some l \<and> tx_open l \<and> gs = ins @ inq l
               \<and> speaks False ts ins (as @ outq l) (prog l)))"
  using keygen_relay.dialog_relays [OF assms, where sid = k and t = tk] recover_relay.dialog_relays [OF assms, where sid = r and t = tr]
    sign_relay.dialog_relays [OF assms, where sid = s and t = ts]
  unfolding relays_def by blast

theorem sessions_speak_for_protocols_witness:
  "\<exists>t st l ins. keygen_dialog ex_codecs ex_frost ex_dkls ex_id t [[9]] [[1]] st \<and> keygen_link ex_id st = Some l
     \<and> [[9]] = ins @ inq l \<and> speaks False t ins ([[1]] @ outq l) (prog l)"
proof -
  obtain t st where d: "keygen_dialog ex_codecs ex_frost ex_dkls ex_id t [[9]] [[1]] st"
    by (rule ex_keygen_dialog)
  from sessions_speak_for_protocols [OF ex_json_law ex_b64_law, THEN conjunct1, rule_format, OF d] d
  show ?thesis by blast
qed

text \<open>The collect mode: the join of the session's task, with the sender dropped.\<close>

lemma keygen_collect_Inr:
  "keygen_collect C D sid st = Some (Inr r, st') \<Longrightarrow>
     \<exists>l v. keygen_link sid st = Some l \<and> join_link (l\<lparr>tx_open := False\<rparr>) = Some (Inr (Inr v))
       \<and> keygen_completed_reply C D sid 0 v = Inr r"
  by (cases "keygen_sessions st sid")
     (auto simp: keygen_collect_def keygen_link_def session_defs join_result_def bind_eq_Some_conv Let_def split: if_splits)

lemma recover_collect_Inr:
  "recover_collect C D x sid st = Some (Inr r, st') \<Longrightarrow>
     \<exists>l v. recover_link sid st = Some l \<and> join_link (l\<lparr>tx_open := False\<rparr>) = Some (Inr (Inr v))
       \<and> recovery_completed_reply C D x sid 0 (rs_rotation_version (the (recovery_sessions st sid))) v = Inr r"
  by (cases "recovery_sessions st sid")
     (auto simp: recover_collect_def recover_link_def session_defs join_result_def bind_eq_Some_conv Let_def split: if_splits)

lemma keygen_ends:
  assumes "json_law C" and "b64_law C" and "keygen_dialog C F D k t given got st"
    and "keygen C F D x k rnd p st = Some (Inr r, st')" and "keygen_sessions st' k = None"
    and "rnd \<noteq> 1" and "parse_server_envelope_batch C p = Inr (env, msgs)" and "frost_keygen_sessions st k = None"
  shows "\<exists>ins outs v. speaks (rnd = 0) t ins outs (Finished (Inr v))
     \<and> (if rnd = 0 then prefix ins given \<and> prefix got outs \<and> keygen_completed_reply C D k 0 v = Inr r
        else prefix ins (given @ msgs) \<and> outs = got \<and> keygen_completed_reply C D k (we_round env) v = Inr r)"
proof (cases "rnd = 0")
  case True
  with assms(4,8) have "keygen_collect C D k st = Some (Inr r, st')" by (simp add: keygen_secp_rounds)
  then obtain l v where "keygen_link k st = Some l" "join_link (l\<lparr>tx_open := False\<rparr>) = Some (Inr (Inr v))"
    "keygen_completed_reply C D k 0 v = Inr r" using keygen_collect_Inr by blast
  with True keygen_relay.dialog_joined [OF assms(1-3) this(1,2)] show ?thesis by auto
next
  case False
  with assms(4,6,8) have "keygen_advance C D x k p st = Some (Inr r, st')" by (simp add: keygen_secp_rounds)
  from keygen_advance_Inr [OF this assms(7)] obtain l where l: "keygen_link k st = Some l"
    and o: "round_outcome (cc_schedule x) l msgs (make_in_progress_batch C k Dkg (we_round env))
      (keygen_completed_reply C D k (we_round env)) r None"
    using assms(5) by (auto simp: keygen_link_def)
  from round_outcome_done [OF o] obtain l' v where "exchange (cc_schedule x) l msgs = Some (Inr None, l')"
    "join_link l' = Some (Inr (Inr v))" "keygen_completed_reply C D k (we_round env) v = Inr r" by blast
  with False keygen_relay.dialog_done [OF assms(1-3) l this(1,2)] show ?thesis by auto
qed

lemma recover_ends:
  assumes "json_law C" and "b64_law C" and "recover_dialog C F D q t given got st"
    and "recover C F D x q rnd p share rv st = Some (Inr r, st')" and "recovery_sessions st' q = None"
    and "rnd \<noteq> 1" and "parse_server_envelope_batch C p = Inr (env, msgs)" and "frost_recovery_sessions st q = None"
  shows "\<exists>ins outs v. speaks (rnd = 0) t ins outs (Finished (Inr v))
     \<and> (let version = rs_rotation_version (the (recovery_sessions st q)) in
        if rnd = 0 then prefix ins given \<and> prefix got outs \<and> recovery_completed_reply C D x q 0 version v = Inr r
        else prefix ins (given @ msgs) \<and> outs = got
          \<and> recovery_completed_reply C D x q (we_round env) version v = Inr r)"
proof (cases "rnd = 0")
  case True
  with assms(4,8) have "recover_collect C D x q st = Some (Inr r, st')" by (simp add: recover_secp_rounds)
  then obtain l v where "recover_link q st = Some l" "join_link (l\<lparr>tx_open := False\<rparr>) = Some (Inr (Inr v))"
    "recovery_completed_reply C D x q 0 (rs_rotation_version (the (recovery_sessions st q))) v = Inr r"
    using recover_collect_Inr by blast
  with True recover_relay.dialog_joined [OF assms(1-3) this(1,2)] show ?thesis by (auto simp: Let_def)
next
  case False
  with assms(4,6,8) have "recover_advance C D x q p st = Some (Inr r, st')" by (simp add: recover_secp_rounds)
  from recover_advance_Inr [OF this assms(7)] obtain l where l: "recover_link q st = Some l"
    and o: "round_outcome (cc_schedule x) l msgs (make_in_progress_batch C q Rotation (we_round env))
      (recovery_completed_reply C D x q (we_round env) (rs_rotation_version (the (recovery_sessions st q)))) r None"
    using assms(5) by (auto simp: recover_link_def)
  from round_outcome_done [OF o] obtain l' v where "exchange (cc_schedule x) l msgs = Some (Inr None, l')"
    "join_link l' = Some (Inr (Inr v))"
    "recovery_completed_reply C D x q (we_round env) (rs_rotation_version (the (recovery_sessions st q))) v = Inr r"
    by blast
  with False recover_relay.dialog_done [OF assms(1-3) l this(1,2)] show ?thesis by (auto simp: Let_def)
qed

lemma sign_ends:
  assumes "json_law C" and "b64_law C" and "sign_dialog C F D sid t given got st"
    and "sign C F D x sid rnd p share mh st = Some (Inr r, st')" and "sign_sessions st' sid = None"
    and "rnd \<noteq> 1" and "parse_server_envelope_batch C p = Inr (env, msgs)" and "frost_sign_sessions st sid = None"
  shows "\<exists>ins v. speaks False t ins got (Finished (Inr v)) \<and> prefix ins (given @ msgs)
     \<and> sign_completed_reply C (we_round env) v = Inr r"
proof -
  from assms(4,6,8) have "sign_advance C x sid p st = Some (Inr r, st')" by (simp add: sign_secp_rounds)
  from sign_advance_Inr [OF this assms(7)] obtain l where l: "sign_link sid st = Some l"
    and o: "round_outcome (cc_schedule x) l msgs (make_in_progress_batch C sid Dsg (we_round env))
      (sign_completed_reply C (we_round env)) r None"
    using assms(5) by (auto simp: sign_link_def)
  from round_outcome_done [OF o] obtain l' v where "exchange (cc_schedule x) l msgs = Some (Inr None, l')"
    "join_link l' = Some (Inr (Inr v))" "sign_completed_reply C (we_round env) v = Inr r" by blast
  with sign_relay.dialog_done [OF assms(1-3) l this(1,2)] show ?thesis by blast
qed

text \<open>
  Property C17: the conversation ends with the protocol's own result. When a later round answers and
  closes the session, the protocol, by itself, has sent exactly the messages of the answers, has
  read no more than the server's messages, and has finished with the value that the completed
  payload is made of; in collect mode it has finished with it after the end of its input.
\<close>

theorem dialogs_end_with_results:
  assumes "json_law C" and "b64_law C" and "rnd \<noteq> 1" and "parse_server_envelope_batch C p = Inr (env, msgs)"
    and "frost_keygen_sessions st k = None" and "frost_recovery_sessions st r = None"
    and "frost_sign_sessions st s = None"
  shows "(keygen_dialog C F D k tk gk ak st \<longrightarrow> keygen C F D x k rnd p st = Some (Inr kg, st') \<longrightarrow>
            keygen_sessions st' k = None \<longrightarrow>
            (\<exists>ins outs v. speaks (rnd = 0) tk ins outs (Finished (Inr v))
               \<and> (if rnd = 0 then prefix ins gk \<and> prefix ak outs \<and> keygen_completed_reply C D k 0 v = Inr kg
                  else prefix ins (gk @ msgs) \<and> outs = ak \<and> keygen_completed_reply C D k (we_round env) v = Inr kg)))
       \<and> (recover_dialog C F D r tr gr ar st \<longrightarrow> recover C F D x r rnd p share rv st = Some (Inr rc, st') \<longrightarrow>
            recovery_sessions st' r = None \<longrightarrow>
            (\<exists>ins outs v. speaks (rnd = 0) tr ins outs (Finished (Inr v))
               \<and> (let version = rs_rotation_version (the (recovery_sessions st r)) in
                  if rnd = 0 then prefix ins gr \<and> prefix ar outs
                    \<and> recovery_completed_reply C D x r 0 version v = Inr rc
                  else prefix ins (gr @ msgs) \<and> outs = ar
                    \<and> recovery_completed_reply C D x r (we_round env) version v = Inr rc)))
       \<and> (sign_dialog C F D s ts gs as st \<longrightarrow> sign C F D x s rnd p share mh st = Some (Inr sg, st') \<longrightarrow>
            sign_sessions st' s = None \<longrightarrow>
            (\<exists>ins v. speaks False ts ins as (Finished (Inr v)) \<and> prefix ins (gs @ msgs)
               \<and> sign_completed_reply C (we_round env) v = Inr sg))"
proof (intro conjI impI)
qed (rule keygen_ends [OF assms(1,2) _ _ _ assms(3-5)] recover_ends [OF assms(1,2) _ _ _ assms(3,4,6)]
    sign_ends [OF assms(1,2) _ _ _ assms(3,4,7)]; assumption)+

lemma ex_keygen_completed: "\<exists>r. keygen_completed_reply ex_codecs ex_dkls sid rnd ex_ks = Inr r"
proof -
  have lib: "keyshare_from_bytes ex_dkls ex_ks = Some (Keyshare ex_ks)"
    "encoded_point ex_dkls (public_key ex_dkls (Keyshare ex_ks)) False = 4 # replicate 64 6"
    by (simp_all add: ex_dkls_def)
  then obtain addr where "extract_pubkey_and_address ex_codecs ex_dkls ex_ks =
      Inr (addr, hex_encode ex_codecs (4 # replicate 64 6), 4 # replicate 64 6)"
    using extract_address [OF lib] by fastforce
  then show ?thesis
    using completed_reads [OF ex_json_law payload_json_plain(3)]
    by (fastforce simp: keygen_completed_reply_def make_completed_def)
qed

theorem dialogs_end_with_results_witness:
  "\<exists>t p r st st' ins v. keygen_dialog ex_codecs ex_frost ex_dkls ex_id t [[9]] [[1]] st
     \<and> keygen ex_codecs ex_frost ex_dkls (ex_ctx [Caller, Task, Caller, Caller]) ex_id 2 p st = Some (Inr r, st')
     \<and> speaks False t ins [[1]] (Finished (Inr v))"
proof -
  obtain t p env st where d: "keygen_dialog ex_codecs ex_frost ex_dkls ex_id t [[9]] [[1]] st"
    and p: "parse_server_envelope_batch ex_codecs p = Inr (env, [[9]])" and frost: "frost_keygen_sessions st ex_id = None"
      "frost_recovery_sessions st ex_id = None" "frost_sign_sessions st ex_id = None"
    and s: "keygen_sessions st ex_id = Some \<lparr>ks_link = \<lparr>inq = [], tx_open = True, outq = [], permit = False,
      waiter = NoWaiter, prog = Await (\<lambda>_. Finished (Inr ex_ks))\<rparr>, ks_has_task = True\<rparr>"
    by (rule ex_keygen_dialog)
  let ?x = "ex_ctx [Caller, Task, Caller, Caller]"
  obtain r where r: "keygen_completed_reply ex_codecs ex_dkls ex_id (we_round env) ex_ks = Inr r"
    using ex_keygen_completed by blast
  obtain st' where run: "keygen ex_codecs ex_frost ex_dkls ?x ex_id 2 p st = Some (Inr r, st')" "keygen_sessions st' ex_id = None"
    using p s r frost
    by (simp add: keygen_secp_rounds keygen_advance_def exchange_def in_capacity_def collect_batch_def
        collect_loop.simps enable_def task_step_def poll_next_def ex_ctx_def session_defs join_link_def join_result_def Let_def)
  from dialogs_end_with_results [OF ex_json_law ex_b64_law _ p frost(1,2,3), THEN conjunct1, rule_format, OF _ d run]
  have "\<exists>ins v. speaks False t ins [[1]] (Finished (Inr v))" by auto
  with d run(1) show ?thesis by blast
qed

end
