(* ===== verification/Progress.thy ===== *)
theory Progress
  imports Dialog
begin

text \<open>
  Conversations that come to their end. \<open>round_of\<close> is what a protocol does by itself with the
  messages of one round, \<open>None\<close> when the round never ends; if it plays its rounds within the capacity of the channels, then there
  are schedules on which every call of keygen, recover and sign returns, with the protocol's
  messages, and the last one with its result. The locale \<open>steady\<close> holds what this needs of the
  later rounds of an operation.
\<close>

section \<open>The rounds of a protocol\<close>

partial_function (option) round_of :: "'r task \<Rightarrow> bytes list \<Rightarrow> (bytes list \<times> 'r task) option" where
  "round_of t ins =
     (case t of
        Emit m k \<Rightarrow> Option.bind (round_of (k True) ins) (\<lambda>(outs, u). Some (m # outs, u))
      | Await k \<Rightarrow> (case ins of [] \<Rightarrow> Some ([], Await k) | m # ms \<Rightarrow> round_of (k (Some m)) ms)
      | Finished r \<Rightarrow> Some ([], Finished r)
      | Crashed e \<Rightarrow> Some ([], Crashed e))"

lemma round_of_simps [simp]:
  "round_of (Emit m k) ins = Option.bind (round_of (k True) ins) (\<lambda>(outs, u). Some (m # outs, u))"
  "round_of (Await k') ins = (case ins of [] \<Rightarrow> Some ([], Await k') | m # ms \<Rightarrow> round_of (k' (Some m)) ms)"
  "round_of (Finished r) ins = Some ([], Finished r)"
  "round_of (Crashed e) ins = Some ([], Crashed e)"
  by (subst round_of.simps, simp)+

text \<open>A round that ends, by induction on the steps of the protocol.\<close>

lemma round_induct [consumes 1, case_names send poll read finished crashed]:
  assumes "round_of t ins = Some (outs, u)"
    and "\<And>m k ins outs u. round_of (k True) ins = Some (outs, u) \<Longrightarrow> P (k True) ins outs u \<Longrightarrow>
      P (Emit m k) ins (m # outs) u"
    and "\<And>k'. P (Await k') [] [] (Await k')"
    and "\<And>k' m ins outs u. round_of (k' (Some m)) ins = Some (outs, u) \<Longrightarrow> P (k' (Some m)) ins outs u \<Longrightarrow>
      P (Await k') (m # ins) outs u"
    and "\<And>r ins. P (Finished r) ins [] (Finished r)" and "\<And>e ins. P (Crashed e) ins [] (Crashed e)"
  shows "P t ins outs u"
proof -
  have "round_of t ins = Some (outs, u) \<and> (case (outs, u) of (outs, u) \<Rightarrow> P t ins outs u)"
  proof (rule round_of.raw_induct [where P = "\<lambda>t ins y. round_of t ins = Some y
      \<and> (case y of (outs, u) \<Rightarrow> P t ins outs u)", OF _ assms(1)])
    fix f :: "'a task \<Rightarrow> bytes list \<Rightarrow> (bytes list \<times> 'a task) option" and t ins y
    assume IH: "\<And>t ins y. f t ins = Some y \<Longrightarrow>
        round_of t ins = Some y \<and> (case y of (outs, u) \<Rightarrow> P t ins outs u)"
      and run: "(case t of
          Emit m k \<Rightarrow> Option.bind (f (k True) ins) (\<lambda>(outs, u). Some (m # outs, u))
        | Await k \<Rightarrow> (case ins of [] \<Rightarrow> Some ([], Await k) | m # ms \<Rightarrow> f (k (Some m)) ms)
        | Finished r \<Rightarrow> Some ([], Finished r)
        | Crashed e \<Rightarrow> Some ([], Crashed e)) = Some y"
    show "round_of t ins = Some y \<and> (case y of (outs, u) \<Rightarrow> P t ins outs u)"
    proof (cases t)
      case (Emit m k)
      with run obtain o' u where y: "f (k True) ins = Some (o', u)" "y = (m # o', u)"
        by (auto simp: bind_eq_Some_conv)
      from IH [OF y(1)] assms(2) [of k ins o' u m] y(2) Emit show ?thesis by simp
    next
      case (Await k)
      show ?thesis
      proof (cases ins)
        case (Cons m ms)
        with run Await have "f (k (Some m)) ms = Some y" by simp
        from IH [OF this] assms(4) [of k m ms "fst y" "snd y"] Cons Await show ?thesis
          by (cases y) simp
      qed (use run Await assms(3) in auto)
    qed (use run assms(5,6) in auto)
  qed
  then show ?thesis by simp
qed

text \<open>A round is what the protocol says by itself; it reads at most the messages of the round.\<close>

lemma round_speaks:
  "round_of u msgs = Some (a, u') \<Longrightarrow> speaks False t ins outs u \<Longrightarrow>
     \<exists>ins'. prefix ins' msgs \<and> speaks False t (ins @ ins') (outs @ a) u'"
proof (induction arbitrary: ins outs rule: round_induct)
  case (send m k msgs a u)
  from send.IH [OF Speaks_send [OF send.prems]] show ?case by simp
next
  case (read k m msgs a u)
  from read.IH [OF Speaks_read [OF read.prems]] obtain ins' where
    "prefix ins' msgs" "speaks False t (ins @ m # ins') (outs @ a) u" by auto
  then show ?case by (metis Cons_prefix_Cons)
qed (auto intro!: exI [of _ "[]"])

text \<open>
  The protocol answers the batches of the server, each with some messages and then waiting for the
  next, until it finishes with \<open>v\<close> on the last one; no batch is more than its channel takes.
\<close>

fun plays :: "'r task \<Rightarrow> bytes list list \<Rightarrow> bytes list list \<Rightarrow> 'r \<Rightarrow> bool" where
  "plays t [] answered v = False"
| "plays t (b # bs) [] v \<longleftrightarrow>
     bs = [] \<and> length b \<le> in_capacity \<and> awaiting t \<and> round_of t b = Some ([], Finished (Inr v))"
| "plays t (b # bs) (a # as) v \<longleftrightarrow>
     length b \<le> in_capacity \<and> \<not> task_done t \<and> a \<noteq> [] \<and> length a \<le> out_capacity
     \<and> (case round_of t b of
          None \<Rightarrow> False
        | Some (outs, u) \<Rightarrow> outs = a \<and> awaiting u \<and> plays u bs as v)"

lemma task_round:
  "round_of t ins = Some (a, u) \<Longrightarrow> prog l = t \<Longrightarrow> inq l = ins \<Longrightarrow> length (outq l) + length a \<le> out_capacity \<Longrightarrow>
     \<exists>n. prog ((task_step ^^ n) l) = u \<and> outq ((task_step ^^ n) l) = outq l @ a
       \<and> (awaiting u \<longrightarrow> inq ((task_step ^^ n) l) = [])"
proof (induction arbitrary: l rule: round_induct)
  case (send m k ins a u)
  let ?l = "task_step l"
  have l: "prog ?l = k True" "inq ?l = ins" "outq ?l = outq l @ [m]"
    using send.prems by (simp_all add: task_step_def start_send_def split: prod.splits)
  obtain n where "prog ((task_step ^^ n) ?l) = u" "outq ((task_step ^^ n) ?l) = outq ?l @ a"
    "awaiting u \<longrightarrow> inq ((task_step ^^ n) ?l) = []"
    using send.IH [OF l(1,2)] send.prems l by auto
  then show ?case using l by (intro exI [of _ "Suc n"]) (simp add: funpow_swap1)
next
  case (read k m ins a u)
  let ?l = "task_step l"
  have l: "prog ?l = k (Some m)" "inq ?l = ins" "outq ?l = outq l"
    using read.prems by (simp_all add: task_step_def poll_next_def)
  obtain n where "prog ((task_step ^^ n) ?l) = u" "outq ((task_step ^^ n) ?l) = outq ?l @ a"
    "awaiting u \<longrightarrow> inq ((task_step ^^ n) ?l) = []"
    using read.IH [OF l(1,2)] read.prems l by auto
  then show ?case using l by (intro exI [of _ "Suc n"]) (simp add: funpow_swap1)
qed (intro exI [of _ 0]; simp)+

section \<open>Exchanges that return\<close>

lemma inject_callers:
  "\<not> task_done (prog l) \<Longrightarrow> length (inq l) + length ms \<le> in_capacity \<Longrightarrow>
     inject_all (replicate (length ms) Caller @ sch) l ms = Some (Inr (), l\<lparr>inq := inq l @ ms\<rparr>, sch)"
  by (induction ms arbitrary: l) simp_all

text \<open>A link between two rounds: nothing is queued either way.\<close>

definition between_rounds :: "'r task \<Rightarrow> 'r link \<Rightarrow> bool" where
  "between_rounds t l \<longleftrightarrow> prog l = t \<and> inq l = [] \<and> outq l = [] \<and> tx_open l"

lemma between_new: "between_rounds t (new_link t)"
  by (simp add: between_rounds_def new_link_def)

lemma exchange_round:
  assumes "between_rounds t l" and "\<not> task_done t" and "length b \<le> in_capacity"
    and "round_of t b = Some (a, u)" and "a \<noteq> []" and "length a \<le> out_capacity" and "awaiting u"
  shows "\<exists>sch d l'. exchange sch l b = Some (Inr (Some (a, d)), l') \<and> between_rounds u l'"
proof -
  have t: "prog l = t" "inq l = []" "outq l = []" "tx_open l" using assms(1) by (simp_all add: between_rounds_def)
  let ?l1 = "enable (l\<lparr>inq := b\<rparr>)"
  have "\<exists>n. prog ((task_step ^^ n) ?l1) = u \<and> outq ((task_step ^^ n) ?l1) = a \<and> inq ((task_step ^^ n) ?l1) = []"
    using task_round [OF assms(4), of ?l1] assms(6,7) t by simp
  then obtain n where n: "prog ((task_step ^^ n) ?l1) = u" "outq ((task_step ^^ n) ?l1) = a"
    "inq ((task_step ^^ n) ?l1) = []" by blast
  let ?l2 = "(task_step ^^ n) ?l1"
  have w: "waiter ?l2 \<noteq> NoWaiter" by (rule task_steps_waiter) (simp add: enable_def)
  have "parked ?l2" using n t(4) assms(7) by (simp add: parked_def)
  from collect_waiting_returns [OF this _ w] n(2) assms(5) obtain l' where
    "collect_loop (Task # replicate (length a + 2) Caller) ?l2 First = Some (Some (a, False), l', [])"
    "prog l' = u \<and> inq l' = [] \<and> outq l' = [] \<and> tx_open l'" using n t by auto
  moreover have "inject_all (replicate (length b) Caller @ sch) l b = Some (Inr (), l\<lparr>inq := b\<rparr>, sch)" for sch
    using inject_callers [of l b sch] assms(2,3) t by simp
  ultimately show ?thesis
    by (intro exI [of _ "replicate (length b) Caller @ Caller # replicate n Task @ Task # replicate (length a + 2) Caller"]
        exI [of _ False] exI [of _ l'])
       (simp add: exchange_def collect_batch_def collect_loop_move collect_loop_tasks between_rounds_def)
qed

lemma exchange_end:
  assumes "between_rounds t l" and "awaiting t" and "length b \<le> in_capacity"
    and "round_of t b = Some ([], Finished (Inr v))"
  shows "\<exists>sch l'. exchange sch l b = Some (Inr None, l') \<and> join_link l' = Some (Inr (Inr v))"
proof -
  have t: "prog l = t" "inq l = []" "outq l = []" using assms(1) by (simp_all add: between_rounds_def)
  have nd: "\<not> task_done t" using assms(2) by (cases t) simp_all
  let ?l1 = "enable (l\<lparr>inq := b\<rparr>)"
  have "\<exists>n. prog ((task_step ^^ n) ?l1) = Finished (Inr v) \<and> outq ((task_step ^^ n) ?l1) = []"
    using task_round [OF assms(4), of ?l1] t by simp
  then obtain n where n: "prog ((task_step ^^ n) ?l1) = Finished (Inr v)" "outq ((task_step ^^ n) ?l1) = []" by blast
  let ?l2 = "(task_step ^^ n) ?l1"
  have "collect_loop [Caller] ?l2 First = Some (None, ?l2\<lparr>waiter := NoWaiter\<rparr>, [])"
    using n by (simp add: collect_loop_move)
  moreover have "inject_all (replicate (length b) Caller @ sch) l b = Some (Inr (), l\<lparr>inq := b\<rparr>, sch)" for sch
    using inject_callers [of l b sch] nd assms(3) t by simp
  ultimately show ?thesis
    by (intro exI [of _ "replicate (length b) Caller @ Caller # replicate n Task @ [Caller]"] exI [of _ "?l2\<lparr>waiter := NoWaiter\<rparr>"])
       (simp add: exchange_def collect_batch_def collect_loop_move collect_loop_tasks n join_link_def)
qed

section \<open>A permit left from before\<close>

text \<open>On the way through a round, any part of what the protocol sends in it has been sent at some step.\<close>

lemma task_part_round:
  "round_of t ins = Some (a, u) \<Longrightarrow> prog l = t \<Longrightarrow> inq l = ins \<Longrightarrow> length (outq l) + length a \<le> out_capacity \<Longrightarrow>
     a = a1 @ a2 \<Longrightarrow>
     \<exists>n. outq ((task_step ^^ n) l) = outq l @ a1
       \<and> round_of (prog ((task_step ^^ n) l)) (inq ((task_step ^^ n) l)) = Some (a2, u)"
proof (induction arbitrary: l a1 rule: round_induct)
  case (send m k ins a u)
  show ?case
  proof (cases a1)
    case Nil
    with send show ?thesis by (intro exI [of _ 0]) simp
  next
    case (Cons m' a1')
    let ?l = "task_step l"
    have "length (outq l) < out_capacity" using send.prems(3) by simp
    then have l: "prog ?l = k True" "inq ?l = ins" "outq ?l = outq l @ [m]"
      using send.prems(1,2) by (simp_all add: task_step_def start_send_def split: prod.splits)
    obtain n where "outq ((task_step ^^ n) ?l) = outq ?l @ a1'"
      "round_of (prog ((task_step ^^ n) ?l)) (inq ((task_step ^^ n) ?l)) = Some (a2, u)"
      using send.IH [OF l(1,2), of a1'] send.prems l Cons by auto
    then show ?thesis using l Cons send.prems(4) by (intro exI [of _ "Suc n"]) (simp add: funpow_swap1)
  qed
next
  case (read k m ins a u)
  let ?l = "task_step l"
  have l: "prog ?l = k (Some m)" "inq ?l = ins" "outq ?l = outq l"
    using read.prems by (simp_all add: task_step_def poll_next_def)
  obtain n where "outq ((task_step ^^ n) ?l) = outq ?l @ a1"
    "round_of (prog ((task_step ^^ n) ?l)) (inq ((task_step ^^ n) ?l)) = Some (a2, u)"
    using read.IH [OF l(1,2), of a1] read.prems l by auto
  then show ?case using l by (intro exI [of _ "Suc n"]) (simp add: funpow_swap1)
qed (intro exI [of _ 0]; simp)+

lemma task_steps_notified: "waiter l = Notified \<Longrightarrow> waiter ((task_step ^^ n) l) = Notified"
  by (induction n)
     (auto simp: task_step_def start_send_def poll_next_def notify_one_def
        split: task.split list.split waiter.split)

lemma collect_notified:
  assumes "waiter l = Notified" and "outq l \<noteq> []"
  shows "collect_loop (replicate (length (outq l) + 2) Caller) l First =
    Some (Some (outq l, False), l\<lparr>outq := [], waiter := NoWaiter\<rparr>, [])"
proof -
  obtain m q where q: "outq l = m # q" using assms(2) by (cases "outq l") auto
  have "replicate (length (outq l) + 2) Caller = Caller # Caller # replicate (length q + 1) Caller"
    by (simp add: q)
  then show ?thesis
    using collect_drain_all [of "l\<lparr>outq := q, waiter := NoWaiter\<rparr>" "[]" "[m]" False] assms(1)
    by (simp add: collect_loop_move q)
qed

section \<open>Calls one after the other\<close>

text \<open>A call of a later round gets its schedule, its round number and its payload.\<close>

primrec rounds ::
  "(schedule \<Rightarrow> i32 \<times> string \<Rightarrow> engine \<Rightarrow> outcome) \<Rightarrow> (schedule \<times> i32 \<times> string) list \<Rightarrow> engine
   \<Rightarrow> (string res list \<times> engine) option" where
  "rounds later [] st = Some ([], st)"
| "rounds later (c # cs) st =
     Option.bind (later (fst c) (snd c) st) (\<lambda>(r, st1).
     Option.bind (rounds later cs st1) (\<lambda>(rs, st2). Some (r # rs, st2)))"

text \<open>A later round, and what the server's envelope in it says.\<close>

definition server_round :: "codecs \<Rightarrow> i32 \<times> string \<Rightarrow> wire_envelope \<times> bytes list \<Rightarrow> bool" where
  "server_round C c e \<longleftrightarrow> fst c \<noteq> 0 \<and> fst c \<noteq> 1 \<and> parse_server_envelope_batch C (snd c) = Inr e"

definition reads :: "codecs \<Rightarrow> string \<Rightarrow> bytes list \<Rightarrow> bool" where
  "reads C r msgs \<longleftrightarrow> (\<exists>rnd. answers C rnd r msgs)"

text \<open>
  The later rounds of one session, when nothing else stops them: an exchange with its link that
  returns makes the call return.
\<close>

locale steady =
  fixes C :: codecs and sid :: string and prot :: protocol_type
    and link_of :: "engine \<Rightarrow> 'r link option" and ready :: "engine \<Rightarrow> bool"
    and later :: "schedule \<Rightarrow> i32 \<times> string \<Rightarrow> engine \<Rightarrow> outcome" and finish :: "byte \<Rightarrow> 'r \<Rightarrow> string res"
  assumes later_batch: "ready st \<Longrightarrow> link_of st = Some l \<Longrightarrow> server_round C c (env, msgs) \<Longrightarrow>
      exchange sch l msgs = Some (Inr (Some (batch, d)), l') \<Longrightarrow>
      \<exists>st'. later sch c st = Some (make_in_progress_batch C sid prot (we_round env) batch, st')
        \<and> ready st' \<and> link_of st' = Some l'"
    and later_done: "ready st \<Longrightarrow> link_of st = Some l \<Longrightarrow> server_round C c (env, msgs) \<Longrightarrow>
      exchange sch l msgs = Some (Inr None, l') \<Longrightarrow> join_link l' = Some (Inr (Inr v)) \<Longrightarrow>
      \<exists>st'. later sch c st = Some (finish (we_round env) v, st') \<and> link_of st' = None"
begin

lemma rounds_return:
  assumes "json_law C" and "b64_law C"
  shows "plays t (map snd es) as v \<Longrightarrow> list_all2 (server_round C) cs es \<Longrightarrow> ready st \<Longrightarrow> link_of st = Some l \<Longrightarrow>
    between_rounds t l \<Longrightarrow>
    \<exists>schs rs st'. length schs = length cs \<and> list_all2 (reads C) rs as \<and> link_of st' = None
      \<and> rounds later (zip schs cs) st = Some (map Inr rs @ [finish (we_round (fst (last es))) v], st')"
proof (induction as arbitrary: t es cs st l)
  case Nil
  obtain env b where es: "es = [(env, b)]" using Nil.prems(1) by (cases es) auto
  then obtain c where cs: "cs = [c]" "server_round C c (env, b)"
    using Nil.prems(2) by (auto simp: list_all2_Cons2)
  have p: "awaiting t" "length b \<le> in_capacity" "round_of t b = Some ([], Finished (Inr v))"
    using Nil.prems(1) es by simp_all
  obtain sch l' where "exchange sch l b = Some (Inr None, l')" "join_link l' = Some (Inr (Inr v))"
    using exchange_end [OF Nil.prems(5) p] by blast
  from later_done [OF Nil.prems(3,4) cs(2) this] obtain st' where
    "later sch c st = Some (finish (we_round env) v, st')" "link_of st' = None" by blast
  then show ?case
    by (intro exI [of _ "[sch]"] exI [of _ "[]"] exI [of _ st']) (simp add: cs(1) es)
next
  case (Cons a as)
  obtain env b es' where es: "es = (env, b) # es'" using Cons.prems(1) by (cases es) auto
  then obtain c cs' where cs: "cs = c # cs'" "server_round C c (env, b)" "list_all2 (server_round C) cs' es'"
    using Cons.prems(2) by (auto simp: list_all2_Cons2)
  obtain u where u: "round_of t b = Some (a, u)" "\<not> task_done t" "length b \<le> in_capacity" "a \<noteq> []"
    "length a \<le> out_capacity" "awaiting u" "plays u (map snd es') as v"
    using Cons.prems(1) es by (auto split: option.splits)
  have "es' \<noteq> []" using u(7) by (cases es') auto
  then have last: "last es = last es'" by (simp add: es)
  obtain sch d l' where x: "exchange sch l b = Some (Inr (Some (a, d)), l')" "between_rounds u l'"
    using exchange_round [OF Cons.prems(5) u(2,3,1,4-6)] by blast
  from later_batch [OF Cons.prems(3,4) cs(2) x(1)] obtain st1 where st1:
    "later sch c st = Some (make_in_progress_batch C sid prot (we_round env) a, st1)" "ready st1" "link_of st1 = Some l'"
    by blast
  obtain r where r: "make_in_progress_batch C sid prot (we_round env) a = Inr r" "reads C r a"
    using batch_reads [OF assms(1)] answers_batch [OF assms] unfolding reads_def by metis
  from Cons.IH [OF u(7) cs(3) st1(2,3) x(2)] obtain schs rs st' where
    "length schs = length cs'" "list_all2 (reads C) rs as" "link_of st' = None"
    "rounds later (zip schs cs') st1 = Some (map Inr rs @ [finish (we_round (fst (last es'))) v], st')"
    by blast
  with st1(1) r show ?case
    by (intro exI [of _ "sch # schs"] exI [of _ "r # rs"] exI [of _ st']) (simp add: cs(1) last)
qed

end

subsection \<open>The operations\<close>

definition keygen_ready :: "string \<Rightarrow> engine \<Rightarrow> bool" where
  "keygen_ready sid st \<longleftrightarrow> frost_keygen_sessions st sid = None
     \<and> (\<forall>s. keygen_sessions st sid = Some s \<longrightarrow> ks_has_task s)"

definition recover_ready :: "call_ctx \<Rightarrow> i32 \<Rightarrow> string \<Rightarrow> engine \<Rightarrow> bool" where
  "recover_ready x version sid st \<longleftrightarrow> frost_recovery_sessions st sid = None
     \<and> (\<forall>s. recovery_sessions st sid = Some s \<longrightarrow> rs_has_task s \<and> rs_rotation_version s = version
          \<and> elapsed (cc_now x) (rs_created_at s) \<le> SESSION_TTL)"

definition sign_ready :: "string \<Rightarrow> engine \<Rightarrow> bool" where
  "sign_ready sid st \<longleftrightarrow> frost_sign_sessions st sid = None
     \<and> (\<forall>s. sign_sessions st sid = Some s \<longrightarrow> ss_has_task s \<and> \<not> ss_consumed s)"

text \<open>The later calls of a session, with the given schedule and what else the call takes.\<close>

definition keygen_later ::
  "codecs \<Rightarrow> frost_lib \<Rightarrow> dkls_lib \<Rightarrow> call_ctx \<Rightarrow> string \<Rightarrow> schedule \<Rightarrow> i32 \<times> string \<Rightarrow> engine \<Rightarrow> outcome" where
  "keygen_later C F D x sid sch c st = keygen C F D (x\<lparr>cc_schedule := sch\<rparr>) sid (fst c) (snd c) st"

definition recover_later ::
  "codecs \<Rightarrow> frost_lib \<Rightarrow> dkls_lib \<Rightarrow> call_ctx \<Rightarrow> string \<Rightarrow> schedule \<Rightarrow> i32 \<times> string \<Rightarrow> engine \<Rightarrow> outcome" where
  "recover_later C F D x sid sch c st =
     recover C F D (x\<lparr>cc_schedule := sch\<rparr>) sid (fst c) (snd c) None None st"

definition sign_later ::
  "codecs \<Rightarrow> frost_lib \<Rightarrow> dkls_lib \<Rightarrow> call_ctx \<Rightarrow> string \<Rightarrow> schedule \<Rightarrow> i32 \<times> string \<Rightarrow> engine \<Rightarrow> outcome" where
  "sign_later C F D x sid sch c st = sign C F D (x\<lparr>cc_schedule := sch\<rparr>) sid (fst c) (snd c) None None st"

interpretation keygen_steady: steady C sid Dkg "keygen_link sid" "keygen_ready sid"
  "keygen_later C F D x sid" "keygen_completed_reply C D sid" for C sid F D x
  by unfold_locales
     (auto simp: keygen_later_def server_round_def keygen_ready_def keygen_secp_rounds keygen_advance_def
        keygen_link_def session_defs join_result_def Let_def)

interpretation recover_steady: steady C sid Rotation "recover_link sid" "recover_ready x version sid"
  "recover_later C F D x sid" "\<lambda>rnd. recovery_completed_reply C D x sid rnd version" for C sid x version F D
  by unfold_locales
     (auto simp: recover_later_def server_round_def recover_ready_def recover_secp_rounds recover_advance_def
        recover_link_def session_defs join_result_def recovery_completed_reply_def Let_def)

interpretation sign_steady: steady C sid Dsg "sign_link sid" "sign_ready sid"
  "sign_later C F D x sid" "sign_completed_reply C" for C sid F D x
  by unfold_locales
     (auto simp: sign_later_def server_round_def sign_ready_def sign_secp_rounds sign_advance_def
        sign_link_def session_defs join_result_def Let_def)

section \<open>Rounds cut short\<close>

text \<open>
  Property C28: a notification left from before the call cuts a round at any place. When the task of
  a link between two rounds is polled once more, before the caller registers, and the messages the
  protocol sends in the round fit in the channel, then for every first part of them that is not
  empty there is a schedule on which the exchange returns exactly this part as the batch of a
  running protocol, with nothing queued; the other messages are those the protocol still sends.
\<close>

theorem stale_permit_cuts_round:
  assumes "between_rounds t l" and "awaiting t" and "waiter l = NoWaiter" and "length b \<le> in_capacity"
    and "round_of t b = Some (a1 @ a2, u)" and "length (a1 @ a2) \<le> out_capacity" and "a1 \<noteq> []"
  shows "\<exists>sch l'. exchange sch (task_step l) b = Some (Inr (Some (a1, False)), l') \<and> outq l' = []
    \<and> (\<exists>n. outq ((task_step ^^ n) l') = a2 \<and> prog ((task_step ^^ n) l') = u)"
proof -
  have t: "prog l = t" "inq l = []" "outq l = []" "tx_open l" using assms(1) by (simp_all add: between_rounds_def)
  have nd: "\<not> task_done t" using assms(2) by (cases t) simp_all
  have polled: "task_step l = l\<lparr>permit := True\<rparr>"
    using t assms(2,3) by (cases t) (simp_all add: task_step_def poll_next_def notify_one_def)
  let ?l1 = "enable (l\<lparr>permit := True, inq := b\<rparr>)"
  have l1: "waiter ?l1 = Notified" "prog ?l1 = t" "inq ?l1 = b" "outq ?l1 = []"
    using t by (simp_all add: enable_def)
  obtain n where n: "outq ((task_step ^^ n) ?l1) = a1"
    "round_of (prog ((task_step ^^ n) ?l1)) (inq ((task_step ^^ n) ?l1)) = Some (a2, u)"
    using task_part_round [OF assms(5) l1(2,3) _ refl] assms(6) l1(4) by auto
  let ?l2 = "(task_step ^^ n) ?l1"
  let ?l' = "?l2\<lparr>outq := [], waiter := NoWaiter\<rparr>"
  have "collect_loop (replicate (length a1 + 2) Caller) ?l2 First = Some (Some (a1, False), ?l', [])"
    using collect_notified [OF task_steps_notified [OF l1(1)], of n] n(1) assms(7) by simp
  moreover have "inject_all (replicate (length b) Caller @ sch) (l\<lparr>permit := True\<rparr>) b =
      Some (Inr (), l\<lparr>permit := True, inq := b\<rparr>, sch)" for sch
    using inject_callers [of "l\<lparr>permit := True\<rparr>" b sch] nd assms(4) t by simp
  ultimately have "exchange (replicate (length b) Caller @ Caller # replicate n Task @ replicate (length a1 + 2) Caller)
      (task_step l) b = Some (Inr (Some (a1, False)), ?l')"
    by (simp add: polled exchange_def collect_batch_def collect_loop_move collect_loop_tasks)
  moreover have "\<exists>n. outq ((task_step ^^ n) ?l') = a2 \<and> prog ((task_step ^^ n) ?l') = u"
    using task_round [OF n(2), of ?l'] assms(6) by fastforce
  moreover have "outq ?l' = []" by simp
  ultimately show ?thesis by blast
qed

theorem stale_permit_cuts_round_witness:
  "\<exists>t sch l'. exchange sch (task_step (new_link (t :: unit task))) [[0]] = Some (Inr (Some ([[1]], False)), l')
     \<and> outq l' = [] \<and> (\<exists>n. outq ((task_step ^^ n) l') = [[2]])"
proof -
  let ?t = "Await (\<lambda>_. Emit [1] (\<lambda>_. Emit [2] (\<lambda>_. Await (\<lambda>_. Finished (Inr ()))))) :: unit task"
  have "awaiting ?t" "waiter (new_link ?t) = NoWaiter" "length [[0 :: byte]] \<le> in_capacity"
    "round_of ?t [[0]] = Some ([[1]] @ [[2]], Await (\<lambda>_. Finished (Inr ())))"
    "length ([[1 :: byte]] @ [[2]]) \<le> out_capacity" "[[1 :: byte]] \<noteq> []"
    by (simp_all add: new_link_def in_capacity_def out_capacity_def)
  from stale_permit_cuts_round [OF between_new this] show ?thesis by blast
qed

section \<open>Whole conversations\<close>

text \<open>
  A first round and the later rounds \<open>cs\<close>, for some schedules: the answers but the last are read as
  the messages \<open>answered\<close>, the last one is \<open>result\<close>, and the session is closed.
\<close>

definition completes ::
  "codecs \<Rightarrow> (schedule \<Rightarrow> engine \<Rightarrow> outcome) \<Rightarrow> (schedule \<Rightarrow> i32 \<times> string \<Rightarrow> engine \<Rightarrow> outcome)
   \<Rightarrow> (i32 \<times> string) list \<Rightarrow> bytes list list \<Rightarrow> string res \<Rightarrow> (engine \<Rightarrow> 'r link option) \<Rightarrow> engine \<Rightarrow> bool" where
  "completes C first later cs answered result link_of st \<longleftrightarrow>
     (\<exists>sch schs r rs st1 st2. first sch st = Some (Inr r, st1) \<and> length schs = length cs
        \<and> rounds later (zip schs cs) st1 = Some (map Inr rs @ [result], st2)
        \<and> list_all2 (reads C) (r # rs) answered \<and> link_of st2 = None)"

lemma first_exchange:
  assumes "plays t (b # bs) (a # as) v"
  shows "\<exists>sch d l u. exchange sch (new_link t) b = Some (Inr (Some (a, d)), l) \<and> between_rounds u l \<and> plays u bs as v"
proof -
  obtain u where "round_of t b = Some (a, u)" "\<not> task_done t" "length b \<le> in_capacity" "a \<noteq> []"
    "length a \<le> out_capacity" "awaiting u" "plays u bs as v"
    using assms by (auto split: option.splits)
  with exchange_round [OF between_new this(2,3,1,4-6)] show ?thesis by blast
qed

lemma first_reply:
  assumes "json_law C" and "b64_law C"
  obtains r where "make_in_progress_batch C sid p rnd a = Inr r" and "reads C r a"
  using batch_reads [OF assms(1)] answers_batch [OF assms] unfolding reads_def by metis

lemma random_seed_schedule [simp]: "random_seed (x\<lparr>cc_schedule := sch\<rparr>) = random_seed x"
  by (simp add: random_seed_def os_rng_def)

lemma keygen_completes:
  assumes "json_law C" and "b64_law C" and "list_all2 (server_round C) cs es"
    and "parse_server_envelope_batch C p = Inr (env, b)" and "keygen_protocol C D x k = Inr t"
    and "plays t (b # map snd es) (a # as) v"
    and "detect_curve_from_envelope C p \<noteq> Ed25519" and "frost_keygen_sessions st k = None"
  shows "completes C (\<lambda>sch. keygen C F D (x\<lparr>cc_schedule := sch\<rparr>) k 1 p) (keygen_later C F D x k) cs (a # as)
    (keygen_completed_reply C D k (we_round (fst (last es))) v) (keygen_link k) st"
proof -
  obtain sch d l u where ex: "exchange sch (new_link t) b = Some (Inr (Some (a, d)), l)"
    and u: "between_rounds u l" "plays u (map snd es) as v"
    using first_exchange [OF assms(6)] by blast
  obtain r where r: "make_in_progress_batch C k Dkg (we_round env) a = Inr r" "reads C r a"
    using first_reply [OF assms(1,2)] by blast
  let ?st = "insert_keygen_session k \<lparr>ks_link = l, ks_has_task = True\<rparr> st"
  have "keygen C F D (x\<lparr>cc_schedule := sch\<rparr>) k 1 p st = Some (Inr r, ?st)"
    using assms(4,5,7) ex r(1) by (auto simp: keygen_secp_rounds keygen_round1_def keygen_protocol_def)
  moreover have "keygen_ready k ?st" "keygen_link k ?st = Some l"
    using assms(8) by (simp_all add: keygen_ready_def keygen_link_def session_defs)
  ultimately show ?thesis
    using keygen_steady.rounds_return [OF assms(1,2) u(2) assms(3) _ _ u(1), where st = ?st and x = x and F = F and D = D] r(2)
    unfolding completes_def by (metis list_all2_Cons)
qed

lemma recover_completes:
  assumes "json_law C" and "b64_law C" and "list_all2 (server_round C) cs es"
    and "parse_server_envelope_batch C p = Inr (env, b)" and "recover_protocol C D x k share = Inr t"
    and "plays t (b # map snd es) (a # as) v"
    and "\<not> opt_share_is_ed25519 C (Some share)" and "frost_recovery_sessions st k = None"
  shows "completes C (\<lambda>sch. recover C F D (x\<lparr>cc_schedule := sch\<rparr>) k 1 p (Some share) (Some version))
    (recover_later C F D x k) cs (a # as)
    (recovery_completed_reply C D x k (we_round (fst (last es))) version v) (recover_link k) st"
proof -
  obtain sch d l u where ex: "exchange sch (new_link t) b = Some (Inr (Some (a, d)), l)"
    and u: "between_rounds u l" "plays u (map snd es) as v"
    using first_exchange [OF assms(6)] by blast
  obtain r where r: "make_in_progress_batch C k Rotation (we_round env) a = Inr r" "reads C r a"
    using first_reply [OF assms(1,2)] by blast
  let ?st = "insert_recovery_session k \<lparr>rs_link = l, rs_has_task = True, rs_created_at = cc_now x,
    rs_rotation_version = version\<rparr> st"
  have "recover C F D (x\<lparr>cc_schedule := sch\<rparr>) k 1 p (Some share) (Some version) st = Some (Inr r, ?st)"
    using assms(4,5,7) ex r(1) by (auto simp: recover_secp_rounds recover_round1_def recover_protocol_def)
  moreover have "recover_ready x version k ?st" "recover_link k ?st = Some l"
    using assms(8) by (simp_all add: recover_ready_def recover_link_def session_defs elapsed_def)
  ultimately show ?thesis
    using recover_steady.rounds_return [OF assms(1,2) u(2) assms(3) _ _ u(1), where st = ?st and x = x and F = F and D = D] r(2)
    unfolding completes_def by (metis list_all2_Cons)
qed

lemma sign_completes:
  assumes "json_law C" and "b64_law C" and "list_all2 (server_round C) cs es"
    and "parse_server_envelope_batch C p = Inr (env, b)" and "sign_protocol C D x k share mh = Inr t"
    and "plays t (b # map snd es) (a # as) v"
    and "share_envelope_decode C share = Inr (Secp256k1, raw)" and "keyshare_from_bytes D raw = Some ks"
    and "hex_encode C (encoded_point D (public_key D ks) True) \<notin> exported_keys st"
    and "frost_sign_sessions st k = None"
  shows "completes C (\<lambda>sch. sign C F D (x\<lparr>cc_schedule := sch\<rparr>) k 1 p (Some share) (Some mh))
    (sign_later C F D x k) cs (a # as) (sign_completed_reply C (we_round (fst (last es))) v) (sign_link k) st"
proof -
  obtain sch d l u where ex: "exchange sch (new_link t) b = Some (Inr (Some (a, d)), l)"
    and u: "between_rounds u l" "plays u (map snd es) as v"
    using first_exchange [OF assms(6)] by blast
  obtain r where r: "make_in_progress_batch C k Dsg (we_round env) a = Inr r" "reads C r a"
    using first_reply [OF assms(1,2)] by blast
  have "\<not> opt_share_is_ed25519 C (Some share)"
    using assms(7) by (simp add: opt_share_is_ed25519_def share_is_ed25519_def)
  then obtain digest where "sign C F D (x\<lparr>cc_schedule := sch\<rparr>) k 1 p (Some share) (Some mh) st =
      Some (Inr r, insert_sign_session k \<lparr>ss_link = l, ss_has_task = True, ss_digest = digest, ss_consumed = False,
        ss_public_key_hex = hex_encode C (encoded_point D (public_key D ks) True)\<rparr> st)" (is "_ = Some (Inr r, ?st digest)")
    using assms(4,5,7-9) ex r(1)
    by (auto simp: sign_secp_rounds sign_round1_def sign_prepare_def sign_protocol_def)
  moreover have "sign_ready k (?st digest)" "sign_link k (?st digest) = Some l"
    using assms(10) by (simp_all add: sign_ready_def sign_link_def session_defs)
  ultimately show ?thesis
    using sign_steady.rounds_return [OF assms(1,2) u(2) assms(3) _ _ u(1), where st = "?st digest" and x = x and F = F and D = D] r(2)
    unfolding completes_def by (metis list_all2_Cons)
qed

section \<open>Properties\<close>

text \<open>
  Property C18: conversations come to their end. If the protocol that the first round sets up, run by
  itself on the server's batches, answers each with at least one message and no more than the
  channels hold, and finishes on the last batch, then there are schedules on which every call of
  the session returns: the first and every later one but the last with the messages of the
  protocol, the last one with its result, and the session is closed.
\<close>

theorem conversations_complete:
  assumes "json_law C" and "b64_law C" and "list_all2 (server_round C) cs es"
    and "parse_server_envelope_batch C p = Inr (env, b)" and "rnd = we_round (fst (last es))"
  shows "(keygen_protocol C D x k = Inr tk \<longrightarrow> plays tk (b # map snd es) (a # as) vk \<longrightarrow>
            detect_curve_from_envelope C p \<noteq> Ed25519 \<longrightarrow> frost_keygen_sessions st k = None \<longrightarrow>
            completes C (\<lambda>sch. keygen C F D (x\<lparr>cc_schedule := sch\<rparr>) k 1 p) (keygen_later C F D x k) cs (a # as)
              (keygen_completed_reply C D k rnd vk) (keygen_link k) st)
       \<and> (recover_protocol C D x r share = Inr tr \<longrightarrow> plays tr (b # map snd es) (a # as) vr \<longrightarrow>
            \<not> opt_share_is_ed25519 C (Some share) \<longrightarrow> frost_recovery_sessions st r = None \<longrightarrow>
            completes C (\<lambda>sch. recover C F D (x\<lparr>cc_schedule := sch\<rparr>) r 1 p (Some share) (Some version))
              (recover_later C F D x r) cs (a # as) (recovery_completed_reply C D x r rnd version vr) (recover_link r) st)
       \<and> (sign_protocol C D x s share mh = Inr ts \<longrightarrow> plays ts (b # map snd es) (a # as) vs \<longrightarrow>
            share_envelope_decode C share = Inr (Secp256k1, raw) \<longrightarrow> keyshare_from_bytes D raw = Some ks \<longrightarrow>
            hex_encode C (encoded_point D (public_key D ks) True) \<notin> exported_keys st \<longrightarrow>
            frost_sign_sessions st s = None \<longrightarrow>
            completes C (\<lambda>sch. sign C F D (x\<lparr>cc_schedule := sch\<rparr>) s 1 p (Some share) (Some mh)) (sign_later C F D x s)
              cs (a # as) (sign_completed_reply C rnd vs) (sign_link s) st)"
  using keygen_completes [OF assms(1-4)] recover_completes [OF assms(1-4)] sign_completes [OF assms(1-4)]
  unfolding assms(5) by (intro conjI impI)

theorem conversations_complete_witness:
  "\<exists>p (env :: wire_envelope) t. keygen_protocol ex_codecs ex_dkls (ex_ctx []) ex_id = Inr t \<and> plays t [[[9]], [[9]]] [[[1]]] ex_ks
     \<and> completes ex_codecs (\<lambda>sch. keygen ex_codecs ex_frost ex_dkls ((ex_ctx [])\<lparr>cc_schedule := sch\<rparr>) ex_id 1 p)
         (keygen_later ex_codecs ex_frost ex_dkls (ex_ctx []) ex_id) [(2, p)] [[[1]]]
         (keygen_completed_reply ex_codecs ex_dkls ex_id (we_round env) ex_ks) (keygen_link ex_id) init_engine"
proof -
  obtain p env where p: "parse_server_envelope_batch ex_codecs p = Inr (env, [[9]])"
    "detect_curve_from_envelope ex_codecs p \<noteq> Ed25519"
    by (rule ex_secp_envelope)
  obtain inst where inst: "instance_id_from_session ex_codecs ex_id = Inr inst"
    by (simp add: ex_id_def instance_id_from_session_def codec_simps ex_laws try_into_array_def)
  obtain t where t: "keygen_protocol ex_codecs ex_dkls (ex_ctx []) ex_id = Inr t" "t = ex_run [1] ex_ks"
    using inst by (simp add: keygen_protocol_def ex_dkls_def ex_run_def comp_def)
  have plays: "plays t ([[9]] # map snd [(env, [[9]])]) ([[1]] # []) ex_ks"
    by (simp add: t(2) ex_run_def in_capacity_def out_capacity_def)
  have rounds: "list_all2 (server_round ex_codecs) [(2, p)] [(env, [[9]])]"
    using p(1) by (simp add: server_round_def)
  have "frost_keygen_sessions init_engine ex_id = None" by (simp add: init_engine_def)
  from conversations_complete [OF ex_json_law ex_b64_law rounds p(1) refl, THEN conjunct1, rule_format, OF t(1) plays p(2) this]
  have "completes ex_codecs (\<lambda>sch. keygen ex_codecs ex_frost ex_dkls ((ex_ctx [])\<lparr>cc_schedule := sch\<rparr>) ex_id 1 p)
         (keygen_later ex_codecs ex_frost ex_dkls (ex_ctx []) ex_id) [(2, p)] [[[1]]]
         (keygen_completed_reply ex_codecs ex_dkls ex_id (we_round env) ex_ks) (keygen_link ex_id) init_engine"
    by simp
  moreover have "plays t [[[9]], [[9]]] [[[1]]] ex_ks" using plays by simp
  ultimately show ?thesis using t(1) by blast
qed

end
