(* ===== verification/Runtime.thy ===== *)
theory Runtime
  imports Prelude
begin

text \<open>
  \<open>rust/src/runtime.rs\<close>: the process-wide tokio runtime, built by the first call that needs it. The
  builder of tokio is a parameter, since building a runtime can fail; how the runtime schedules
  tasks is the schedule argument of the channel handlers.
\<close>

record runtime_settings =
  rt_multi_thread :: bool
  rt_worker_threads :: nat
  rt_enable_all :: bool

definition engine_runtime :: runtime_settings where
  "engine_runtime = \<lparr>rt_multi_thread = True, rt_worker_threads = 2, rt_enable_all = True\<rparr>"

text \<open>
  \<open>RUNTIME.get_or_init\<close>: the cell of the runtime, empty before the first call. A builder that
  fails makes the initialiser panic, and the cell stays empty.
\<close>

definition get_runtime :: "(runtime_settings \<Rightarrow> string + 'rt) \<Rightarrow> 'rt option \<Rightarrow> 'rt res \<times> 'rt option" where
  "get_runtime build cell =
     (case cell of
        Some rt \<Rightarrow> (Inr rt, Some rt)
      | None \<Rightarrow>
          (case build engine_runtime of
             Inr rt \<Rightarrow> (Inr rt, Some rt)
           | Inl e \<Rightarrow> (Inl (Panicked (''tokio runtime init failed: '' @ e)), None)))"

text \<open>Calls one after the other, each with what the builder would answer at that time.\<close>

primrec get_runtimes ::
  "(runtime_settings \<Rightarrow> string + 'rt) list \<Rightarrow> 'rt option \<Rightarrow> 'rt res list \<times> 'rt option" where
  "get_runtimes [] cell = ([], cell)"
| "get_runtimes (build # builds) cell =
     (case get_runtime build cell of (r, cell1) \<Rightarrow>
        (case get_runtimes builds cell1 of (rs, cell2) \<Rightarrow> (r # rs, cell2)))"

lemma get_runtimes_full [simp]: "get_runtimes builds (Some rt) = (map (\<lambda>_. Inr rt) builds, Some rt)"
  by (induction builds) (simp_all add: get_runtime_def)

text \<open>
  The runtime is built once: the calls before the first builder that succeeds panic, and that one
  and every later call get the runtime it has built. Tasks spawned by one call are there for the
  others.
\<close>

lemma runtime_built_once:
  assumes "\<forall>b\<in>set failing. \<exists>e. b engine_runtime = Inl e" and "build engine_runtime = Inr rt"
  shows "\<exists>errors. get_runtimes (failing @ build # later) None =
           (map Inl errors @ Inr rt # map (\<lambda>_. Inr rt) later, Some rt) \<and> length errors = length failing"
  using assms(1)
proof (induction failing)
  case Nil
  with assms(2) show ?case by (simp add: get_runtime_def)
next
  case (Cons b failing)
  then obtain errors where "get_runtimes (failing @ build # later) None =
      (map Inl errors @ Inr rt # map (\<lambda>_. Inr rt) later, Some rt)" "length errors = length failing"
    by auto
  moreover obtain e where "b engine_runtime = Inl e" using Cons.prems by auto
  ultimately show ?case
    by (intro exI [of _ "Panicked (''tokio runtime init failed: '' @ e) # errors"]) (simp add: get_runtime_def)
qed

end
