(* ===== verification/Spec2Isabelle.thy ===== *)
theory Spec2Isabelle
  imports Contract Ffi Overlap Lock_Pools Dco Progress Runtime
begin

text \<open>
  The Rust core of ceres_mpc, a two-party wallet: \<open>rust/src\<close>. A client library holds one of two
  keyshares and runs key generation, key refresh, signing, backup and export with a server. Each
  API call is one round: the caller passes the server's message, the engine answers its own. The
  state between rounds is process-wide: six tables of sessions and a registry of exported keys.
  Two protocols sit behind one API: FROST on ed25519, whose rounds are plain function calls, and
  DKLs23 on secp256k1, which runs as an asynchronous task that the synchronous calls feed and
  drain through two channels. The Dart client reaches all of it through generated glue, which
  decodes a message, makes a call and encodes its result.

  Theories and what they model.

    \<^item> \<open>Prelude\<close>: bytes, results and their error values, the question-mark operator (\<open>andThen\<close>,
      \<open>question\<close>, \<open>attempt\<close>) and what the code uses of the Rust standard library.

    \<^item> \<open>Codecs\<close>: the record of the text crates (base64, hex, bs58, Keccak, serde_json's text) with
      their laws, the JSON values, and the helpers the serde attributes stand for. The locale
      \<open>serde_type\<close> is the contract of a serialised type; \<open>Api_Types\<close> and \<open>Frost_Engine\<close>
      interpret it for every type the code reads back.

    \<^item> \<open>Api_Types\<close>: \<open>api/types.rs\<close>, the structs, their JSON and their methods.

    \<^item> \<open>Address\<close>: \<open>api/address.rs\<close>.

    \<^item> \<open>Relay\<close>: \<open>relay.rs\<close> with \<open>inject_all\<close> and \<open>collect_batch\<close> of \<open>api/mpc_engine.rs\<close>.

    \<^item> \<open>Crates\<close>: the cryptographic crates and the bridge's cursor as records of functions.

    \<^item> \<open>Session\<close>: \<open>session.rs\<close>; the statics are the record \<open>engine\<close>, and the locale
      \<open>session_table\<close>, interpreted for all six tables, is what the handlers rely on.

    \<^item> \<open>Frost_Engine\<close>: \<open>api/engine_ed25519.rs\<close>, one definition per function, the longer ones in
      the parts their comments name.

    \<^item> \<open>Dkls_Engine\<close>: the dispatching API and the secp256k1 path of \<open>api/mpc_engine.rs\<close>, one
      definition per branch of a handler (collect mode, first round, later rounds).

    \<^item> \<open>Backup\<close>: the backup functions of \<open>api/mpc_engine.rs\<close> and their properties.

    \<^item> \<open>Frost_Proofs\<close>, \<open>Dkls_Proofs\<close>: the properties of the two engines.

    \<^item> \<open>Runs\<close>: the API as a step relation on the engine state, the invariant of that state and
      the frame of a call.

    \<^item> \<open>Dialog\<close>: the rounds of one secp256k1 session as a conversation, and the protocol run by
      itself (\<open>speaks\<close>), without relay, queues and envelopes, as its specification. The locale
      \<open>relayed\<close>, interpreted for the three operations, is the contract of their rounds. \<open>Progress\<close>:
      conversations that come to their end; \<open>round_of\<close> computes a protocol's round, and the locale
      \<open>steady\<close>, interpreted for the three operations, is what makes a call of a later round return.

    \<^item> \<open>Runtime\<close>: \<open>runtime.rs\<close>, the cell of the process-wide runtime.

    \<^item> \<open>Sse\<close>: the binary codec of \<open>frb_generated.rs\<close>, an encoder and a decoder per type. The locale
      \<open>sse_type\<close> is the contract of the two, closed under vectors, options and tuples, and is
      interpreted for every type of the interface and, in \<open>Ffi\<close>, every list of arguments.

    \<^item> \<open>Ffi\<close>: the wire functions and the dispatchers of \<open>frb_generated.rs\<close>, the texts of the errors
      they send, and \<open>api/simple.rs\<close>; the specification of a request as a value, and runs over
      arbitrary messages.

    \<^item> \<open>Dco\<close>: the second codec of \<open>frb_generated.rs\<close>, which turns results into Dart values; the
      locale \<open>dart_type\<close> says that no two values become the same one.

    \<^item> \<open>Threads\<close>: the ed25519 calls once more, as threads of critical sections, one definition per
      function, and the sections of a first secp256k1 signing round. \<open>Overlap\<close>: pools in which such threads run at once; the locale \<open>token_table\<close>,
      interpreted for the three tables of FROST sessions, is what keeps a session's secret with
      one thread.

    \<^item> \<open>Locks\<close>: the rounds of the secp256k1 operations once more, as workers that meet at the lock
      of a table of sessions and at the channels of the tasks, and pools of them, in which
      sessions are opened, replaced and taken out. \<open>Lock_Calls\<close>: a worker alone is the call.
      \<open>Lock_Pools\<close>: what holds of pools; the locale \<open>table_calls\<close>, interpreted for the three
      operations, is what their workers share.

    \<^item> \<open>Contract\<close>: what the engine promises about signing as an abstract machine, a ledger of open
      signing sessions and exported keys, and the proof that the engine's calls are its steps.
      The theorems about runs and about the ledger are in this theory.

    \<^item> \<open>Example_Codecs\<close>, \<open>Example_Libs\<close>: concrete codecs and crates that satisfy every law
      used as a hypothesis. The examples beside the theorems are evaluated over them.

  Conventions. A function that returns \<open>Result<T, String>\<close> gives \<open>error + 'a\<close>, with a
  constructor of \<open>error\<close> per shape of message, and \<open>Panicked\<close> for a panic. A handler gets the
  engine state and returns it; where an early return comes after a removal from a table, the
  state returned is the one without the entry. \<open>u8\<close>, \<open>u16\<close> and \<open>i32\<close> are words. A handler's
  \<open>call_ctx\<close> argument holds what the code takes from its surroundings: the clock, the
  generator's bytes, whether the build checks for overflow, and the schedule of the call.

  Calls and threads. In \<open>Runs\<close>, \<open>Ffi\<close> and \<open>Contract\<close> a call is one step. The bridge runs calls in
  a pool of threads, so the same calls are written a second time, cut at the points where another
  thread can come between. An ed25519 call only meets others at the locks, which it holds for one
  statement: \<open>Threads\<close> makes each such section a step, and what else the process does between them
  is any change that leaves the tables of FROST sessions alone, which no other call touches
  (\<open>calls_framed\<close>). A secp256k1 call keeps the lock of its table while it collects a batch, and
  may wait there for ever: in \<open>Locks\<close> taking and giving back a lock, sending, each move of a
  collection and each move of a task is a step, the sessions of a table refer to channels that
  outlive them, and a channel is open at an end as long as somebody, wherever it is, holds that
  end. Both forms of a call are proved to be the same call when nothing comes between
  (\<open>ed25519_threads_alone\<close> for every ed25519 call, \<open>secp_calls_alone\<close> for the later rounds and the
  collect mode of secp256k1).

  Tasks and schedules. A protocol task is a tree (\<open>task\<close>) whose nodes are its sends and its polls
  for input; the crate gives the tree, the model runs it. The type is a codatatype: a protocol may send
  or poll for ever, so that a join (\<open>run_out\<close>) and a round (\<open>round_of\<close>) are partial functions, and
  that they return is proved or a hypothesis where it is used. What a task does without its relay is not
  a step: one that computes for ever between two uses of it is not among the trees. A schedule is a list of moves of the
  caller's thread and of the task; a channel handler takes one, consumes as much of it as it
  needs, and is \<open>None\<close> if it has not returned when the schedule ends. Nothing is assumed of
  schedules, so safety theorems hold for every interleaving, \<open>None\<close> for all of them means that
  the call never returns, and a theorem that a call returns gives a schedule that is enough. A task that polls its empty input signals the caller's \<open>Notify\<close> at each poll; the
  schedule may let it poll more often than the runtime would wake it, which adds behaviours and
  hides none. The channels have the code's capacities, 16 into the task and 64 out of it.

  What the theorems show.

    \<^item> Runs: nonces are spent at most once over any run, an export is final for the opening of
      signing sessions, the state between calls is well formed, and calls touch only their own
      session. Every call refines a step of the ledger, so an open session signs what it was
      opened for.

    \<^item> FROST: a signing session yields its nonces for its own message only and once; keygen and
      sign answer what the libraries computed; a refresh keeps the verifying key, with the
      overflow of the rotation version spelled out; the export reconstructs the secret by
      Lagrange interpolation and marks the key only after its checks.

    \<^item> Relay: a batch is exactly what the task sent, in order; it is a whole round when no
      notification was left over, and can be any first part of it otherwise
      (\<open>Progress\<close>); when the call returns, when it answers \<open>None\<close> and when it blocks for ever.

    \<^item> DKLs23: opening and finishing a signature, the batch of a keygen round, when the
      collect mode ends and its result, expiry and where it is not looked at, refusal of envelopes that are not the server's, and
      the calls that block on an empty list of payloads.

    \<^item> Conversations: over all rounds of a session, with any schedule and any other calls between
      them, the protocol has read the server's messages in order and the answers hold what it has
      sent in order; the last round and the collect mode answer the protocol's own result. The
      refinement is of \<open>speaks\<close> through the relation \<open>relays\<close>, which an exchange keeps. A round whose
      messages a finished task no longer takes is an error and the end of the conversation. If the
      protocol plays its rounds within the capacities, there are schedules on which all calls
      return; the theorem constructs them, the caller's sends first, then the task's steps, then
      the collection.

    \<^item> Types, backup, addresses: round trips, compatibility with version 0.1, the errors of
      opening a backup, EIP-55 checksums.

    \<^item> Interface: what is sent is received, in one way only, up to lists of \<open>2 ^ 31\<close> elements; what
      is received has its type and is the message of its value, up to \<open>same_message\<close>: the decoder of
      an option takes more tags than 1 for \<open>Some\<close>. A request for a call is that call, and any bytes are
      such a request or run nothing; no sequence of messages leads to a state that calls do not lead to.

    \<^item> Overlap: threads at once use the nonces of a signature and the library's state of a key
      generation or refresh at most as often as these are issued; but an export can come between
      the guard of a first signing round and its session, on either curve.

    \<^item> Locks: the holder of a table's lock alone collects, and no message of a task is lost,
      doubled or reordered, whatever overlaps; a session is marked consumed only while a call is
      at its batch. But one round with an empty list of payloads can stop every later call of the
      operation, and so can a first round that replaces the session of a later one on its way; and
      two rounds of one signature can both pass the mark.

  What is not modelled. The crates of \<open>Crates\<close> and \<open>Codecs\<close> are parameters: no theorem says that
  the cryptography is secure. A first round comes to the pools of \<open>Locks\<close> when it has
  collected its own batch, which it does from channels nobody else knows, so the step before, with
  its guard of the registry, is the one of \<open>Dkls_Engine\<close>: the sets \<open>keygen_first_calls\<close>,
  \<open>recover_first_calls\<close> and \<open>sign_first_calls\<close> are defined from the results of that step, not
  written a second time; a first round that is refused before that does not
  come to the table and is in none of them. Exports take no lock of a session table and are not in these pools.
  The poisoning of a mutex by a panic is not modelled; the code panics nowhere while it holds a
  lock, once the runtime is built.
  The permit a dropped \<open>Notified\<close> future hands back is not modelled: the code drops one unused
  only when the task is done, after which the permit is not read. A HOL string stands for a Rust
  one with a character per UTF-8 byte; only \<open>Sse\<close> looks at strings that are not UTF-8.
  \<open>json_law\<close> asks for the round trip of every plain JSON value, deeper ones than serde_json's parser
  takes and strings that are not UTF-8 included; the code prints values that nest two deep. Of the
  glue, the bridge's pool, ports and message framing are not in the repository: a message is one list
  of bytes, where the bridge passes the length of its vector and of its data apart, a reply is a
  value with its encoded bytes, and an allocation the machine cannot make is not a case.
  How tokio schedules tasks is what the schedules abstract from; the Dart client, the build tooling
  and the example application are outside this development.
\<close>

section \<open>Properties of whole runs\<close>

text \<open>
  Example runs: a first keygen call, and a signing session opened and used, in which one pair of
  nonces is issued and spent.
\<close>

lemma ex_call:
  obtains p r st' where "perform ex_crates (ex_ctx []) (CallKeygen ''k'' 1 p) st = Some (Inr r, st')"
proof -
  let ?env = "frost_env ''k'' Dkg 1 ''m''"
  obtain p where p: "from_str ex_codecs dec_wire_envelope p = Inr ?env"
    by (rule ex_wire_text)
  obtain r where r: "frost_reply ex_codecs ''k'' Dkg 1 ''k1'' = Inr r"
    using frost_reply_reads [OF ex_json_law] by blast
  have "curve_or_default ?env = Ed25519"
    by (simp add: curve_or_default_def frost_env_def curve_parse_def)
  with p r parse_wire_Inr [OF p] show thesis
    by (intro that [of p r])
       (simp add: keygen_def detect_curve_from_envelope_def frost_keygen_def frost_keygen_round1_def)
qed

lemma ex_sign_calls:
  obtains p share mh r p2 sig st2 where
    "perform ex_crates (ex_ctx []) (CallSign ''s'' 1 p (Some share) (Some mh)) init_engine =
       Some (Inr r, insert_frost_sign_session ''s'' ex_sign_session init_engine)"
    and "issued ex_crates (ex_ctx []) (CallSign ''s'' 1 p (Some share) (Some mh)) init_engine = [SigningNonces [0]]"
    and "perform ex_crates (ex_ctx []) (CallSign ''s'' 2 p2 None None)
           (insert_frost_sign_session ''s'' ex_sign_session init_engine) = Some (Inr sig, st2)"
    and "spent ex_crates (CallSign ''s'' 2 p2 None None)
           (insert_frost_sign_session ''s'' ex_sign_session init_engine) = [SigningNonces [0]]"
proof -
  let ?st1 = "insert_frost_sign_session ''s'' ex_sign_session init_engine"
  let ?mh = "hex_encode ex_codecs [1, 2]"
  obtain share p raw r where share: "share_envelope_decode ex_codecs share = Inr (Ed25519, raw)"
    and checks: "frost_sign_round1_checks ex_codecs ex_frost p (Some share) (Some ?mh) init_engine =
         Inr (SigningCommitments [4], [1, 2], ex_kp, ex_pkp, hex_encode ex_codecs ex_vk)"
    and round1: "frost_sign ex_codecs ex_frost (ex_ctx []) ''s'' 1 p (Some share) (Some ?mh) init_engine =
         (Inr r, ?st1)"
    by (rule ex_round1)
  have ed: "opt_share_is_ed25519 ex_codecs (Some share)"
    using share by (simp add: opt_share_is_ed25519_def share_is_ed25519_def)
  have nonces: "fst (commit ex_frost ex_kp (cc_entropy (ex_ctx []))) = SigningNonces [0]"
    by (simp add: ex_frost_def ex_kp_def ex_ctx_def)
  obtain p2 sig st2 where
    open2: "fst (frost_sign_round2_open ex_codecs ex_frost ''s'' p2 ?st1) =
      Inr (SigningPackage [1, 2], SignatureShare [5],
           ex_sign_session\<lparr>fs_consumed := True, fs_nonces := None\<rparr>, SigningNonces [0])"
    and round2: "frost_sign ex_codecs ex_frost (ex_ctx []) ''s'' 2 p2 None None ?st1 = (Inr sig, st2)"
    using ex_round2 by metis
  have call1: "perform ex_crates (ex_ctx []) (CallSign ''s'' 1 p (Some share) (Some ?mh)) init_engine =
      Some (Inr r, ?st1)"
    using ed round1 by (simp add: sign_def)
  have "frost_sign_session_exists ''s'' ?st1"
    by (simp add: frost_sign_session_exists_def session_defs)
  then have call2: "perform ex_crates (ex_ctx []) (CallSign ''s'' 2 p2 None None) ?st1 = Some (Inr sig, st2)"
    using round2 by (simp add: sign_def)
  show thesis
    by (rule that [OF call1 _ call2]) (simp_all add: ed checks nonces open2)
qed

lemma ex_sign_run:
  obtains st where "run ex_crates [SigningNonces [0]] [SigningNonces [0]] st"
proof -
  obtain p share mh r p2 sig st2 where
    call1: "perform ex_crates (ex_ctx []) (CallSign ''s'' 1 p (Some share) (Some mh)) init_engine =
       Some (Inr r, insert_frost_sign_session ''s'' ex_sign_session init_engine)"
    and issued1: "issued ex_crates (ex_ctx []) (CallSign ''s'' 1 p (Some share) (Some mh)) init_engine = [SigningNonces [0]]"
    and call2: "perform ex_crates (ex_ctx []) (CallSign ''s'' 2 p2 None None)
           (insert_frost_sign_session ''s'' ex_sign_session init_engine) = Some (Inr sig, st2)"
    and spent2: "spent ex_crates (CallSign ''s'' 2 p2 None None)
           (insert_frost_sign_session ''s'' ex_sign_session init_engine) = [SigningNonces [0]]"
    by (rule ex_sign_calls)
  have "issued ex_crates (ex_ctx []) (CallSign ''s'' 2 p2 None None)
          (insert_frost_sign_session ''s'' ex_sign_session init_engine) = []"
    and "spent ex_crates (CallSign ''s'' 1 p (Some share) (Some mh)) init_engine = []"
    by simp_all
  with run.Call [OF run.Call [OF run.Start call1] call2]
  have "run ex_crates [SigningNonces [0]] [SigningNonces [0]] st2"
    by (simp only: issued1 spent2 append_Nil append_Nil2)
  then show thesis by (rule that)
qed

text \<open>
  Property C1: no nonces are signed with twice. Along every run of API calls, in any order, for
  any sessions and over any crates, the nonces handed to round 2 of a signature are among those
  committed to in a round 1, each at most as often as it was committed to; so if the generator
  never repeats nonces, no two signatures use the same.
\<close>

theorem nonces_spent_once:
  assumes "run W i u st"
  shows "mset u \<subseteq># mset i \<and> (distinct i \<longrightarrow> distinct u)"
proof -
  have "mset u \<subseteq># mset i"
    by (rule subset_mset.order_trans [OF mset_subset_eq_add_left run_nonces [OF assms]])
  then show ?thesis using distinct_submset by blast
qed

theorem nonces_spent_once_witness:
  "\<exists>st. run ex_crates [SigningNonces [0]] [SigningNonces [0]] st
     \<and> mset [SigningNonces [0]] \<subseteq># mset [SigningNonces [0]]"
proof -
  obtain st where run: "run ex_crates [SigningNonces [0]] [SigningNonces [0]] st"
    by (rule ex_sign_run)
  from nonces_spent_once [OF run] run show ?thesis by blast
qed

text \<open>
  Property C3: once a private key has been exported from a share, no later call opens a signing
  session for that share, on either curve, through the dispatch or directly, whatever calls come
  in between.
\<close>

theorem export_is_final:
  assumes "export_private_key C F D S share server st = (Inr r, st1)"
    and "(st1, st2) \<in> (call_step \<lparr>the_codecs = C, the_frost = F, the_dkls = D, the_scalars = S\<rparr>)\<^sup>*"
    and "keyshares_not_json C D"
  shows "(\<exists>e. sign C F D x sid 1 p (Some share) mh st2 = Some (Inl e, st2))
         \<and> (\<exists>e. frost_sign C F x sid 1 p (Some share) mh st2 = (Inl e, st2))"
  using export_blocks_signing [OF assms(1) calls_keep_exports [OF assms(2)] assms(3)]
    direct_sign_blocked by blast

theorem export_is_final_witness:
  "\<exists>r st1 e. export_private_key ex_codecs ex_frost ex_dkls ex_scalars
       (b64_encode ex_codecs ex_ks) (b64_encode ex_codecs ex_ks) init_engine = (Inr r, st1)
     \<and> sign ex_codecs ex_frost ex_dkls (ex_ctx []) ''s'' 1 ''x'' (Some (b64_encode ex_codecs ex_ks))
         (Some ''y'') st1 = Some (Inl e, st1)"
proof -
  obtain r st1 where run: "export_private_key ex_codecs ex_frost ex_dkls ex_scalars
       (b64_encode ex_codecs ex_ks) (b64_encode ex_codecs ex_ks) init_engine = (Inr r, st1)"
    by (rule ex_secp_export)
  from export_is_final [OF run rtrancl_refl ex_keyshares_not_json] run show ?thesis by blast
qed

text \<open>
  Property C6: the state between calls is well formed. In every state a run reaches, each channel
  session has its task and a live sender, its queues are within their capacities of 16 and 64, no
  signing session is consumed, a secp256k1 one holds a 32-byte digest and an ed25519 one its
  nonces and the commitments of just the two parties; so the guard for consumed sessions only
  matters inside a call.
\<close>

theorem run_well_formed:
  assumes "run W i u st"
  shows "(\<forall>sid s. keygen_sessions st sid = Some s \<longrightarrow> ks_has_task s \<and> tx_open (ks_link s)
            \<and> length (inq (ks_link s)) \<le> 16 \<and> length (outq (ks_link s)) \<le> 64)
       \<and> (\<forall>sid s. recovery_sessions st sid = Some s \<longrightarrow> rs_has_task s \<and> tx_open (rs_link s)
            \<and> length (inq (rs_link s)) \<le> 16 \<and> length (outq (rs_link s)) \<le> 64)
       \<and> (\<forall>sid s. sign_sessions st sid = Some s \<longrightarrow> ss_has_task s \<and> tx_open (ss_link s)
            \<and> length (inq (ss_link s)) \<le> 16 \<and> length (outq (ss_link s)) \<le> 64
            \<and> \<not> ss_consumed s \<and> length (into_bytes (ss_digest s)) = 32)
       \<and> (\<forall>sid s. frost_sign_sessions st sid = Some s \<longrightarrow> \<not> fs_consumed s \<and> fs_nonces s \<noteq> None
            \<and> dom (fs_commitments s) = {frost_client_identifier, frost_server_identifier})"
  using engine_ok_lookup [OF run_ok [OF assms]]
  by (simp add: keygen_session_ok_def recovery_session_ok_def sign_session_ok_def
        frost_sign_session_ok_def link_alive_def link_ok_def in_capacity_def out_capacity_def)

theorem run_well_formed_witness:
  "\<exists>st. run ex_crates [SigningNonces [0]] [SigningNonces [0]] st
     \<and> (\<forall>sid s. frost_sign_sessions st sid = Some s \<longrightarrow> \<not> fs_consumed s)"
proof -
  obtain st where run: "run ex_crates [SigningNonces [0]] [SigningNonces [0]] st"
    by (rule ex_sign_run)
  from run_well_formed [OF run] run show ?thesis by blast
qed

text \<open>
  Property C14: calls do not disturb each other's sessions. A call that returns changes only the two
  tables of its operation, and in them only its own session id; only an export changes the
  registry, and it only adds to it.
\<close>

theorem calls_framed:
  assumes "perform W x c st = Some (r, st')"
  shows "case c of
           CallKeygen sid _ _ \<Rightarrow> keygen_frame sid st st'
         | CallRecover sid _ _ _ _ \<Rightarrow> recover_frame sid st st'
         | CallSign sid _ _ _ _ \<Rightarrow> sign_frame sid st st'
         | CallExport _ _ \<Rightarrow> export_frame st st'
         | CallFrostKeygen sid _ _ \<Rightarrow> keygen_frame sid st st'
         | CallFrostRecover sid _ _ _ _ \<Rightarrow> recover_frame sid st st'
         | CallFrostSign sid _ _ _ _ \<Rightarrow> sign_frame sid st st'"
  using perform_frame [OF assms] by (cases c) simp_all

theorem calls_framed_witness:
  "\<exists>p r st'. perform ex_crates (ex_ctx []) (CallKeygen ''k'' 1 p) init_engine = Some (Inr r, st')
     \<and> keygen_frame ''k'' init_engine st'"
proof -
  obtain p r st' where call: "perform ex_crates (ex_ctx []) (CallKeygen ''k'' 1 p) init_engine = Some (Inr r, st')"
    by (rule ex_call)
  from calls_framed [OF call] call show ?thesis by auto
qed

section \<open>The ledger of signing sessions\<close>

text \<open>
  Property C15: every call of the API is a step of the ledger of signing sessions. A session is
  opened only by a first round of sign that carries a share and a message, for a key that is not
  marked as exported, and on secp256k1 with a 32-byte digest; no other call changes what an open
  session signs; it closes only in a sign call of its own id, and an answered second round
  closes an ed25519 one; only an export marks keys, and an answered one marks one.
\<close>

theorem calls_refine_ledger:
  assumes "perform W x c st = Some (r, st')"
  shows "ledger_step (ledger_of st) c (answered r) (ledger_of st')
         \<and> (\<forall>sid share mh. signs c = Some (sid, 2, share, mh) \<and> answered r
              \<and> open_ed25519 (ledger_of st) sid \<noteq> None \<longrightarrow> open_ed25519 (ledger_of st') sid = None)"
proof (intro conjI allI impI)
  show step: "ledger_step (ledger_of st) c (answered r) (ledger_of st')"
    by (rule call_ledger_step [OF assms])
  fix sid share mh
  assume "signs c = Some (sid, 2, share, mh) \<and> answered r \<and> open_ed25519 (ledger_of st) sid \<noteq> None"
  with step show "open_ed25519 (ledger_of st') sid = None"
    by (intro ledger_answer_closes [of "ledger_of st" c _ sid share mh]) simp_all
qed

theorem calls_refine_ledger_witness:
  "\<exists>p share mh r st'.
     perform ex_crates (ex_ctx []) (CallSign ''s'' 1 p (Some share) (Some mh)) init_engine = Some (Inr r, st')
     \<and> ledger_step (ledger_of init_engine) (CallSign ''s'' 1 p (Some share) (Some mh)) True (ledger_of st')"
proof -
  obtain p share mh r where
    call1: "perform ex_crates (ex_ctx []) (CallSign ''s'' 1 p (Some share) (Some mh)) init_engine =
       Some (Inr r, insert_frost_sign_session ''s'' ex_sign_session init_engine)"
    by (rule ex_sign_calls)
  have "ledger_step (ledger_of init_engine) (CallSign ''s'' 1 p (Some share) (Some mh)) True
          (ledger_of (insert_frost_sign_session ''s'' ex_sign_session init_engine))"
    using calls_refine_ledger [OF call1] by simp
  with call1 show ?thesis by blast
qed

text \<open>
  An open ed25519 signing session signs what it was opened for. A call that returns
  leaves its key and message as they are, or it is the session's own second round and the
  session is gone, or it is a new first round under the same id, for a key that is not exported.
\<close>

lemma open_session_keeps_message:
  assumes "perform W x c st = Some (r, st')" and "frost_sign_sessions st sid = Some s"
  shows "(\<exists>s'. frost_sign_sessions st' sid = Some s'
            \<and> fs_verifying_key_hex s' = fs_verifying_key_hex s \<and> fs_message s' = fs_message s)
         \<or> (\<exists>share mh. signs c = Some (sid, 2, share, mh) \<and> frost_sign_sessions st' sid = None)
         \<or> (\<exists>share mh s'. signs c = Some (sid, 1, Some share, Some mh)
            \<and> frost_sign_sessions st' sid = Some s' \<and> fs_verifying_key_hex s' \<notin> exported_keys st)"
proof -
  have "open_ed25519 (ledger_of st) sid = Some (fs_verifying_key_hex s, fs_message s)"
    using assms(2) by simp
  from ledger_step_entry(1) [OF call_ledger_step [OF assms(1)] this] show ?thesis by auto
qed

lemma open_session_keeps_message_witness:
  "\<exists>p r st' st''. perform ex_crates (ex_ctx []) (CallKeygen ''k'' 1 p) st' = Some (r, st'')
     \<and> frost_sign_sessions st' ''s'' = Some ex_sign_session
     \<and> (\<exists>s'. frost_sign_sessions st'' ''s'' = Some s' \<and> fs_message s' = fs_message ex_sign_session)"
proof -
  let ?st = "insert_frost_sign_session ''s'' ex_sign_session init_engine"
  have s: "frost_sign_sessions ?st ''s'' = Some ex_sign_session" by (simp add: session_defs)
  obtain p r st' where call: "perform ex_crates (ex_ctx []) (CallKeygen ''k'' 1 p) ?st = Some (Inr r, st')"
    by (rule ex_call)
  from open_session_keeps_message [OF call s]
  have "\<exists>s'. frost_sign_sessions st' ''s'' = Some s' \<and> fs_message s' = fs_message ex_sign_session" by auto
  with call s show ?thesis by blast
qed

end
